(* ===== verification/Prelude.thy ===== *)
theory Prelude
  imports Main "HOL-Library.Word"
begin

text \<open>
  Shared vocabulary of the development: the machine integers of the Rust sources as words, the
  crate's error type (\<^verbatim>\<open>src/error.rs\<close>), the outcome of a Rust computation (a value, a returned
  \<^verbatim>\<open>Err\<close>, or a panic), the checked and saturating integer operations the sources use, and the
  generic list and word lemmas of the component theories.

  \<^verbatim>\<open>usize\<close> is modelled as \<^typ>\<open>nat\<close> on a 64-bit target: conversions from \<^verbatim>\<open>u64\<close> that the
  sources write with \<^verbatim>\<open>try_into\<close> keep their error branch, compared against \<open>usize_max\<close>.
  A panic (index out of range, arithmetic overflow in a checked build) is the outcome \<open>Panic\<close>,
  never a returned error, so that panic freedom is a statement about the model.
\<close>

named_theorems outcome_simps "inversion of the outcome of composed computations"
named_theorems outcome_safe "computations that never panic"

type_synonym u8 = "8 word"
type_synonym u16 = "16 word"
type_synonym u32 = "32 word"
type_synonym u64 = "64 word"

section \<open>Errors and outcomes (src/error.rs)\<close>

datatype superblock_reason =
    BadMagic
  | BadCsum
  | GenerationSkew
  | NoValidCopy
  | UnsupportedCsumType
  | UnsupportedIncompat
  | BadGeometry

datatype error =
    Io string u64
  | BadSuperblock superblock_reason
  | UnsupportedFeature string
  | UnsupportedProfile string
  | UnsupportedChecksum string
  | CsumMismatch u64
  | CorruptBtree string u64
  | NotFound
  | NotARegularFile
  | NotASymlink
  | NotASubvolume
  | BadCompression string
  | OutOfMemory string

datatype 'a outcome = Ok 'a | Err error | Panic

primrec obind :: "'a outcome \<Rightarrow> ('a \<Rightarrow> 'b outcome) \<Rightarrow> 'b outcome" where
  "obind (Ok x) f = f x"
| "obind (Err e) f = Err e"
| "obind Panic f = Panic"

primrec ok_or :: "'a option \<Rightarrow> error \<Rightarrow> 'a outcome" where
  "ok_or None e = Err e"
| "ok_or (Some x) e = Ok x"

primrec is_ok :: "'a outcome \<Rightarrow> bool" where
  "is_ok (Ok x) = True"
| "is_ok (Err e) = False"
| "is_ok Panic = False"

lemma obind_cong [fundef_cong]:
  "\<lbrakk> m = m'; \<And>x. m' = Ok x \<Longrightarrow> f x = f' x \<rbrakk> \<Longrightarrow> obind m f = obind m' f'"
  by (cases m) auto

lemma obind_Ok_iff [outcome_simps]: "obind m f = Ok y \<longleftrightarrow> (\<exists>x. m = Ok x \<and> f x = Ok y)"
  by (cases m) auto

lemma obind_Err_iff [outcome_simps]:
  "obind m f = Err e \<longleftrightarrow> m = Err e \<or> (\<exists>x. m = Ok x \<and> f x = Err e)"
  by (cases m) auto

lemma obind_Panic_iff [outcome_simps]:
  "obind m f = Panic \<longleftrightarrow> m = Panic \<or> (\<exists>x. m = Ok x \<and> f x = Panic)"
  by (cases m) auto

lemma ok_or_Ok_iff [outcome_simps]: "ok_or a e = Ok x \<longleftrightarrow> a = Some x"
  by (cases a) auto

lemma ok_or_Err_iff [outcome_simps]: "ok_or a e = Err e' \<longleftrightarrow> a = None \<and> e' = e"
  by (cases a) auto

lemma ok_or_safe [simp, outcome_safe]: "ok_or a e \<noteq> Panic"
  by (cases a) auto

lemma obind_safe [outcome_safe]:
  "m \<noteq> Panic \<Longrightarrow> (\<And>x. m = Ok x \<Longrightarrow> f x \<noteq> Panic) \<Longrightarrow> obind m f \<noteq> Panic"
  by (cases m) auto

lemma obind_assoc: "obind (obind m f) g = obind m (\<lambda>x. obind (f x) g)"
  by (cases m) auto

lemma obind_Ok_right [simp]: "obind m Ok = m"
  by (cases m) auto

section \<open>Integer operations of the standard library\<close>

definition usize_max :: nat where
  "usize_max = 2 ^ 64 - 1"

definition isize_max :: nat where
  "isize_max = 2 ^ 63 - 1"

text \<open>\<^verbatim>\<open>u64 as usize\<close>, \<^verbatim>\<open>usize::try_from(u64)\<close> and \<^verbatim>\<open>usize::checked_add\<close>.\<close>

definition as_usize :: "'a::len word \<Rightarrow> nat" where
  "as_usize x = unat x mod (usize_max + 1)"

definition try_usize :: "u64 \<Rightarrow> nat option" where
  "try_usize x = (if unat x \<le> usize_max then Some (unat x) else None)"

definition usize_checked_add :: "nat \<Rightarrow> nat \<Rightarrow> nat option" where
  "usize_checked_add a b = (if a + b \<le> usize_max then Some (a + b) else None)"

text \<open>
  Fixed-width operations: \<^verbatim>\<open>checked_add\<close>, \<^verbatim>\<open>saturating_add\<close>, \<^verbatim>\<open>saturating_sub\<close>, and the plain
  \<^verbatim>\<open>+\<close> and \<^verbatim>\<open>-\<close>, which panic on overflow where overflow checks are on.
\<close>

definition checked_add :: "'a::len word \<Rightarrow> 'a word \<Rightarrow> 'a word option" where
  "checked_add a b = (if unat a + unat b < 2 ^ LENGTH('a) then Some (a + b) else None)"

definition saturating_add :: "'a::len word \<Rightarrow> 'a word \<Rightarrow> 'a word" where
  "saturating_add a b = (if unat a + unat b < 2 ^ LENGTH('a) then a + b else - 1)"

definition saturating_sub :: "'a::len word \<Rightarrow> 'a word \<Rightarrow> 'a word" where
  "saturating_sub a b = (if b \<le> a then a - b else 0)"

definition plain_add :: "'a::len word \<Rightarrow> 'a word \<Rightarrow> 'a word outcome" where
  "plain_add a b = (if unat a + unat b < 2 ^ LENGTH('a) then Ok (a + b) else Panic)"

definition plain_sub :: "'a::len word \<Rightarrow> 'a word \<Rightarrow> 'a word outcome" where
  "plain_sub a b = (if b \<le> a then Ok (a - b) else Panic)"

text \<open>
  \<^verbatim>\<open>Vec::resize(new_len, 0)\<close>: grows with zeros or truncates; the standard library panics on a capacity
  above \<^verbatim>\<open>isize::MAX\<close>.
\<close>

definition vec_resize :: "u8 list \<Rightarrow> nat \<Rightarrow> u8 list outcome" where
  "vec_resize v new_len =
     (if new_len > isize_max then Panic else Ok (take new_len v @ replicate (new_len - length v) 0))"

lemma vec_resize_safe: "n \<le> isize_max \<Longrightarrow> vec_resize v n = Ok (take n v @ replicate (n - length v) 0)"
  by (simp add: vec_resize_def)

text \<open>\<^verbatim>\<open>&buf[start..end]\<close>: panics unless \<^verbatim>\<open>start <= end <= buf.len()\<close>.\<close>

definition slice :: "'a list \<Rightarrow> nat \<Rightarrow> nat \<Rightarrow> 'a list outcome" where
  "slice xs start stop =
     (if start \<le> stop \<and> stop \<le> length xs then Ok (take (stop - start) (drop start xs)) else Panic)"

text \<open>\<^verbatim>\<open>Vec::try_reserve(additional)\<close> on a vector of length \<open>len\<close>, with the allocator's answer \<open>A\<close>
  for a total capacity: the standard library refuses capacities above \<^verbatim>\<open>isize::MAX\<close> itself.\<close>

definition try_reserve :: "(nat \<Rightarrow> bool) \<Rightarrow> nat \<Rightarrow> nat \<Rightarrow> bool" where
  "try_reserve A len additional \<longleftrightarrow> len + additional \<le> isize_max \<and> A (len + additional)"

section \<open>Word lemmas\<close>

lemma unat_u64_less [simp]: "unat (x :: u64) < 18446744073709551616"
  using unsigned_less [of x] by simp

lemma unat_u32_less [simp]: "unat (x :: u32) < 4294967296"
  using unsigned_less [of x] by simp

lemma unat_u16_less [simp]: "unat (x :: u16) < 65536"
  using unsigned_less [of x] by simp

lemma unat_u8_less [simp]: "unat (x :: u8) < 256"
  using unsigned_less [of x] by simp

lemma as_usize_u64 [simp]: "as_usize (x :: u64) = unat x"
  by (simp add: as_usize_def usize_max_def)

lemma as_usize_u32 [simp]: "as_usize (x :: u32) = unat x"
  using order.strict_trans [OF unat_u32_less [of x], of "18446744073709551616"]
  by (simp add: as_usize_def usize_max_def)

lemma as_usize_u16 [simp]: "as_usize (x :: u16) = unat x"
  using order.strict_trans [OF unat_u16_less [of x], of "18446744073709551616"]
  by (simp add: as_usize_def usize_max_def)

lemma as_usize_u8 [simp]: "as_usize (x :: u8) = unat x"
  using order.strict_trans [OF unat_u8_less [of x], of "18446744073709551616"]
  by (simp add: as_usize_def usize_max_def)

lemma try_usize_Some [simp]: "try_usize x = Some (unat x)"
  using less_Suc_eq_le [of "unat x" "18446744073709551615"]
  by (simp add: try_usize_def usize_max_def)

lemma unat_plus_no_wrap:
  fixes a b :: "'a::len word"
  assumes "unat a + unat b < 2 ^ LENGTH('a)"
  shows "unat (a + b) = unat a + unat b"
  using assms by (simp add: unat_word_ariths)

lemma unat_word_of_nat_small:
  "n < 2 ^ LENGTH('a) \<Longrightarrow> unat (word_of_nat n :: 'a::len word) = n"
  by (simp add: unat_of_nat)

lemma unat_ucast_u32_u64: "unat (ucast (x :: u32) :: u64) = unat x"
proof -
  have "unat x < 2 ^ 64"
    using order.strict_trans [OF unat_u32_less [of x], of "2 ^ 64"] by simp
  then show ?thesis by (simp add: unsigned_ucast_eq take_bit_nat_eq_self)
qed

lemma checked_add_Some_iff [outcome_simps]:
  fixes a b :: "'a::len word"
  shows "checked_add a b = Some c \<longleftrightarrow> unat a + unat b < 2 ^ LENGTH('a) \<and> c = a + b"
  by (auto simp: checked_add_def)

lemma checked_add_None_iff [outcome_simps]:
  fixes a b :: "'a::len word"
  shows "checked_add a b = None \<longleftrightarrow> 2 ^ LENGTH('a) \<le> unat a + unat b"
  by (auto simp: checked_add_def)

lemma checked_add_unat:
  fixes a b c :: "'a::len word"
  shows "checked_add a b = Some c \<Longrightarrow> unat c = unat a + unat b"
  by (auto simp: checked_add_def unat_plus_no_wrap split: if_splits)

lemma unat_saturating_add:
  fixes a b :: "'a::len word"
  shows "unat (saturating_add a b) = min (unat a + unat b) (2 ^ LENGTH('a) - 1)"
  by (auto simp: saturating_add_def unat_plus_no_wrap unsigned_minus_1_eq_mask mask_eq_exp_minus_1)

lemma unat_minus_le:
  fixes a b :: "'a::len word"
  shows "b \<le> a \<Longrightarrow> unat (a - b) = unat a - unat b"
  by (rule unat_sub)

lemma unat_saturating_sub:
  fixes a b :: "'a::len word"
  shows "unat (saturating_sub a b) = unat a - unat b"
  by (auto simp: saturating_sub_def unat_minus_le word_le_nat_alt)

lemma slice_Ok_iff [outcome_simps]:
  "slice xs a b = Ok ys \<longleftrightarrow> a \<le> b \<and> b \<le> length xs \<and> ys = take (b - a) (drop a xs)"
  by (auto simp: slice_def)

lemma slice_safe_iff [outcome_simps]: "slice xs a b = Panic \<longleftrightarrow> \<not> (a \<le> b \<and> b \<le> length xs)"
  by (auto simp: slice_def)

lemma slice_not_Err [simp]: "slice xs a b \<noteq> Err e"
  by (auto simp: slice_def)

section \<open>Partition points\<close>

text \<open>
  \<^verbatim>\<open>slice::partition_point(pred)\<close>: on a slice partitioned by the predicate, the number of elements
  of its first part.
\<close>

definition partition_point :: "('a \<Rightarrow> bool) \<Rightarrow> 'a list \<Rightarrow> nat" where
  "partition_point p xs = length (takeWhile p xs)"

lemma partition_point_le [simp]: "partition_point p xs \<le> length xs"
  by (simp add: partition_point_def length_takeWhile_le)

lemma partition_point_before: "i < partition_point p xs \<Longrightarrow> p (xs ! i)"
  by (metis nth_mem partition_point_def set_takeWhileD takeWhile_nth)

lemma partition_point_at:
  "partition_point p xs < length xs \<Longrightarrow> \<not> p (xs ! partition_point p xs)"
  by (simp add: nth_length_takeWhile partition_point_def)

text \<open>A monotone (antitone) predicate over a sorted slice partitions it.\<close>

lemma partition_point_after:
  assumes "sorted_wrt R xs" and "\<And>a b. R a b \<Longrightarrow> p b \<Longrightarrow> p a"
    and "partition_point p xs \<le> i" and "i < length xs"
  shows "\<not> p (xs ! i)"
proof (cases "i = partition_point p xs")
  case True
  with assms(4) show ?thesis by (simp add: partition_point_at)
next
  case False
  with assms(3,4) have lt: "partition_point p xs < i" and pl: "partition_point p xs < length xs"
    by auto
  from sorted_wrt_nth_less [OF assms(1) lt assms(4)] partition_point_at [OF pl] assms(2)
  show ?thesis by blast
qed

lemma partition_point_unique:
  assumes "\<And>i. i < n \<Longrightarrow> p (xs ! i)" and "n < length xs \<Longrightarrow> \<not> p (xs ! n)" and "n \<le> length xs"
  shows "partition_point p xs = n"
proof (rule ccontr)
  assume "partition_point p xs \<noteq> n"
  then consider "partition_point p xs < n" | "n < partition_point p xs" by linarith
  then show False
  proof cases
    case 1
    with assms(3) have "partition_point p xs < length xs" by simp
    with 1 assms(1) partition_point_at [of p xs] show ?thesis by blast
  next
    case 2
    with partition_point_le [of p xs] have "n < length xs" by linarith
    with 2 assms(2) partition_point_before show ?thesis by blast
  qed
qed

section \<open>First match in a list\<close>

lemma find_append: "find p (xs @ ys) = (case find p xs of None \<Rightarrow> find p ys | Some x \<Rightarrow> Some x)"
  by (induction xs) auto

lemma find_None_all: "(\<And>x. x \<in> set xs \<Longrightarrow> \<not> p x) \<Longrightarrow> find p xs = None"
  by (simp add: find_None_iff)

lemma find_hd: "xs \<noteq> [] \<Longrightarrow> p (hd xs) \<Longrightarrow> find p xs = Some (hd xs)"
  by (cases xs) auto

lemma find_map_upt:
  assumes "m \<le> n" and "\<And>i. i < m \<Longrightarrow> \<not> p (f i)" and "m < n \<Longrightarrow> p (f m)"
  shows "find p (map f [0..<n]) = (if m < n then Some (f m) else None)"
proof -
  from assms(1) have split: "[0..<n] = [0..<m] @ [m..<n]"
    by (metis le_add_diff_inverse upt_add_eq_append zero_le)
  have none: "find p (map f [0..<m]) = None"
    using assms(2) by (auto simp: find_None_iff)
  show ?thesis
  proof (cases "m < n")
    case True
    then have "map f [0..<n] = map f [0..<m] @ f m # map f [Suc m..<n]"
      using upt_conv_Cons [OF True] by (simp add: split)
    with True assms(3) none show ?thesis by (simp add: find_append)
  next
    case False
    with assms(1) have "m = n" by simp
    with none show ?thesis by simp
  qed
qed

text \<open>A \<^verbatim>\<open>for\<close> loop whose body may fail: it stops at the first turn that does.\<close>

primrec for_each :: "'a list \<Rightarrow> ('a \<Rightarrow> unit outcome) \<Rightarrow> unit outcome" where
  "for_each [] body = Ok ()"
| "for_each (x # xs) body = obind (body x) (\<lambda>_. for_each xs body)"

lemma for_each_Ok: "for_each xs f = Ok () \<longleftrightarrow> (\<forall>x \<in> set xs. f x = Ok ())"
  by (induction xs) (auto simp: outcome_simps)

lemma for_each_Panic: "for_each xs body = Panic \<Longrightarrow> \<exists>x \<in> set xs. body x = Panic"
  by (induction xs) (auto simp: outcome_simps)

end
