(* ===== verification/Constants.thy ===== *)
theory Constants
  imports Prelude
begin

unbundle bit_operations_syntax

text \<open>
  The on-disk constants of \<^verbatim>\<open>src/format/constants.rs\<close> that the read path uses, and the feature-flag
  sets of \<^verbatim>\<open>src/format/flags.rs\<close>. Every constant keeps its Rust name and width; their defining
  equations are collected as \<open>format_consts\<close>, so that proofs unfold them by name of the collection.
\<close>

named_theorems format_consts "values of the on-disk constants"

section \<open>Constants (src/format/constants.rs)\<close>

definition BTRFS_MAGIC :: u64 where [format_consts]:
  "BTRFS_MAGIC = 0x4D5F53665248425F"

definition SUPERBLOCK_PRIMARY_OFFSET :: u64 where [format_consts]:
  "SUPERBLOCK_PRIMARY_OFFSET = 0x10000"

definition SUPERBLOCK_SIZE :: nat where [format_consts]:
  "SUPERBLOCK_SIZE = 4096"

definition FSID_LEN :: nat where [format_consts]:
  "FSID_LEN = 16"

definition UUID_LEN :: nat where [format_consts]:
  "UUID_LEN = 16"

definition CSUM_LEN :: nat where [format_consts]:
  "CSUM_LEN = 32"

definition CHUNK_TREE_OBJECTID :: u64 where [format_consts]:
  "CHUNK_TREE_OBJECTID = 3"

definition FS_TREE_OBJECTID :: u64 where [format_consts]:
  "FS_TREE_OBJECTID = 5"

definition ROOT_TREE_DIR_OBJECTID :: u64 where [format_consts]:
  "ROOT_TREE_DIR_OBJECTID = 6"

definition FIRST_FREE_OBJECTID :: u64 where [format_consts]:
  "FIRST_FREE_OBJECTID = 256"

definition EMPTY_SUBVOL_DIR_OBJECTID :: u64 where [format_consts]:
  "EMPTY_SUBVOL_DIR_OBJECTID = 2"

definition INODE_ITEM_KEY :: u8 where [format_consts]:
  "INODE_ITEM_KEY = 1"

definition DIR_ITEM_KEY :: u8 where [format_consts]:
  "DIR_ITEM_KEY = 84"

definition DIR_INDEX_KEY :: u8 where [format_consts]:
  "DIR_INDEX_KEY = 96"

definition EXTENT_DATA_KEY :: u8 where [format_consts]:
  "EXTENT_DATA_KEY = 108"

definition ROOT_ITEM_KEY :: u8 where [format_consts]:
  "ROOT_ITEM_KEY = 132"

definition ROOT_REF_KEY :: u8 where [format_consts]:
  "ROOT_REF_KEY = 156"

definition CHUNK_ITEM_KEY :: u8 where [format_consts]:
  "CHUNK_ITEM_KEY = 228"

definition CSUM_TYPE_CRC32C :: u16 where [format_consts]:
  "CSUM_TYPE_CRC32C = 0"

definition CSUM_TYPE_XXHASH :: u16 where [format_consts]:
  "CSUM_TYPE_XXHASH = 1"

definition CSUM_TYPE_SHA256 :: u16 where [format_consts]:
  "CSUM_TYPE_SHA256 = 2"

definition CSUM_TYPE_BLAKE2 :: u16 where [format_consts]:
  "CSUM_TYPE_BLAKE2 = 3"

definition COMPRESS_NONE :: u8 where [format_consts]:
  "COMPRESS_NONE = 0"

definition COMPRESS_ZLIB :: u8 where [format_consts]:
  "COMPRESS_ZLIB = 1"

definition COMPRESS_LZO :: u8 where [format_consts]:
  "COMPRESS_LZO = 2"

definition COMPRESS_ZSTD :: u8 where [format_consts]:
  "COMPRESS_ZSTD = 3"

definition FILE_EXTENT_INLINE :: u8 where [format_consts]:
  "FILE_EXTENT_INLINE = 0"

definition FILE_EXTENT_REG :: u8 where [format_consts]:
  "FILE_EXTENT_REG = 1"

definition FILE_EXTENT_PREALLOC :: u8 where [format_consts]:
  "FILE_EXTENT_PREALLOC = 2"

definition FT_ENCRYPTED :: u8 where [format_consts]:
  "FT_ENCRYPTED = 0x80"

definition BLOCK_GROUP_DATA :: u64 where [format_consts]:
  "BLOCK_GROUP_DATA = 0x1"

definition BLOCK_GROUP_SYSTEM :: u64 where [format_consts]:
  "BLOCK_GROUP_SYSTEM = 0x2"

definition BLOCK_GROUP_METADATA :: u64 where [format_consts]:
  "BLOCK_GROUP_METADATA = 0x4"

definition BLOCK_GROUP_RAID0 :: u64 where [format_consts]:
  "BLOCK_GROUP_RAID0 = 0x8"

definition BLOCK_GROUP_RAID1 :: u64 where [format_consts]:
  "BLOCK_GROUP_RAID1 = 0x10"

definition BLOCK_GROUP_DUP :: u64 where [format_consts]:
  "BLOCK_GROUP_DUP = 0x20"

definition BLOCK_GROUP_RAID10 :: u64 where [format_consts]:
  "BLOCK_GROUP_RAID10 = 0x40"

definition BLOCK_GROUP_RAID5 :: u64 where [format_consts]:
  "BLOCK_GROUP_RAID5 = 0x80"

definition BLOCK_GROUP_RAID6 :: u64 where [format_consts]:
  "BLOCK_GROUP_RAID6 = 0x100"

definition BLOCK_GROUP_RAID1C3 :: u64 where [format_consts]:
  "BLOCK_GROUP_RAID1C3 = 0x200"

definition BLOCK_GROUP_RAID1C4 :: u64 where [format_consts]:
  "BLOCK_GROUP_RAID1C4 = 0x400"

definition MAX_TREE_DEPTH :: u8 where [format_consts]:
  "MAX_TREE_DEPTH = 16"

definition MIN_NODE_SIZE :: u32 where [format_consts]:
  "MIN_NODE_SIZE = 4096"

definition MAX_NODE_SIZE :: u32 where [format_consts]:
  "MAX_NODE_SIZE = 65536"

definition MIN_SECTOR_SIZE :: u32 where [format_consts]:
  "MIN_SECTOR_SIZE = 4096"

definition MAX_SECTOR_SIZE :: u32 where [format_consts]:
  "MAX_SECTOR_SIZE = 65536"

definition MAX_DECOMPRESSED_EXTENT_BYTES :: nat where [format_consts]:
  "MAX_DECOMPRESSED_EXTENT_BYTES = 16 * 1024 * 1024"

definition NAME_HASH_SEED :: u32 where [format_consts]:
  "NAME_HASH_SEED = 0xFFFFFFFE"

definition SUPERBLOCK_OFFSETS :: "u64 list" where [format_consts]:
  "SUPERBLOCK_OFFSETS = [0x00010000, 0x04000000, 0x004000000000, 0x0040000000000000]"

definition BLOCK_GROUP_PROFILE_MASK :: u64 where
  "BLOCK_GROUP_PROFILE_MASK =
     BLOCK_GROUP_RAID0 OR BLOCK_GROUP_RAID1 OR BLOCK_GROUP_DUP OR BLOCK_GROUP_RAID10
     OR BLOCK_GROUP_RAID5 OR BLOCK_GROUP_RAID6 OR BLOCK_GROUP_RAID1C3 OR BLOCK_GROUP_RAID1C4"

lemma BLOCK_GROUP_PROFILE_MASK_value [format_consts]: "BLOCK_GROUP_PROFILE_MASK = 0x7F8"
  by (simp add: BLOCK_GROUP_PROFILE_MASK_def format_consts)

section \<open>Incompatible-feature flags (src/format/flags.rs)\<close>

definition INCOMPAT_MIXED_BACKREF :: u64 where [format_consts]:
  "INCOMPAT_MIXED_BACKREF = 0x1"

definition INCOMPAT_DEFAULT_SUBVOL :: u64 where [format_consts]:
  "INCOMPAT_DEFAULT_SUBVOL = 0x2"

definition INCOMPAT_MIXED_GROUPS :: u64 where [format_consts]:
  "INCOMPAT_MIXED_GROUPS = 0x4"

definition INCOMPAT_COMPRESS_LZO :: u64 where [format_consts]:
  "INCOMPAT_COMPRESS_LZO = 0x8"

definition INCOMPAT_COMPRESS_ZSTD :: u64 where [format_consts]:
  "INCOMPAT_COMPRESS_ZSTD = 0x10"

definition INCOMPAT_BIG_METADATA :: u64 where [format_consts]:
  "INCOMPAT_BIG_METADATA = 0x20"

definition INCOMPAT_EXTENDED_IREF :: u64 where [format_consts]:
  "INCOMPAT_EXTENDED_IREF = 0x40"

definition INCOMPAT_RAID56 :: u64 where [format_consts]:
  "INCOMPAT_RAID56 = 0x80"

definition INCOMPAT_SKINNY_METADATA :: u64 where [format_consts]:
  "INCOMPAT_SKINNY_METADATA = 0x100"

definition INCOMPAT_NO_HOLES :: u64 where [format_consts]:
  "INCOMPAT_NO_HOLES = 0x200"

definition INCOMPAT_METADATA_UUID :: u64 where [format_consts]:
  "INCOMPAT_METADATA_UUID = 0x400"

definition INCOMPAT_RAID1C34 :: u64 where [format_consts]:
  "INCOMPAT_RAID1C34 = 0x800"

definition INCOMPAT_ZONED :: u64 where [format_consts]:
  "INCOMPAT_ZONED = 0x1000"

definition INCOMPAT_EXTENT_TREE_V2 :: u64 where [format_consts]:
  "INCOMPAT_EXTENT_TREE_V2 = 0x2000"

definition INCOMPAT_RAID_STRIPE_TREE :: u64 where [format_consts]:
  "INCOMPAT_RAID_STRIPE_TREE = 0x4000"

definition INCOMPAT_SIMPLE_QUOTA :: u64 where [format_consts]:
  "INCOMPAT_SIMPLE_QUOTA = 0x10000"

definition INCOMPAT_REMAP_TREE :: u64 where [format_consts]:
  "INCOMPAT_REMAP_TREE = 0x20000"

text \<open>\<^verbatim>\<open>IncompatFlags::all().bits()\<close>: the union of the declared flags.\<close>

definition IncompatFlags_all :: u64 where
  "IncompatFlags_all = foldr (OR)
     [INCOMPAT_MIXED_BACKREF, INCOMPAT_DEFAULT_SUBVOL, INCOMPAT_MIXED_GROUPS,
      INCOMPAT_COMPRESS_LZO, INCOMPAT_COMPRESS_ZSTD, INCOMPAT_BIG_METADATA,
      INCOMPAT_EXTENDED_IREF, INCOMPAT_RAID56, INCOMPAT_SKINNY_METADATA,
      INCOMPAT_NO_HOLES, INCOMPAT_METADATA_UUID, INCOMPAT_RAID1C34,
      INCOMPAT_ZONED, INCOMPAT_EXTENT_TREE_V2, INCOMPAT_RAID_STRIPE_TREE,
      INCOMPAT_SIMPLE_QUOTA, INCOMPAT_REMAP_TREE] 0"

definition IncompatFlags_rejected :: u64 where
  "IncompatFlags_rejected = INCOMPAT_ZONED OR INCOMPAT_RAID_STRIPE_TREE OR INCOMPAT_REMAP_TREE"

text \<open>\<^verbatim>\<open>contains\<close> of the \<^verbatim>\<open>bitflags\<close> types: every bit of the argument is set.\<close>

definition flags_contain :: "u64 \<Rightarrow> u64 \<Rightarrow> bool" where
  "flags_contain flags other \<longleftrightarrow> flags AND other = other"

lemma IncompatFlags_all_value [format_consts]: "IncompatFlags_all = 0x37FFF"
  by (simp add: IncompatFlags_all_def format_consts)

lemma IncompatFlags_rejected_value [format_consts]: "IncompatFlags_rejected = 0x25000"
  by (simp add: IncompatFlags_rejected_def format_consts)

end
