(* ===== verification/Le.thy ===== *)
theory Le
  imports Prelude
begin

text \<open>
  Little-endian field reads (\<^verbatim>\<open>src/le.rs\<close>). Each read indexes the buffer byte by byte, so it panics
  when the field runs past the end of the buffer; otherwise it is \<^verbatim>\<open>from_le_bytes\<close> of the bytes at
  the offset. \<open>le_bytes\<close> is \<^verbatim>\<open>to_le_bytes\<close>; the two are inverse to each other.
\<close>

primrec le_nat :: "u8 list \<Rightarrow> nat" where
  "le_nat [] = 0"
| "le_nat (b # bs) = unat b + 256 * le_nat bs"

definition from_le_bytes :: "u8 list \<Rightarrow> 'a::len word" where
  "from_le_bytes bs = word_of_nat (le_nat bs)"

primrec nat_le_bytes :: "nat \<Rightarrow> nat \<Rightarrow> u8 list" where
  "nat_le_bytes 0 v = []"
| "nat_le_bytes (Suc n) v = word_of_nat (v mod 256) # nat_le_bytes n (v div 256)"

definition le_bytes :: "'a::len word \<Rightarrow> u8 list" where
  "le_bytes x = nat_le_bytes (LENGTH('a) div 8) (unat x)"

definition le_field :: "nat \<Rightarrow> u8 list \<Rightarrow> nat \<Rightarrow> 'a::len word" where
  "le_field n buf off = from_le_bytes (take n (drop off buf))"

definition read_le_u16 :: "u8 list \<Rightarrow> nat \<Rightarrow> u16 outcome" where
  "read_le_u16 buf offset =
     (if offset + 2 \<le> length buf then Ok (le_field 2 buf offset) else Panic)"

definition read_le_u32 :: "u8 list \<Rightarrow> nat \<Rightarrow> u32 outcome" where
  "read_le_u32 buf offset =
     (if offset + 4 \<le> length buf then Ok (le_field 4 buf offset) else Panic)"

definition read_le_u64 :: "u8 list \<Rightarrow> nat \<Rightarrow> u64 outcome" where
  "read_le_u64 buf offset =
     (if offset + 8 \<le> length buf then Ok (le_field 8 buf offset) else Panic)"

definition read_le_u8 :: "u8 list \<Rightarrow> nat \<Rightarrow> u8 outcome" where
  "read_le_u8 buf offset = (if offset < length buf then Ok (buf ! offset) else Panic)"

lemmas read_le_defs = read_le_u16_def read_le_u32_def read_le_u64_def read_le_u8_def

section \<open>Round trips\<close>

lemma le_nat_bound: "le_nat bs < 256 ^ length bs"
proof (induction bs)
  case (Cons b bs)
  then show ?case
    using unat_u8_less [of b] by (simp only: le_nat.simps length_Cons power_Suc)
qed simp

lemma length_nat_le_bytes [simp]: "length (nat_le_bytes n v) = n"
  by (induction n arbitrary: v) auto

lemma le_nat_nat_le_bytes: "le_nat (nat_le_bytes n v) = v mod 256 ^ n"
proof (induction n arbitrary: v)
  case (Suc n)
  have "v mod 256 + 256 * (v div 256 mod 256 ^ n) = v mod (256 * 256 ^ n)"
    by (simp add: mod_mult2_eq)
  with Suc show ?case by (simp add: unat_of_nat)
qed simp

lemma nat_le_bytes_le_nat: "nat_le_bytes (length bs) (le_nat bs) = bs"
proof (induction bs)
  case (Cons b bs)
  have "(unat b + 256 * le_nat bs) div 256 = le_nat bs"
    using unat_u8_less [of b] by simp
  with Cons.IH show ?case by simp
qed simp

lemma length_le_bytes [simp]: "length (le_bytes (x :: 'a::len word)) = LENGTH('a) div 8"
  by (simp add: le_bytes_def)

lemma from_le_bytes_le_bytes:
  fixes x :: "'a::len word"
  assumes "8 dvd LENGTH('a)"
  shows "from_le_bytes (le_bytes x) = x"
proof -
  have "(256 :: nat) ^ (LENGTH('a) div 8) = 2 ^ (8 * (LENGTH('a) div 8))"
    by (simp add: power_mult)
  with assms have "(256 :: nat) ^ (LENGTH('a) div 8) = 2 ^ LENGTH('a)"
    by simp
  then have "le_nat (le_bytes x) = unat x"
    by (simp add: le_bytes_def le_nat_nat_le_bytes)
  then show ?thesis by (simp add: from_le_bytes_def)
qed

lemma le_bytes_from_le_bytes:
  assumes "8 * length bs = LENGTH('a::len)"
  shows "le_bytes (from_le_bytes bs :: 'a word) = bs"
proof -
  have "(256 :: nat) ^ length bs = 2 ^ LENGTH('a)"
    by (simp add: power_mult flip: assms)
  then have "unat (from_le_bytes bs :: 'a word) = le_nat bs"
    using le_nat_bound [of bs] by (simp add: from_le_bytes_def unat_of_nat)
  then show ?thesis
    using assms nat_le_bytes_le_nat [of bs] by (simp add: le_bytes_def flip: assms)
qed

lemma from_le_bytes_zeros [simp]: "from_le_bytes (replicate n 0) = 0"
proof -
  have "le_nat (replicate n 0) = 0" by (induction n) simp_all
  then show ?thesis by (simp add: from_le_bytes_def)
qed

text \<open>A field read out of a buffer that holds its encoding at the offset.\<close>

lemma le_field_encoded:
  fixes x :: "'a::len word"
  assumes "8 dvd LENGTH('a)" and "n = LENGTH('a) div 8"
    and "take n (drop off buf) = le_bytes x"
  shows "le_field n buf off = x"
  using assms by (simp add: le_field_def from_le_bytes_le_bytes)

lemma read_le_encoded:
  shows "length pre = off \<Longrightarrow> read_le_u16 (pre @ le_bytes (a :: u16) @ post) off = Ok a"
    and "length pre = off \<Longrightarrow> read_le_u32 (pre @ le_bytes (b :: u32) @ post) off = Ok b"
    and "length pre = off \<Longrightarrow> read_le_u64 (pre @ le_bytes (c :: u64) @ post) off = Ok c"
    and "length pre = off \<Longrightarrow> read_le_u8 (pre @ d # post) off = Ok d"
  by (auto simp: read_le_defs le_field_def from_le_bytes_le_bytes)

end
