(* ===== verification/Repr.thy ===== *)
theory Repr
  imports Constants Le "HOL-Library.Product_Lexorder"
begin

text \<open>
  The fixed-layout on-disk structures of \<^verbatim>\<open>src/format/repr.rs\<close>: the offset tables, one record per
  struct and one parser per \<^verbatim>\<open>parse\<close> function. A parser reads its fields through the little-endian
  reads of \<open>Le\<close>, so it panics where the Rust one would index past the buffer; a parser with a length
  guard returns \<open>None\<close> there instead. The lemmas \<open>*_parse_eq\<close> say that the guarded parsers never
  panic and give their fields; the encoders give the byte layout, and every parser inverts its own.
\<close>

named_theorems layout "offsets and sizes of the on-disk structures"
named_theorems parse_eqs "what the parsers return"

section \<open>Superblock\<close>

definition sb_OFFSET_CSUM :: nat where [layout]:
  "sb_OFFSET_CSUM = 0"

definition sb_OFFSET_FSID :: nat where [layout]:
  "sb_OFFSET_FSID = 32"

definition sb_OFFSET_BYTENR :: nat where [layout]:
  "sb_OFFSET_BYTENR = 48"

definition sb_OFFSET_FLAGS :: nat where [layout]:
  "sb_OFFSET_FLAGS = 56"

definition sb_OFFSET_MAGIC :: nat where [layout]:
  "sb_OFFSET_MAGIC = 64"

definition sb_OFFSET_GENERATION :: nat where [layout]:
  "sb_OFFSET_GENERATION = 72"

definition sb_OFFSET_ROOT :: nat where [layout]:
  "sb_OFFSET_ROOT = 80"

definition sb_OFFSET_CHUNK_ROOT :: nat where [layout]:
  "sb_OFFSET_CHUNK_ROOT = 88"

definition sb_OFFSET_LOG_ROOT :: nat where [layout]:
  "sb_OFFSET_LOG_ROOT = 96"

definition sb_OFFSET_TOTAL_BYTES :: nat where [layout]:
  "sb_OFFSET_TOTAL_BYTES = 112"

definition sb_OFFSET_BYTES_USED :: nat where [layout]:
  "sb_OFFSET_BYTES_USED = 120"

definition sb_OFFSET_ROOT_DIR_OBJECTID :: nat where [layout]:
  "sb_OFFSET_ROOT_DIR_OBJECTID = 128"

definition sb_OFFSET_NUM_DEVICES :: nat where [layout]:
  "sb_OFFSET_NUM_DEVICES = 136"

definition sb_OFFSET_SECTORSIZE :: nat where [layout]:
  "sb_OFFSET_SECTORSIZE = 144"

definition sb_OFFSET_NODESIZE :: nat where [layout]:
  "sb_OFFSET_NODESIZE = 148"

definition sb_OFFSET_LEAFSIZE :: nat where [layout]:
  "sb_OFFSET_LEAFSIZE = 152"

definition sb_OFFSET_STRIPESIZE :: nat where [layout]:
  "sb_OFFSET_STRIPESIZE = 156"

definition sb_OFFSET_SYS_CHUNK_ARRAY_SIZE :: nat where [layout]:
  "sb_OFFSET_SYS_CHUNK_ARRAY_SIZE = 160"

definition sb_OFFSET_CHUNK_ROOT_GENERATION :: nat where [layout]:
  "sb_OFFSET_CHUNK_ROOT_GENERATION = 164"

definition sb_OFFSET_COMPAT_FLAGS :: nat where [layout]:
  "sb_OFFSET_COMPAT_FLAGS = 172"

definition sb_OFFSET_COMPAT_RO_FLAGS :: nat where [layout]:
  "sb_OFFSET_COMPAT_RO_FLAGS = 180"

definition sb_OFFSET_INCOMPAT_FLAGS :: nat where [layout]:
  "sb_OFFSET_INCOMPAT_FLAGS = 188"

definition sb_OFFSET_CSUM_TYPE :: nat where [layout]:
  "sb_OFFSET_CSUM_TYPE = 196"

definition sb_OFFSET_ROOT_LEVEL :: nat where [layout]:
  "sb_OFFSET_ROOT_LEVEL = 198"

definition sb_OFFSET_CHUNK_ROOT_LEVEL :: nat where [layout]:
  "sb_OFFSET_CHUNK_ROOT_LEVEL = 199"

definition sb_OFFSET_LOG_ROOT_LEVEL :: nat where [layout]:
  "sb_OFFSET_LOG_ROOT_LEVEL = 200"

definition sb_OFFSET_DEV_ITEM :: nat where [layout]:
  "sb_OFFSET_DEV_ITEM = 201"

definition sb_OFFSET_SYS_CHUNK_ARRAY :: nat where [layout]:
  "sb_OFFSET_SYS_CHUNK_ARRAY = 811"

definition sb_SIZE_SYS_CHUNK_ARRAY :: nat where [layout]:
  "sb_SIZE_SYS_CHUNK_ARRAY = 2048"


record superblock =
  sb_csum :: "u8 list"
  sb_fsid :: "u8 list"
  sb_bytenr :: u64
  sb_flags :: u64
  sb_magic :: u64
  sb_generation :: u64
  sb_root :: u64
  sb_chunk_root :: u64
  sb_log_root :: u64
  sb_total_bytes :: u64
  sb_bytes_used :: u64
  sb_root_dir_objectid :: u64
  sb_num_devices :: u64
  sb_devid :: u64
  sb_sectorsize :: u32
  sb_nodesize :: u32
  sb_leafsize :: u32
  sb_stripesize :: u32
  sb_sys_chunk_array_size :: u32
  sb_chunk_root_generation :: u64
  sb_compat_flags :: u64
  sb_compat_ro_flags :: u64
  sb_incompat_flags :: u64
  sb_csum_type :: u16
  sb_root_level :: u8
  sb_chunk_root_level :: u8
  sb_log_root_level :: u8
  sb_sys_chunk_array :: "u8 list"

definition superblock_parse :: "u8 list \<Rightarrow> superblock option outcome" where
  "superblock_parse buf =
    (if length buf < SUPERBLOCK_SIZE then Ok None
     else
     obind (slice buf sb_OFFSET_CSUM (sb_OFFSET_CSUM + CSUM_LEN)) (\<lambda>csum.
     obind (slice buf sb_OFFSET_FSID (sb_OFFSET_FSID + FSID_LEN)) (\<lambda>fsid.
     obind (slice buf sb_OFFSET_SYS_CHUNK_ARRAY
              (sb_OFFSET_SYS_CHUNK_ARRAY + sb_SIZE_SYS_CHUNK_ARRAY)) (\<lambda>sys_chunk_array.
     obind (read_le_u64 buf sb_OFFSET_BYTENR) (\<lambda>bytenr.
     obind (read_le_u64 buf sb_OFFSET_FLAGS) (\<lambda>flags.
     obind (read_le_u64 buf sb_OFFSET_MAGIC) (\<lambda>magic.
     obind (read_le_u64 buf sb_OFFSET_GENERATION) (\<lambda>generation.
     obind (read_le_u64 buf sb_OFFSET_ROOT) (\<lambda>root.
     obind (read_le_u64 buf sb_OFFSET_CHUNK_ROOT) (\<lambda>chunk_root.
     obind (read_le_u64 buf sb_OFFSET_LOG_ROOT) (\<lambda>log_root.
     obind (read_le_u64 buf sb_OFFSET_TOTAL_BYTES) (\<lambda>total_bytes.
     obind (read_le_u64 buf sb_OFFSET_BYTES_USED) (\<lambda>bytes_used.
     obind (read_le_u64 buf sb_OFFSET_ROOT_DIR_OBJECTID) (\<lambda>root_dir_objectid.
     obind (read_le_u64 buf sb_OFFSET_NUM_DEVICES) (\<lambda>num_devices.
     obind (read_le_u64 buf sb_OFFSET_DEV_ITEM) (\<lambda>devid.
     obind (read_le_u32 buf sb_OFFSET_SECTORSIZE) (\<lambda>sectorsize.
     obind (read_le_u32 buf sb_OFFSET_NODESIZE) (\<lambda>nodesize.
     obind (read_le_u32 buf sb_OFFSET_LEAFSIZE) (\<lambda>leafsize.
     obind (read_le_u32 buf sb_OFFSET_STRIPESIZE) (\<lambda>stripesize.
     obind (read_le_u32 buf sb_OFFSET_SYS_CHUNK_ARRAY_SIZE) (\<lambda>sys_chunk_array_size.
     obind (read_le_u64 buf sb_OFFSET_CHUNK_ROOT_GENERATION) (\<lambda>chunk_root_generation.
     obind (read_le_u64 buf sb_OFFSET_COMPAT_FLAGS) (\<lambda>compat_flags.
     obind (read_le_u64 buf sb_OFFSET_COMPAT_RO_FLAGS) (\<lambda>compat_ro_flags.
     obind (read_le_u64 buf sb_OFFSET_INCOMPAT_FLAGS) (\<lambda>incompat_flags.
     obind (read_le_u16 buf sb_OFFSET_CSUM_TYPE) (\<lambda>csum_type.
     obind (read_le_u8 buf sb_OFFSET_ROOT_LEVEL) (\<lambda>root_level.
     obind (read_le_u8 buf sb_OFFSET_CHUNK_ROOT_LEVEL) (\<lambda>chunk_root_level.
     obind (read_le_u8 buf sb_OFFSET_LOG_ROOT_LEVEL) (\<lambda>log_root_level.
     Ok (Some \<lparr>sb_csum = csum, sb_fsid = fsid, sb_bytenr = bytenr, sb_flags = flags,
       sb_magic = magic, sb_generation = generation, sb_root = root,
       sb_chunk_root = chunk_root, sb_log_root = log_root, sb_total_bytes = total_bytes,
       sb_bytes_used = bytes_used, sb_root_dir_objectid = root_dir_objectid,
       sb_num_devices = num_devices, sb_devid = devid, sb_sectorsize = sectorsize,
       sb_nodesize = nodesize, sb_leafsize = leafsize, sb_stripesize = stripesize,
       sb_sys_chunk_array_size = sys_chunk_array_size,
       sb_chunk_root_generation = chunk_root_generation, sb_compat_flags = compat_flags,
       sb_compat_ro_flags = compat_ro_flags, sb_incompat_flags = incompat_flags,
       sb_csum_type = csum_type, sb_root_level = root_level,
       sb_chunk_root_level = chunk_root_level, sb_log_root_level = log_root_level,
       sb_sys_chunk_array = sys_chunk_array\<rparr>)
     )))))))))))))))))))))))))))))"

definition body_offset_for_csum :: nat where [layout]:
  "body_offset_for_csum = CSUM_LEN"

text \<open>The fields of a superblock as functions of its 4096 bytes.\<close>

definition superblock_of :: "u8 list \<Rightarrow> superblock" where
  "superblock_of buf =
     \<lparr>sb_csum = take CSUM_LEN (drop sb_OFFSET_CSUM buf),
      sb_fsid = take FSID_LEN (drop sb_OFFSET_FSID buf),
      sb_bytenr = le_field 8 buf sb_OFFSET_BYTENR,
      sb_flags = le_field 8 buf sb_OFFSET_FLAGS, sb_magic = le_field 8 buf sb_OFFSET_MAGIC,
      sb_generation = le_field 8 buf sb_OFFSET_GENERATION,
      sb_root = le_field 8 buf sb_OFFSET_ROOT,
      sb_chunk_root = le_field 8 buf sb_OFFSET_CHUNK_ROOT,
      sb_log_root = le_field 8 buf sb_OFFSET_LOG_ROOT,
      sb_total_bytes = le_field 8 buf sb_OFFSET_TOTAL_BYTES,
      sb_bytes_used = le_field 8 buf sb_OFFSET_BYTES_USED,
      sb_root_dir_objectid = le_field 8 buf sb_OFFSET_ROOT_DIR_OBJECTID,
      sb_num_devices = le_field 8 buf sb_OFFSET_NUM_DEVICES,
      sb_devid = le_field 8 buf sb_OFFSET_DEV_ITEM,
      sb_sectorsize = le_field 4 buf sb_OFFSET_SECTORSIZE,
      sb_nodesize = le_field 4 buf sb_OFFSET_NODESIZE,
      sb_leafsize = le_field 4 buf sb_OFFSET_LEAFSIZE,
      sb_stripesize = le_field 4 buf sb_OFFSET_STRIPESIZE,
      sb_sys_chunk_array_size = le_field 4 buf sb_OFFSET_SYS_CHUNK_ARRAY_SIZE,
      sb_chunk_root_generation = le_field 8 buf sb_OFFSET_CHUNK_ROOT_GENERATION,
      sb_compat_flags = le_field 8 buf sb_OFFSET_COMPAT_FLAGS,
      sb_compat_ro_flags = le_field 8 buf sb_OFFSET_COMPAT_RO_FLAGS,
      sb_incompat_flags = le_field 8 buf sb_OFFSET_INCOMPAT_FLAGS,
      sb_csum_type = le_field 2 buf sb_OFFSET_CSUM_TYPE,
      sb_root_level = buf ! sb_OFFSET_ROOT_LEVEL,
      sb_chunk_root_level = buf ! sb_OFFSET_CHUNK_ROOT_LEVEL,
      sb_log_root_level = buf ! sb_OFFSET_LOG_ROOT_LEVEL,
      sb_sys_chunk_array = take sb_SIZE_SYS_CHUNK_ARRAY (drop sb_OFFSET_SYS_CHUNK_ARRAY buf)\<rparr>"

lemma superblock_parse_eq [parse_eqs]:
  "superblock_parse buf = Ok (if length buf < 4096 then None else Some (superblock_of buf))"
  by (simp add: superblock_parse_def superblock_of_def read_le_defs slice_def layout format_consts)

section \<open>Disk keys\<close>

text \<open>
  A disk key is ordered by the tuple \<^verbatim>\<open>cmp_tuple\<close>, as the \<^verbatim>\<open>Ord\<close> instance of \<^verbatim>\<open>DiskKey\<close> does; the
  library's \<open>linorder\<close> class is instantiated with that order.
\<close>

datatype disk_key = DiskKey (key_objectid: u64) (key_item_type: u8) (key_offset: u64)

definition DiskKey_SIZE :: nat where [layout]:
  "DiskKey_SIZE = 17"

definition disk_key_parse :: "u8 list \<Rightarrow> nat \<Rightarrow> disk_key outcome" where
  "disk_key_parse buf at =
     obind (read_le_u64 buf at) (\<lambda>objectid.
     obind (read_le_u8 buf (at + 8)) (\<lambda>item_type.
     obind (read_le_u64 buf (at + 9)) (\<lambda>offset.
     Ok (DiskKey objectid item_type offset))))"

definition cmp_tuple :: "disk_key \<Rightarrow> u64 \<times> u8 \<times> u64" where
  "cmp_tuple k = (key_objectid k, key_item_type k, key_offset k)"

text \<open>\<^verbatim>\<open>core::cmp::Ordering\<close> and the comparison of two values of an ordered type.\<close>

datatype ordering = Less | Equal | Greater

definition cmp_of :: "'a :: linorder \<Rightarrow> 'a \<Rightarrow> ordering" where
  "cmp_of x y = (if x < y then Less else if x = y then Equal else Greater)"

definition disk_key_cmp :: "disk_key \<Rightarrow> disk_key \<Rightarrow> ordering" where
  "disk_key_cmp a b = cmp_of (cmp_tuple a) (cmp_tuple b)"

text \<open>The operators \<^verbatim>\<open><=\<close> and \<^verbatim>\<open><\<close> that Rust derives from \<^verbatim>\<open>cmp\<close>.\<close>

instantiation disk_key :: linorder
begin

definition less_eq_disk_key :: "disk_key \<Rightarrow> disk_key \<Rightarrow> bool" where
  "less_eq_disk_key a b \<longleftrightarrow> disk_key_cmp a b \<noteq> Greater"

definition less_disk_key :: "disk_key \<Rightarrow> disk_key \<Rightarrow> bool" where
  "less_disk_key a b \<longleftrightarrow> disk_key_cmp a b = Less"

instance
proof
  fix x y :: disk_key
  show "x \<le> y \<Longrightarrow> y \<le> x \<Longrightarrow> x = y"
    by (cases x; cases y)
      (auto simp: less_eq_disk_key_def disk_key_cmp_def cmp_of_def cmp_tuple_def split: if_splits)
qed (auto simp: less_eq_disk_key_def less_disk_key_def disk_key_cmp_def cmp_of_def split: if_splits)

end

lemma disk_key_order_tuple:
  "a \<le> b \<longleftrightarrow> cmp_tuple a \<le> cmp_tuple b" "a < b \<longleftrightarrow> cmp_tuple a < cmp_tuple b"
  by (auto simp: less_eq_disk_key_def less_disk_key_def disk_key_cmp_def cmp_of_def split: if_splits)

lemma disk_key_less_iff:
  "DiskKey o1 t1 f1 < DiskKey o2 t2 f2 \<longleftrightarrow>
     o1 < o2 \<or> o1 = o2 \<and> (t1 < t2 \<or> t1 = t2 \<and> f1 < f2)"
  by (auto simp: disk_key_order_tuple cmp_tuple_def less_prod_def less_eq_prod_def)

lemma disk_key_le_iff:
  "DiskKey o1 t1 f1 \<le> DiskKey o2 t2 f2 \<longleftrightarrow>
     o1 < o2 \<or> o1 = o2 \<and> (t1 < t2 \<or> t1 = t2 \<and> f1 \<le> f2)"
  by (auto simp: disk_key_order_tuple cmp_tuple_def less_prod_def less_eq_prod_def)

section \<open>Tree-block header\<close>

definition hdr_OFFSET_CSUM :: nat where [layout]:
  "hdr_OFFSET_CSUM = 0"

definition hdr_OFFSET_FSID :: nat where [layout]:
  "hdr_OFFSET_FSID = hdr_OFFSET_CSUM + CSUM_LEN"

definition hdr_OFFSET_BYTENR :: nat where [layout]:
  "hdr_OFFSET_BYTENR = hdr_OFFSET_FSID + FSID_LEN"

definition hdr_OFFSET_FLAGS :: nat where [layout]:
  "hdr_OFFSET_FLAGS = hdr_OFFSET_BYTENR + 8"

definition hdr_OFFSET_CHUNK_UUID :: nat where [layout]:
  "hdr_OFFSET_CHUNK_UUID = hdr_OFFSET_FLAGS + 8"

definition hdr_OFFSET_GENERATION :: nat where [layout]:
  "hdr_OFFSET_GENERATION = hdr_OFFSET_CHUNK_UUID + UUID_LEN"

definition hdr_OFFSET_OWNER :: nat where [layout]:
  "hdr_OFFSET_OWNER = hdr_OFFSET_GENERATION + 8"

definition hdr_OFFSET_NRITEMS :: nat where [layout]:
  "hdr_OFFSET_NRITEMS = hdr_OFFSET_OWNER + 8"

definition hdr_OFFSET_LEVEL :: nat where [layout]:
  "hdr_OFFSET_LEVEL = hdr_OFFSET_NRITEMS + 4"

definition hdr_HEADER_END :: nat where [layout]:
  "hdr_HEADER_END = 101"

record header =
  hd_csum :: "u8 list"
  hd_fsid :: "u8 list"
  hd_bytenr :: u64
  hd_flags :: u64
  hd_chunk_tree_uuid :: "u8 list"
  hd_generation :: u64
  hd_owner :: u64
  hd_nritems :: u32
  hd_level :: u8

definition Header_SIZE :: nat where [layout]:
  "Header_SIZE = hdr_HEADER_END"

definition header_parse :: "u8 list \<Rightarrow> header option outcome" where
  "header_parse buf =
    (if length buf < Header_SIZE then Ok None
     else
     obind (slice buf hdr_OFFSET_CSUM (hdr_OFFSET_CSUM + CSUM_LEN)) (\<lambda>csum.
     obind (slice buf hdr_OFFSET_FSID (hdr_OFFSET_FSID + FSID_LEN)) (\<lambda>fsid.
     obind (slice buf hdr_OFFSET_CHUNK_UUID (hdr_OFFSET_CHUNK_UUID + UUID_LEN)) (\<lambda>chunk_tree_uuid.
     obind (read_le_u64 buf hdr_OFFSET_BYTENR) (\<lambda>bytenr.
     obind (read_le_u64 buf hdr_OFFSET_FLAGS) (\<lambda>flags.
     obind (read_le_u64 buf hdr_OFFSET_GENERATION) (\<lambda>generation.
     obind (read_le_u64 buf hdr_OFFSET_OWNER) (\<lambda>owner.
     obind (read_le_u32 buf hdr_OFFSET_NRITEMS) (\<lambda>nritems.
     obind (read_le_u8 buf hdr_OFFSET_LEVEL) (\<lambda>level.
     Ok (Some \<lparr>hd_csum = csum, hd_fsid = fsid, hd_bytenr = bytenr, hd_flags = flags,
       hd_chunk_tree_uuid = chunk_tree_uuid, hd_generation = generation, hd_owner = owner,
       hd_nritems = nritems, hd_level = level\<rparr>)))))))))))"

definition header_of :: "u8 list \<Rightarrow> header" where
  "header_of buf =
     \<lparr>hd_csum = take 32 buf, hd_fsid = take 16 (drop 32 buf), hd_bytenr = le_field 8 buf 48,
      hd_flags = le_field 8 buf 56, hd_chunk_tree_uuid = take 16 (drop 64 buf),
      hd_generation = le_field 8 buf 80, hd_owner = le_field 8 buf 88,
      hd_nritems = le_field 4 buf 96, hd_level = buf ! 100\<rparr>"

lemma header_parse_eq [parse_eqs]:
  "header_parse buf = Ok (if length buf < 101 then None else Some (header_of buf))"
  by (simp add: header_parse_def header_of_def read_le_defs slice_def layout format_consts)

section \<open>Leaf items and key pointers\<close>

record leaf_item =
  li_key :: disk_key
  li_offset :: u32
  li_size :: u32

definition LeafItem_SIZE :: nat where [layout]:
  "LeafItem_SIZE = DiskKey_SIZE + 4 + 4"

definition leaf_item_parse :: "u8 list \<Rightarrow> nat \<Rightarrow> leaf_item outcome" where
  "leaf_item_parse buf at =
     obind (disk_key_parse buf at) (\<lambda>key.
     obind (read_le_u32 buf (at + DiskKey_SIZE)) (\<lambda>offset.
     obind (read_le_u32 buf (at + DiskKey_SIZE + 4)) (\<lambda>size.
     Ok \<lparr>li_key = key, li_offset = offset, li_size = size\<rparr>)))"

record key_ptr =
  kp_key :: disk_key
  kp_blockptr :: u64
  kp_generation :: u64

definition KeyPtr_SIZE :: nat where [layout]:
  "KeyPtr_SIZE = DiskKey_SIZE + 8 + 8"

definition key_ptr_parse :: "u8 list \<Rightarrow> nat \<Rightarrow> key_ptr outcome" where
  "key_ptr_parse buf at =
     obind (disk_key_parse buf at) (\<lambda>key.
     obind (read_le_u64 buf (at + DiskKey_SIZE)) (\<lambda>blockptr.
     obind (read_le_u64 buf (at + DiskKey_SIZE + 8)) (\<lambda>generation.
     Ok \<lparr>kp_key = key, kp_blockptr = blockptr, kp_generation = generation\<rparr>)))"

lemma disk_key_parse_eq [parse_eqs]:
  "at + 17 \<le> length buf \<Longrightarrow>
   disk_key_parse buf at =
     Ok (DiskKey (le_field 8 buf at) (buf ! (at + 8)) (le_field 8 buf (at + 9)))"
  by (simp add: disk_key_parse_def read_le_defs)

lemma leaf_item_parse_eq [parse_eqs]:
  "at + 25 \<le> length buf \<Longrightarrow>
   leaf_item_parse buf at =
     Ok \<lparr>li_key = DiskKey (le_field 8 buf at) (buf ! (at + 8)) (le_field 8 buf (at + 9)),
        li_offset = le_field 4 buf (at + 17), li_size = le_field 4 buf (at + 21)\<rparr>"
  by (simp add: leaf_item_parse_def disk_key_parse_eq read_le_defs layout add.commute)

lemma key_ptr_parse_eq [parse_eqs]:
  "at + 33 \<le> length buf \<Longrightarrow>
   key_ptr_parse buf at =
     Ok \<lparr>kp_key = DiskKey (le_field 8 buf at) (buf ! (at + 8)) (le_field 8 buf (at + 9)),
        kp_blockptr = le_field 8 buf (at + 17), kp_generation = le_field 8 buf (at + 25)\<rparr>"
  by (simp add: key_ptr_parse_def disk_key_parse_eq read_le_defs layout add.commute)

section \<open>Chunk items and stripes\<close>

record stripe =
  st_devid :: u64
  st_offset :: u64
  st_dev_uuid :: "u8 list"

definition Stripe_SIZE :: nat where [layout]:
  "Stripe_SIZE = 8 + 8 + UUID_LEN"

definition stripe_parse :: "u8 list \<Rightarrow> nat \<Rightarrow> stripe outcome" where
  "stripe_parse buf at =
     obind (read_le_u64 buf at) (\<lambda>devid.
     obind (read_le_u64 buf (at + 8)) (\<lambda>offset.
     obind (slice buf (at + 16) (at + 16 + UUID_LEN)) (\<lambda>dev_uuid.
     Ok \<lparr>st_devid = devid, st_offset = offset, st_dev_uuid = dev_uuid\<rparr>)))"

definition stripe_of :: "u8 list \<Rightarrow> nat \<Rightarrow> stripe" where
  "stripe_of buf at =
     \<lparr>st_devid = le_field 8 buf at, st_offset = le_field 8 buf (at + 8),
      st_dev_uuid = take 16 (drop (at + 16) buf)\<rparr>"

lemma stripe_parse_eq [parse_eqs]:
  "stripe_parse buf at = (if at + 32 \<le> length buf then Ok (stripe_of buf at) else Panic)"
  by (simp add: stripe_parse_def stripe_of_def read_le_defs slice_def format_consts)

record chunk_item =
  ch_length :: u64
  ch_owner :: u64
  ch_stripe_len :: u64
  ch_ty :: u64
  ch_io_align :: u32
  ch_io_width :: u32
  ch_sector_size :: u32
  ch_num_stripes :: u16
  ch_sub_stripes :: u16
  ch_stripes_offset :: nat

definition ChunkItem_HEADER_SIZE :: nat where [layout]:
  "ChunkItem_HEADER_SIZE = 48"

definition chunk_item_parse :: "u8 list \<Rightarrow> nat \<Rightarrow> chunk_item option outcome" where
  "chunk_item_parse buf at =
    (if length buf < at + ChunkItem_HEADER_SIZE then Ok None
     else
     obind (read_le_u64 buf at) (\<lambda>length.
     obind (read_le_u64 buf (at + 8)) (\<lambda>owner.
     obind (read_le_u64 buf (at + 16)) (\<lambda>stripe_len.
     obind (read_le_u64 buf (at + 24)) (\<lambda>ty.
     obind (read_le_u32 buf (at + 32)) (\<lambda>io_align.
     obind (read_le_u32 buf (at + 36)) (\<lambda>io_width.
     obind (read_le_u32 buf (at + 40)) (\<lambda>sector_size.
     obind (read_le_u16 buf (at + 44)) (\<lambda>num_stripes.
     obind (read_le_u16 buf (at + 46)) (\<lambda>sub_stripes.
     Ok (Some \<lparr>ch_length = length, ch_owner = owner, ch_stripe_len = stripe_len, ch_ty = ty,
        ch_io_align = io_align, ch_io_width = io_width, ch_sector_size = sector_size,
        ch_num_stripes = num_stripes, ch_sub_stripes = sub_stripes,
        ch_stripes_offset = at + ChunkItem_HEADER_SIZE\<rparr>)))))))))))"

definition chunk_item_of :: "u8 list \<Rightarrow> nat \<Rightarrow> chunk_item" where
  "chunk_item_of buf at =
     \<lparr>ch_length = le_field 8 buf at, ch_owner = le_field 8 buf (at + 8),
        ch_stripe_len = le_field 8 buf (at + 16), ch_ty = le_field 8 buf (at + 24),
        ch_io_align = le_field 4 buf (at + 32), ch_io_width = le_field 4 buf (at + 36),
        ch_sector_size = le_field 4 buf (at + 40),
        ch_num_stripes = le_field 2 buf (at + 44),
        ch_sub_stripes = le_field 2 buf (at + 46), ch_stripes_offset = at + 48\<rparr>"

lemma chunk_item_parse_eq [parse_eqs]:
  "chunk_item_parse buf at =
     Ok (if length buf < at + 48 then None else Some (chunk_item_of buf at))"
  by (simp add: chunk_item_parse_def chunk_item_of_def read_le_defs layout)

definition ChunkItem_total_size :: "u16 \<Rightarrow> nat" where
  "ChunkItem_total_size num_stripes = ChunkItem_HEADER_SIZE + Stripe_SIZE * as_usize num_stripes"

lemma ChunkItem_total_size_eq: "ChunkItem_total_size n = 48 + 32 * unat n"
  by (simp add: ChunkItem_total_size_def layout format_consts)

section \<open>Inode and root items\<close>

record inode_item =
  ii_generation :: u64
  ii_transid :: u64
  ii_size :: u64
  ii_nbytes :: u64
  ii_block_group :: u64
  ii_nlink :: u32
  ii_uid :: u32
  ii_gid :: u32
  ii_mode :: u32
  ii_rdev :: u64
  ii_flags :: u64
  ii_sequence :: u64

definition InodeItem_SIZE :: nat where [layout]:
  "InodeItem_SIZE = 160"

definition inode_item_parse :: "u8 list \<Rightarrow> nat \<Rightarrow> inode_item option outcome" where
  "inode_item_parse buf at =
    (if length buf < at + InodeItem_SIZE then Ok None
     else
     obind (read_le_u64 buf at) (\<lambda>generation.
     obind (read_le_u64 buf (at + 8)) (\<lambda>transid.
     obind (read_le_u64 buf (at + 16)) (\<lambda>size.
     obind (read_le_u64 buf (at + 24)) (\<lambda>nbytes.
     obind (read_le_u64 buf (at + 32)) (\<lambda>block_group.
     obind (read_le_u32 buf (at + 40)) (\<lambda>nlink.
     obind (read_le_u32 buf (at + 44)) (\<lambda>uid.
     obind (read_le_u32 buf (at + 48)) (\<lambda>gid.
     obind (read_le_u32 buf (at + 52)) (\<lambda>mode.
     obind (read_le_u64 buf (at + 56)) (\<lambda>rdev.
     obind (read_le_u64 buf (at + 64)) (\<lambda>flags.
     obind (read_le_u64 buf (at + 72)) (\<lambda>sequence.
     Ok (Some \<lparr>ii_generation = generation, ii_transid = transid, ii_size = size,
        ii_nbytes = nbytes, ii_block_group = block_group, ii_nlink = nlink, ii_uid = uid,
        ii_gid = gid, ii_mode = mode, ii_rdev = rdev, ii_flags = flags,
        ii_sequence = sequence\<rparr>))))))))))))))"

definition inode_item_of :: "u8 list \<Rightarrow> nat \<Rightarrow> inode_item" where
  "inode_item_of buf at =
     \<lparr>ii_generation = le_field 8 buf at, ii_transid = le_field 8 buf (at + 8),
        ii_size = le_field 8 buf (at + 16), ii_nbytes = le_field 8 buf (at + 24),
        ii_block_group = le_field 8 buf (at + 32), ii_nlink = le_field 4 buf (at + 40),
        ii_uid = le_field 4 buf (at + 44), ii_gid = le_field 4 buf (at + 48),
        ii_mode = le_field 4 buf (at + 52), ii_rdev = le_field 8 buf (at + 56),
        ii_flags = le_field 8 buf (at + 64), ii_sequence = le_field 8 buf (at + 72)\<rparr>"

lemma inode_item_parse_eq [parse_eqs]:
  "inode_item_parse buf at =
     Ok (if length buf < at + 160 then None else Some (inode_item_of buf at))"
  by (simp add: inode_item_parse_def inode_item_of_def read_le_defs layout)

record root_item =
  ri_inode :: inode_item
  ri_generation :: u64
  ri_root_dirid :: u64
  ri_bytenr :: u64
  ri_byte_limit :: u64
  ri_bytes_used :: u64
  ri_last_snapshot :: u64
  ri_flags :: u64
  ri_refs :: u32
  ri_drop_progress :: disk_key
  ri_drop_level :: u8
  ri_level :: u8

definition RootItem_MIN_SIZE :: nat where [layout]:
  "RootItem_MIN_SIZE =
     InodeItem_SIZE + 8 + 8 + 8 + 8 + 8 + 8 + 8 + 4 + DiskKey_SIZE + 1 + 1"

definition root_item_parse :: "u8 list \<Rightarrow> nat \<Rightarrow> root_item option outcome" where
  "root_item_parse buf at =
    (if length buf < at + RootItem_MIN_SIZE then Ok None
     else
     obind (inode_item_parse buf at) (\<lambda>inode_opt. case inode_opt of None \<Rightarrow> Ok None | Some inode \<Rightarrow>
     (let p = at + InodeItem_SIZE in
     obind (read_le_u64 buf p) (\<lambda>generation.
     obind (read_le_u64 buf (p + 8)) (\<lambda>root_dirid.
     obind (read_le_u64 buf (p + 16)) (\<lambda>bytenr.
     obind (read_le_u64 buf (p + 24)) (\<lambda>byte_limit.
     obind (read_le_u64 buf (p + 32)) (\<lambda>bytes_used.
     obind (read_le_u64 buf (p + 40)) (\<lambda>last_snapshot.
     obind (read_le_u64 buf (p + 48)) (\<lambda>flags.
     obind (read_le_u32 buf (p + 56)) (\<lambda>refs.
     (let p = p + 60 in
     obind (disk_key_parse buf p) (\<lambda>drop_progress.
     (let p = p + DiskKey_SIZE in
     obind (read_le_u8 buf p) (\<lambda>drop_level.
     obind (read_le_u8 buf (p + 1)) (\<lambda>level.
     Ok (Some \<lparr>ri_inode = inode, ri_generation = generation, ri_root_dirid = root_dirid, ri_bytenr = bytenr,
       ri_byte_limit = byte_limit, ri_bytes_used = bytes_used,
       ri_last_snapshot = last_snapshot, ri_flags = flags, ri_refs = refs,
       ri_drop_progress = drop_progress, ri_drop_level = drop_level, ri_level = level\<rparr>
     )))))))))))))))))"

definition root_item_of :: "u8 list \<Rightarrow> nat \<Rightarrow> root_item" where
  "root_item_of buf at =
     \<lparr>ri_inode = inode_item_of buf at,
      ri_generation = le_field 8 buf (at + 160), ri_root_dirid = le_field 8 buf (at + 168),
      ri_bytenr = le_field 8 buf (at + 176), ri_byte_limit = le_field 8 buf (at + 184),
      ri_bytes_used = le_field 8 buf (at + 192),
      ri_last_snapshot = le_field 8 buf (at + 200), ri_flags = le_field 8 buf (at + 208),
      ri_refs = le_field 4 buf (at + 216),
      ri_drop_progress =
        DiskKey (le_field 8 buf (at + 220)) (buf ! (at + 228)) (le_field 8 buf (at + 229)),
      ri_drop_level = buf ! (at + 237), ri_level = buf ! (at + 238)\<rparr>"

lemma root_item_parse_eq [parse_eqs]:
  "root_item_parse buf at =
     Ok (if length buf < at + 239 then None else Some (root_item_of buf at))"
  by (simp add: root_item_parse_def root_item_of_def inode_item_parse_eq disk_key_parse_eq
      read_le_defs layout add.commute)

section \<open>Directory entries\<close>

record dir_entry =
  de_location :: disk_key
  de_transid :: u64
  de_data_len :: u16
  de_name_len :: u16
  de_ty :: u8
  de_name :: "u8 list"

definition DirEntry_HEADER_SIZE :: nat where [layout]:
  "DirEntry_HEADER_SIZE = DiskKey_SIZE + 8 + 2 + 2 + 1"

definition dir_entry_parse :: "u8 list \<Rightarrow> nat \<Rightarrow> (dir_entry \<times> nat) option outcome" where
  "dir_entry_parse buf at =
    (if length buf < at + DirEntry_HEADER_SIZE then Ok None
     else
     obind (disk_key_parse buf at) (\<lambda>location.
     obind (read_le_u64 buf (at + DiskKey_SIZE)) (\<lambda>transid.
     obind (read_le_u16 buf (at + DiskKey_SIZE + 8)) (\<lambda>data_len.
     obind (read_le_u16 buf (at + DiskKey_SIZE + 10)) (\<lambda>name_len.
     obind (read_le_u8 buf (at + DiskKey_SIZE + 12)) (\<lambda>ty.
     (let name_start = at + DirEntry_HEADER_SIZE;
          name_end = name_start + as_usize name_len;
          data_end = name_end + as_usize data_len
      in if length buf < data_end then Ok None
         else obind (slice buf name_start name_end) (\<lambda>name.
           Ok (Some (\<lparr>de_location = location, de_transid = transid, de_data_len = data_len,
             de_name_len = name_len, de_ty = ty, de_name = name\<rparr>, data_end))))))))))"

definition dir_entry_name_len :: "u8 list \<Rightarrow> nat \<Rightarrow> nat" where
  "dir_entry_name_len buf at = unat (le_field 2 buf (at + 27) :: u16)"

definition dir_entry_end :: "u8 list \<Rightarrow> nat \<Rightarrow> nat" where
  "dir_entry_end buf at =
     at + 30 + dir_entry_name_len buf at + unat (le_field 2 buf (at + 25) :: u16)"

definition dir_entry_of :: "u8 list \<Rightarrow> nat \<Rightarrow> dir_entry" where
  "dir_entry_of buf at =
     \<lparr>de_location = DiskKey (le_field 8 buf at) (buf ! (at + 8)) (le_field 8 buf (at + 9)),
      de_transid = le_field 8 buf (at + 17), de_data_len = le_field 2 buf (at + 25),
      de_name_len = le_field 2 buf (at + 27), de_ty = buf ! (at + 29),
      de_name = take (dir_entry_name_len buf at) (drop (at + 30) buf)\<rparr>"

lemma dir_entry_parse_eq [parse_eqs]:
  "dir_entry_parse buf at =
     Ok (if length buf < at + 30 \<or> length buf < dir_entry_end buf at then None
         else Some (dir_entry_of buf at, dir_entry_end buf at))"
  by (simp add: dir_entry_parse_def dir_entry_of_def dir_entry_end_def dir_entry_name_len_def
      disk_key_parse_eq read_le_defs slice_def Let_def layout add.commute add.left_commute)

lemma dir_entry_end_gt: "at < dir_entry_end buf at"
  by (simp add: dir_entry_end_def)

section \<open>File extents\<close>

record extent_data_header =
  eh_generation :: u64
  eh_ram_bytes :: u64
  eh_compression :: u8
  eh_encryption :: u8
  eh_other_encoding :: u16
  eh_ty :: u8

definition ExtentDataHeader_SIZE :: nat where [layout]:
  "ExtentDataHeader_SIZE = 21"

definition extent_data_header_parse :: "u8 list \<Rightarrow> nat \<Rightarrow> extent_data_header option outcome" where
  "extent_data_header_parse buf at =
    (if length buf < at + ExtentDataHeader_SIZE then Ok None
     else
     obind (read_le_u64 buf at) (\<lambda>generation.
     obind (read_le_u64 buf (at + 8)) (\<lambda>ram_bytes.
     obind (read_le_u8 buf (at + 16)) (\<lambda>compression.
     obind (read_le_u8 buf (at + 17)) (\<lambda>encryption.
     obind (read_le_u16 buf (at + 18)) (\<lambda>other_encoding.
     obind (read_le_u8 buf (at + 20)) (\<lambda>ty.
     Ok (Some \<lparr>eh_generation = generation, eh_ram_bytes = ram_bytes, eh_compression = compression,
        eh_encryption = encryption, eh_other_encoding = other_encoding, eh_ty = ty\<rparr>))))))))"

definition extent_data_header_of :: "u8 list \<Rightarrow> nat \<Rightarrow> extent_data_header" where
  "extent_data_header_of buf at =
     \<lparr>eh_generation = le_field 8 buf at, eh_ram_bytes = le_field 8 buf (at + 8),
        eh_compression = buf ! (at + 16), eh_encryption = buf ! (at + 17),
        eh_other_encoding = le_field 2 buf (at + 18), eh_ty = buf ! (at + 20)\<rparr>"

lemma extent_data_header_parse_eq [parse_eqs]:
  "extent_data_header_parse buf at =
     Ok (if length buf < at + 21 then None else Some (extent_data_header_of buf at))"
  by (simp add: extent_data_header_parse_def extent_data_header_of_def read_le_defs layout)

record extent_data_regular =
  er_disk_bytenr :: u64
  er_disk_num_bytes :: u64
  er_offset :: u64
  er_num_bytes :: u64

definition ExtentDataRegular_SIZE :: nat where [layout]:
  "ExtentDataRegular_SIZE = 32"

definition extent_data_regular_parse :: "u8 list \<Rightarrow> nat \<Rightarrow> extent_data_regular option outcome" where
  "extent_data_regular_parse buf at =
    (if length buf < at + ExtentDataRegular_SIZE then Ok None
     else
     obind (read_le_u64 buf at) (\<lambda>disk_bytenr.
     obind (read_le_u64 buf (at + 8)) (\<lambda>disk_num_bytes.
     obind (read_le_u64 buf (at + 16)) (\<lambda>offset.
     obind (read_le_u64 buf (at + 24)) (\<lambda>num_bytes.
     Ok (Some \<lparr>er_disk_bytenr = disk_bytenr, er_disk_num_bytes = disk_num_bytes,
        er_offset = offset, er_num_bytes = num_bytes\<rparr>))))))"

definition extent_data_regular_of :: "u8 list \<Rightarrow> nat \<Rightarrow> extent_data_regular" where
  "extent_data_regular_of buf at =
     \<lparr>er_disk_bytenr = le_field 8 buf at, er_disk_num_bytes = le_field 8 buf (at + 8),
        er_offset = le_field 8 buf (at + 16), er_num_bytes = le_field 8 buf (at + 24)\<rparr>"

lemma extent_data_regular_parse_eq [parse_eqs]:
  "extent_data_regular_parse buf at =
     Ok (if length buf < at + 32 then None else Some (extent_data_regular_of buf at))"
  by (simp add: extent_data_regular_parse_def extent_data_regular_of_def read_le_defs layout)

section \<open>Byte layouts and round trips\<close>

text \<open>
  The encoders write the structs the way the format lays them out (and the way the repository's own
  test images are built); the parsers invert them at any position of a buffer.
\<close>

definition encode_disk_key :: "disk_key \<Rightarrow> u8 list" where
  "encode_disk_key k =
     le_bytes (key_objectid k) @ [key_item_type k] @ le_bytes (key_offset k)"

definition encode_leaf_item :: "leaf_item \<Rightarrow> u8 list" where
  "encode_leaf_item it =
     encode_disk_key (li_key it) @ le_bytes (li_offset it) @ le_bytes (li_size it)"

definition encode_key_ptr :: "key_ptr \<Rightarrow> u8 list" where
  "encode_key_ptr kp =
     encode_disk_key (kp_key kp) @ le_bytes (kp_blockptr kp) @ le_bytes (kp_generation kp)"

definition encode_stripe :: "stripe \<Rightarrow> u8 list" where
  "encode_stripe st = le_bytes (st_devid st) @ le_bytes (st_offset st) @ st_dev_uuid st"

definition encode_chunk_item :: "chunk_item \<Rightarrow> u8 list" where
  "encode_chunk_item c =
     le_bytes (ch_length c) @ le_bytes (ch_owner c) @ le_bytes (ch_stripe_len c)
     @ le_bytes (ch_ty c) @ le_bytes (ch_io_align c) @ le_bytes (ch_io_width c)
     @ le_bytes (ch_sector_size c) @ le_bytes (ch_num_stripes c) @ le_bytes (ch_sub_stripes c)"

definition encode_dir_entry :: "dir_entry \<Rightarrow> u8 list \<Rightarrow> u8 list" where
  "encode_dir_entry e data =
     encode_disk_key (de_location e) @ le_bytes (de_transid e) @ le_bytes (de_data_len e)
     @ le_bytes (de_name_len e) @ [de_ty e] @ de_name e @ data"

lemmas encode_defs = encode_disk_key_def encode_leaf_item_def encode_key_ptr_def
  encode_stripe_def encode_chunk_item_def encode_dir_entry_def

lemma length_encode [simp]:
  "length (encode_disk_key k) = 17" "length (encode_leaf_item it) = 25"
  "length (encode_key_ptr kp) = 33" "length (encode_chunk_item c) = 48"
  by (simp_all add: encode_defs)

lemma disk_key_roundtrip:
  "disk_key_parse (pre @ encode_disk_key k @ post) (length pre) = Ok k"
  by (cases k) (simp add: disk_key_parse_eq encode_defs le_field_def nth_append from_le_bytes_le_bytes)

lemma leaf_item_roundtrip:
  "leaf_item_parse (pre @ encode_leaf_item it @ post) (length pre) = Ok it"
  by (cases it; cases "li_key it")
    (simp add: leaf_item_parse_eq encode_defs le_field_def nth_append from_le_bytes_le_bytes)

lemma key_ptr_roundtrip:
  "key_ptr_parse (pre @ encode_key_ptr kp @ post) (length pre) = Ok kp"
  by (cases kp; cases "kp_key kp")
    (simp add: key_ptr_parse_eq encode_defs le_field_def nth_append from_le_bytes_le_bytes)

lemma stripe_roundtrip:
  "length (st_dev_uuid st) = 16 \<Longrightarrow>
   stripe_parse (pre @ encode_stripe st @ post) (length pre) = Ok st"
  by (cases st)
    (simp add: stripe_parse_eq stripe_of_def encode_defs le_field_def from_le_bytes_le_bytes)

lemma chunk_item_roundtrip:
  "ch_stripes_offset c = length pre + 48 \<Longrightarrow>
   chunk_item_parse (pre @ encode_chunk_item c @ post) (length pre) = Ok (Some c)"
  by (cases c)
    (simp add: chunk_item_parse_eq chunk_item_of_def encode_defs le_field_def from_le_bytes_le_bytes)

lemma dir_entry_roundtrip:
  assumes "length (de_name e) = unat (de_name_len e)" and "length data = unat (de_data_len e)"
  shows "dir_entry_parse (pre @ encode_dir_entry e data @ post) (length pre) =
    Ok (Some (e, length pre + length (encode_dir_entry e data)))"
  using assms
  by (cases e; cases "de_location e")
    (simp add: dir_entry_parse_eq dir_entry_of_def dir_entry_end_def dir_entry_name_len_def
      encode_defs le_field_def nth_append from_le_bytes_le_bytes)

end
