(* ===== verification/Chunk_Map.thy ===== *)
theory Chunk_Map
  imports Repr
begin

unbundle bit_operations_syntax

text \<open>
  The in-memory chunk map of \<^verbatim>\<open>src/chunk_tree.rs\<close>: \<^verbatim>\<open>ChunkMapping\<close>, \<^verbatim>\<open>ChunkMap\<close>, \<^verbatim>\<open>pick_stripe\<close>,
  \<^verbatim>\<open>insert\<close>, \<^verbatim>\<open>resolve\<close>, \<^verbatim>\<open>contains\<close> and the parser of the superblock's system chunk array. Its
  contract towards the readers is the locale \<open>address_map\<close>: a translation is linear up to the number
  of contiguous bytes it reports, which is never zero.
\<close>

section \<open>State and operations\<close>

record chunk_mapping =
  cm_logical :: u64
  cm_length :: u64
  cm_ty :: u64
  cm_stripe_len :: u64
  cm_num_stripes :: u16
  cm_sub_stripes :: u16
  cm_stripes :: "stripe list"

definition chunk_profile :: "chunk_mapping \<Rightarrow> u64" where
  "chunk_profile m = cm_ty m AND BLOCK_GROUP_PROFILE_MASK"

definition pick_stripe :: "chunk_mapping \<Rightarrow> u64 option \<Rightarrow> stripe outcome" where
  "pick_stripe m local_devid =
    (let profile = chunk_profile m in
     if profile \<in> {0, BLOCK_GROUP_DUP, BLOCK_GROUP_RAID1, BLOCK_GROUP_RAID1C3, BLOCK_GROUP_RAID1C4}
     then
       if cm_stripes m = [] then Err (UnsupportedProfile ''prof_no_stripes'')
       else (case local_devid of
               Some devid \<Rightarrow>
                 ok_or (find (\<lambda>s. st_devid s = devid) (cm_stripes m))
                   (UnsupportedProfile ''prof_other_device'')
             | None \<Rightarrow> Ok (cm_stripes m ! 0))
     else if profile = BLOCK_GROUP_RAID0 then Err (UnsupportedProfile ''prof_raid0'')
     else if profile = BLOCK_GROUP_RAID10 then Err (UnsupportedProfile ''prof_raid10'')
     else if profile = BLOCK_GROUP_RAID5 then Err (UnsupportedProfile ''prof_raid5'')
     else if profile = BLOCK_GROUP_RAID6 then Err (UnsupportedProfile ''prof_raid6'')
     else Err (UnsupportedProfile ''prof_unknown''))"

record chunk_map =
  mappings :: "chunk_mapping list"
  local_devid :: "u64 option"

definition chunk_map_default :: chunk_map where
  "chunk_map_default = \<lparr>mappings = [], local_devid = None\<rparr>"

definition set_local_devid :: "chunk_map \<Rightarrow> u64 \<Rightarrow> chunk_map" where
  "set_local_devid cm devid = cm\<lparr>local_devid := Some devid\<rparr>"

text \<open>\<^verbatim>\<open>pos.checked_sub(1).and_then(|i| mappings.get(i))\<close>\<close>

definition get_before :: "'a list \<Rightarrow> nat \<Rightarrow> 'a option" where
  "get_before xs pos = (if pos = 0 \<or> length xs \<le> pos - 1 then None else Some (xs ! (pos - 1)))"

definition get_at :: "'a list \<Rightarrow> nat \<Rightarrow> 'a option" where
  "get_at xs pos = (if pos < length xs then Some (xs ! pos) else None)"

definition chunk_map_insert :: "chunk_map \<Rightarrow> chunk_mapping \<Rightarrow> chunk_map outcome" where
  "chunk_map_insert cm m =
    (let pos = partition_point (\<lambda>x. cm_logical x < cm_logical m) (mappings cm) in
     obind
       (case get_before (mappings cm) pos of
          None \<Rightarrow> Ok ()
        | Some prev \<Rightarrow>
            obind (ok_or (checked_add (cm_logical prev) (cm_length prev))
                     (CorruptBtree ''chunk_overflow'' (cm_logical prev))) (\<lambda>prev_end.
            if prev_end > cm_logical m then Err (CorruptBtree ''chunk_overlap'' (cm_logical m))
            else Ok ()))
       (\<lambda>_.
     obind (ok_or (checked_add (cm_logical m) (cm_length m))
              (CorruptBtree ''chunk_overflow'' (cm_logical m))) (\<lambda>new_end.
     obind
       (case get_at (mappings cm) pos of
          None \<Rightarrow> Ok ()
        | Some nxt \<Rightarrow>
            if new_end > cm_logical nxt then Err (CorruptBtree ''chunk_overlap'' (cm_logical m))
            else Ok ())
       (\<lambda>_.
     Ok (cm\<lparr>mappings := take pos (mappings cm) @ m # drop pos (mappings cm)\<rparr>)))))"

record resolved =
  rs_devid :: u64
  rs_physical :: u64
  rs_contiguous_bytes :: u64

definition chunk_map_resolve :: "chunk_map \<Rightarrow> u64 \<Rightarrow> resolved outcome" where
  "chunk_map_resolve cm logical =
    (let pos = partition_point (\<lambda>m. cm_logical m \<le> logical) (mappings cm) in
     obind (ok_or (get_before (mappings cm) pos) (CorruptBtree ''chunk_unmapped'' logical)) (\<lambda>m.
     obind (ok_or (checked_add (cm_logical m) (cm_length m))
              (CorruptBtree ''chunk_overflow'' (cm_logical m))) (\<lambda>mapping_end.
     if logical \<ge> mapping_end then Err (CorruptBtree ''chunk_unmapped'' logical)
     else
     obind (pick_stripe m (local_devid cm)) (\<lambda>stripe.
     obind (plain_sub logical (cm_logical m)) (\<lambda>offset_in_chunk.
     obind (ok_or (checked_add (st_offset stripe) offset_in_chunk)
              (CorruptBtree ''chunk_overflow'' logical)) (\<lambda>physical.
     obind (plain_sub (cm_length m) offset_in_chunk) (\<lambda>bytes_remaining.
     Ok \<lparr>rs_devid = st_devid stripe, rs_physical = physical,
         rs_contiguous_bytes = bytes_remaining\<rparr>)))))))"

text \<open>\<^verbatim>\<open>binary_search_by_key(&logical, |m| m.logical).is_ok()\<close> on the sorted vector.\<close>

definition chunk_map_contains :: "chunk_map \<Rightarrow> u64 \<Rightarrow> bool" where
  "chunk_map_contains cm logical \<longleftrightarrow> list_ex (\<lambda>m. cm_logical m = logical) (mappings cm)"

text \<open>The loop over the stripes of one chunk item.\<close>

primrec parse_stripes :: "u8 list \<Rightarrow> nat \<Rightarrow> nat list \<Rightarrow> stripe list \<Rightarrow> stripe list outcome" where
  "parse_stripes buf base [] stripes = Ok stripes"
| "parse_stripes buf base (s # ss) stripes =
     obind (stripe_parse buf (base + s * Stripe_SIZE)) (\<lambda>st.
     parse_stripes buf base ss (stripes @ [st]))"

function parse_system_chunk_array_from ::
  "chunk_map \<Rightarrow> u8 list \<Rightarrow> nat \<Rightarrow> nat \<Rightarrow> chunk_map outcome" where
  "parse_system_chunk_array_from cm array used p =
    (if \<not> p < used then Ok cm
     else if p + DiskKey_SIZE > used then Err (CorruptBtree ''sys_chunk_short_key'' 0)
     else
     obind (disk_key_parse array p) (\<lambda>key.
     (let p = p + DiskKey_SIZE in
     if key_item_type key \<noteq> CHUNK_ITEM_KEY
     then Err (CorruptBtree ''sys_chunk_unexpected_key_type'' (key_offset key))
     else
     obind (chunk_item_parse array p) (\<lambda>chunk_opt.
     obind (ok_or chunk_opt (CorruptBtree ''sys_chunk_short_chunk'' (key_offset key))) (\<lambda>chunk.
     (let total = ChunkItem_total_size (ch_num_stripes chunk) in
     if p + total > used then Err (CorruptBtree ''sys_chunk_short_stripes'' (key_offset key))
     else
     obind (parse_stripes array (p + ChunkItem_HEADER_SIZE)
              [0..<as_usize (ch_num_stripes chunk)] []) (\<lambda>stripes.
     obind (chunk_map_insert cm
       \<lparr>cm_logical = key_offset key, cm_length = ch_length chunk, cm_ty = ch_ty chunk,
        cm_stripe_len = ch_stripe_len chunk, cm_num_stripes = ch_num_stripes chunk,
        cm_sub_stripes = ch_sub_stripes chunk, cm_stripes = stripes\<rparr>) (\<lambda>cm.
     parse_system_chunk_array_from cm array used (p + total)))))))))"
  by pat_completeness auto
termination
  by (relation "measure (\<lambda>(cm, array, used, p). used - p)")
    (auto simp: DiskKey_SIZE_def)

definition parse_system_chunk_array :: "chunk_map \<Rightarrow> u8 list \<Rightarrow> nat \<Rightarrow> chunk_map outcome" where
  "parse_system_chunk_array cm array used = parse_system_chunk_array_from cm array used 0"

declare parse_system_chunk_array_from.simps [simp del]

section \<open>The interface of address translation\<close>

text \<open>
  What a reader of logical ranges relies on: a translation reports at least one contiguous byte,
  its range stays inside the 64-bit address space, and inside the range it is linear.
\<close>

locale address_map =
  fixes resolve :: "'m \<Rightarrow> u64 \<Rightarrow> resolved outcome"
    and invar :: "'m \<Rightarrow> bool"
  assumes resolve_safe: "resolve m l \<noteq> Panic"
    and resolve_progress: "resolve m l = Ok r \<Longrightarrow> 0 < unat (rs_contiguous_bytes r)"
    and resolve_in_space:
      "resolve m l = Ok r \<Longrightarrow> unat l + unat (rs_contiguous_bytes r) < 2 ^ 64"
    and resolve_linear:
      "invar m \<Longrightarrow> resolve m l = Ok r \<Longrightarrow> k < unat (rs_contiguous_bytes r) \<Longrightarrow>
       unat (rs_physical r) + k < 2 ^ 64 \<Longrightarrow>
       resolve m (l + word_of_nat k) =
         Ok \<lparr>rs_devid = rs_devid r, rs_physical = rs_physical r + word_of_nat k,
            rs_contiguous_bytes = rs_contiguous_bytes r - word_of_nat k\<rparr>"
begin

text \<open>The step \<^verbatim>\<open>cursor += take\<close> of a reader never overflows.\<close>

lemma cursor_step_safe:
  assumes "resolve m l = Ok r" and "k \<le> unat (rs_contiguous_bytes r)"
  shows "plain_add l (word_of_nat k) = Ok (l + word_of_nat k)"
    and "unat (l + word_of_nat k) = unat l + k"
proof -
  from resolve_in_space [OF assms(1)] assms(2) have sum: "unat l + k < 2 ^ 64" by linarith
  then have "k < 2 ^ 64" by simp
  then have "unat (word_of_nat k :: u64) = k" by (simp add: unat_of_nat)
  with sum show "plain_add l (word_of_nat k) = Ok (l + word_of_nat k)"
    and "unat (l + word_of_nat k) = unat l + k"
    by (simp_all add: plain_add_def unat_plus_no_wrap)
qed

text \<open>A read of \<open>n > 0\<close> bytes always makes progress.\<close>

lemma step_progress:
  assumes "resolve m l = Ok r" and "0 < n"
  shows "n - min n (unat (rs_contiguous_bytes r)) < n"
  using resolve_progress [OF assms(1)] assms(2) by linarith

end

lemma pick_stripe_safe [outcome_safe]: "pick_stripe m d \<noteq> Panic"
  by (auto simp: pick_stripe_def Let_def split: option.split)

lemma chunk_map_resolve_OkD:
  assumes "chunk_map_resolve cm l = Ok r"
  obtains m st where
    "get_before (mappings cm) (partition_point (\<lambda>m. cm_logical m \<le> l) (mappings cm)) = Some m"
    "cm_logical m \<le> l" "unat l < unat (cm_logical m) + unat (cm_length m)"
    "unat (cm_logical m) + unat (cm_length m) < 2 ^ 64"
    "pick_stripe m (local_devid cm) = Ok st"
    "unat (st_offset st) + (unat l - unat (cm_logical m)) < 2 ^ 64"
    "rs_devid r = st_devid st"
    "unat (rs_physical r) = unat (st_offset st) + (unat l - unat (cm_logical m))"
    "unat (rs_contiguous_bytes r) = unat (cm_logical m) + unat (cm_length m) - unat l"
proof -
  let ?p = "partition_point (\<lambda>m. cm_logical m \<le> l) (mappings cm)"
  from assms obtain m mapping_end st physical where
      m: "get_before (mappings cm) ?p = Some m"
    and me: "checked_add (cm_logical m) (cm_length m) = Some mapping_end" "\<not> mapping_end \<le> l"
    and st: "pick_stripe m (local_devid cm) = Ok st"
    and sub: "cm_logical m \<le> l"
    and ph: "checked_add (st_offset st) (l - cm_logical m) = Some physical"
    and r: "r = \<lparr>rs_devid = st_devid st, rs_physical = physical,
      rs_contiguous_bytes = cm_length m - (l - cm_logical m)\<rparr>" "l - cm_logical m \<le> cm_length m"
    by (auto simp: chunk_map_resolve_def Let_def outcome_simps plain_sub_def split: if_splits)
  have lo: "unat (l - cm_logical m) = unat l - unat (cm_logical m)"
    using sub by (rule unat_minus_le)
  have en: "unat mapping_end = unat (cm_logical m) + unat (cm_length m)"
    using me(1) by (rule checked_add_unat)
  show ?thesis
  proof (rule that [OF m sub _ _ st])
    show "unat l < unat (cm_logical m) + unat (cm_length m)"
      using me(2) en by (simp add: word_le_nat_alt)
    show "unat (cm_logical m) + unat (cm_length m) < 2 ^ 64"
      using me(1) by (simp add: outcome_simps)
    show "unat (st_offset st) + (unat l - unat (cm_logical m)) < 2 ^ 64"
      using ph lo by (simp add: outcome_simps)
    show "unat (rs_physical r) = unat (st_offset st) + (unat l - unat (cm_logical m))"
      using checked_add_unat [OF ph] lo r by simp
    show "unat (rs_contiguous_bytes r) = unat (cm_logical m) + unat (cm_length m) - unat l"
      using r lo sub by (simp add: unat_minus_le word_le_nat_alt)
  qed (simp add: r)
qed

lemma chunk_map_resolve_safe [outcome_safe]: "chunk_map_resolve cm l \<noteq> Panic"
proof
  let ?p = "partition_point (\<lambda>m. cm_logical m \<le> l) (mappings cm)"
  assume "chunk_map_resolve cm l = Panic"
  then obtain m mapping_end where
      m: "get_before (mappings cm) ?p = Some m"
    and me: "checked_add (cm_logical m) (cm_length m) = Some mapping_end" "\<not> mapping_end \<le> l"
    and bad: "\<not> cm_logical m \<le> l \<or> \<not> l - cm_logical m \<le> cm_length m"
    by (auto simp: chunk_map_resolve_def Let_def outcome_simps plain_sub_def pick_stripe_safe
        split: if_splits)
  from m have "cm_logical m \<le> l"
    using partition_point_before [of "?p - 1" "\<lambda>m. cm_logical m \<le> l" "mappings cm"]
    by (auto simp: get_before_def split: if_splits)
  moreover from me have "unat l < unat (cm_logical m) + unat (cm_length m)"
    using checked_add_unat [OF me(1)] by (simp add: word_le_nat_alt)
  ultimately show False
    using bad by (auto simp: word_le_nat_alt unat_minus_le)
qed

section \<open>Well-formed maps and the reference translation\<close>

text \<open>
  The invariant the struct's comment states: sorted by logical address, not overlapping. Chunks are
  half-open intervals of naturals, so that no arithmetic can wrap in a statement.
\<close>

definition chunk_end :: "chunk_mapping \<Rightarrow> nat" where
  "chunk_end m = unat (cm_logical m) + unat (cm_length m)"

definition chunk_covers :: "chunk_mapping \<Rightarrow> u64 \<Rightarrow> bool" where
  "chunk_covers m l \<longleftrightarrow> unat (cm_logical m) \<le> unat l \<and> unat l < chunk_end m"

definition chunk_map_wf :: "chunk_map \<Rightarrow> bool" where
  "chunk_map_wf cm \<longleftrightarrow>
     sorted_wrt (\<lambda>a b. chunk_end a \<le> unat (cm_logical b)) (mappings cm) \<and>
     (\<forall>m \<in> set (mappings cm). chunk_end m < 2 ^ 64)"

text \<open>The reference: look for the chunk that covers the address, anywhere in the list.\<close>

definition translate_in_chunk :: "u64 option \<Rightarrow> u64 \<Rightarrow> chunk_mapping \<Rightarrow> resolved outcome" where
  "translate_in_chunk devid l m =
     obind (pick_stripe m devid) (\<lambda>st.
     if unat (st_offset st) + (unat l - unat (cm_logical m)) < 2 ^ 64
     then Ok \<lparr>rs_devid = st_devid st,
             rs_physical = word_of_nat (unat (st_offset st) + (unat l - unat (cm_logical m))),
             rs_contiguous_bytes = word_of_nat (chunk_end m - unat l)\<rparr>
     else Err (CorruptBtree ''chunk_overflow'' l))"

definition resolve_reference :: "chunk_map \<Rightarrow> u64 \<Rightarrow> resolved outcome" where
  "resolve_reference cm l =
     (case find (\<lambda>m. chunk_covers m l) (mappings cm) of
        None \<Rightarrow> Err (CorruptBtree ''chunk_unmapped'' l)
      | Some m \<Rightarrow> translate_in_chunk (local_devid cm) l m)"

lemma chunk_end_ge: "unat (cm_logical m) \<le> chunk_end m"
  by (simp add: chunk_end_def)

lemma chunk_map_wf_nth:
  assumes "chunk_map_wf cm" and "i < j" and "j < length (mappings cm)"
  shows "chunk_end (mappings cm ! i) \<le> unat (cm_logical (mappings cm ! j))"
  using assms sorted_wrt_nth_less unfolding chunk_map_wf_def by blast

lemma chunk_covers_partition:
  assumes wf: "chunk_map_wf cm" and j: "j < length (mappings cm)"
    and cov: "chunk_covers (mappings cm ! j) l"
  shows "partition_point (\<lambda>m. cm_logical m \<le> l) (mappings cm) = Suc j"
proof (rule partition_point_unique)
  fix i assume "i < Suc j"
  then show "cm_logical (mappings cm ! i) \<le> l"
    using chunk_map_wf_nth [OF wf, of i j] j cov chunk_end_ge [of "mappings cm ! i"]
    by (cases "i = j") (auto simp: chunk_covers_def word_le_nat_alt)
next
  assume "Suc j < length (mappings cm)"
  then show "\<not> cm_logical (mappings cm ! Suc j) \<le> l"
    using chunk_map_wf_nth [OF wf, of j "Suc j"] cov
    by (auto simp: chunk_covers_def word_le_nat_alt)
qed (use j in simp)

lemma translate_in_chunk_eq:
  assumes "chunk_covers m l" and "chunk_end m < 2 ^ 64"
  shows "obind (pick_stripe m d) (\<lambda>stripe.
     obind (plain_sub l (cm_logical m)) (\<lambda>off.
     obind (ok_or (checked_add (st_offset stripe) off) (CorruptBtree ''chunk_overflow'' l)) (\<lambda>physical.
     obind (plain_sub (cm_length m) off) (\<lambda>rest.
     Ok \<lparr>rs_devid = st_devid stripe, rs_physical = physical, rs_contiguous_bytes = rest\<rparr>))))
   = translate_in_chunk d l m"
proof -
  from assms have le: "cm_logical m \<le> l" by (simp add: chunk_covers_def word_le_nat_alt)
  then have off: "unat (l - cm_logical m) = unat l - unat (cm_logical m)" by (rule unat_minus_le)
  with assms have offl: "l - cm_logical m \<le> cm_length m"
    by (auto simp: chunk_covers_def chunk_end_def word_le_nat_alt)
  have rest: "cm_length m - (l - cm_logical m) = word_of_nat (chunk_end m - unat l)"
  proof (rule word_unat_eq_iff [THEN iffD2])
    have "unat (cm_length m - (l - cm_logical m)) = chunk_end m - unat l"
      using offl off le by (simp add: unat_minus_le chunk_end_def word_le_nat_alt)
    moreover have "chunk_end m - unat l < 2 ^ 64" using assms(2) by simp
    ultimately show "unat (cm_length m - (l - cm_logical m)) =
        unat (word_of_nat (chunk_end m - unat l) :: u64)"
      by (simp add: unat_of_nat)
  qed
  have phys: "st_offset st + (l - cm_logical m) =
      word_of_nat (unat (st_offset st) + (unat l - unat (cm_logical m)))" for st
    by (simp flip: off)
  show ?thesis
    using le off offl rest phys
    by (cases "pick_stripe m d") (simp_all add: translate_in_chunk_def plain_sub_def checked_add_def)
qed

lemma chunk_map_resolve_reference:
  assumes wf: "chunk_map_wf cm"
  shows "chunk_map_resolve cm l = resolve_reference cm l"
proof (cases "find (\<lambda>m. chunk_covers m l) (mappings cm)")
  case (Some m)
  then obtain j where j: "j < length (mappings cm)" "m = mappings cm ! j"
    and cov: "chunk_covers m l"
    by (auto simp: find_Some_iff)
  from chunk_covers_partition [OF wf j(1)] cov j(2)
  have pos: "partition_point (\<lambda>m. cm_logical m \<le> l) (mappings cm) = Suc j" by simp
  have "m \<in> set (mappings cm)" using j by simp
  with wf have en: "chunk_end m < 2 ^ 64" by (auto simp: chunk_map_wf_def)
  have sum: "unat (cm_logical m + cm_length m) = chunk_end m"
    using en by (simp add: chunk_end_def unat_plus_no_wrap)
  then have "\<not> cm_logical m + cm_length m \<le> l"
    using cov by (simp add: chunk_covers_def word_le_nat_alt)
  with Some pos j en translate_in_chunk_eq [OF cov en] show ?thesis
    by (simp add: chunk_map_resolve_def resolve_reference_def Let_def get_before_def checked_add_def
        chunk_end_def)
next
  case None
  let ?p = "partition_point (\<lambda>m. cm_logical m \<le> l) (mappings cm)"
  show ?thesis
  proof (cases "get_before (mappings cm) ?p")
    case None
    with \<open>find _ _ = None\<close> show ?thesis
      by (simp add: chunk_map_resolve_def resolve_reference_def Let_def)
  next
    case (Some m)
    then have m: "?p \<noteq> 0" "m = mappings cm ! (?p - 1)" "?p - 1 < length (mappings cm)"
      by (auto simp: get_before_def split: if_splits)
    then have mem: "m \<in> set (mappings cm)" by simp
    from m(1) m(2) have "cm_logical m \<le> l"
      using partition_point_before [of "?p - 1" "\<lambda>m. cm_logical m \<le> l" "mappings cm"] by simp
    moreover from \<open>find _ _ = None\<close> mem have "\<not> chunk_covers m l"
      by (auto simp: find_None_iff)
    moreover from mem wf have "chunk_end m < 2 ^ 64" by (auto simp: chunk_map_wf_def)
    ultimately show ?thesis
      using Some \<open>find _ _ = None\<close>
      by (simp add: chunk_map_resolve_def resolve_reference_def Let_def checked_add_def
          chunk_covers_def chunk_end_def word_le_nat_alt unat_plus_no_wrap)
  qed
qed

text \<open>In a well-formed map the chunk that covers an address is unique.\<close>

lemma chunk_covers_unique:
  assumes wf: "chunk_map_wf cm" and "m \<in> set (mappings cm)" "m' \<in> set (mappings cm)"
    and "chunk_covers m l" "chunk_covers m' l"
  shows "m = m'"
proof -
  from assms(2,3) obtain i j where i: "i < length (mappings cm)" "m = mappings cm ! i"
    and j: "j < length (mappings cm)" "m' = mappings cm ! j"
    by (auto simp: in_set_conv_nth)
  with chunk_covers_partition [OF wf i(1), of l] chunk_covers_partition [OF wf j(1), of l] assms(4,5)
  show ?thesis by simp
qed

lemma find_covering_iff:
  assumes "chunk_map_wf cm"
  shows "find (\<lambda>m. chunk_covers m l) (mappings cm) = Some m \<longleftrightarrow>
    m \<in> set (mappings cm) \<and> chunk_covers m l"
proof
  assume "m \<in> set (mappings cm) \<and> chunk_covers m l"
  moreover from this obtain m' where m': "find (\<lambda>m. chunk_covers m l) (mappings cm) = Some m'"
    by (auto simp: find_None_iff split: option.split dest: not_Some_eq [THEN iffD1])
      (metis find_None_iff option.exhaust)
  moreover from m' have "m' \<in> set (mappings cm)" "chunk_covers m' l"
    by (auto simp: find_Some_iff)
  ultimately show "find (\<lambda>m. chunk_covers m l) (mappings cm) = Some m"
    using chunk_covers_unique [OF assms] by metis
qed (auto simp: find_Some_iff)

lemma chunk_map_resolve_covered:
  assumes "chunk_map_wf cm" and "m \<in> set (mappings cm)" and "chunk_covers m l"
  shows "chunk_map_resolve cm l = translate_in_chunk (local_devid cm) l m"
  using assms find_covering_iff [OF assms(1), of l m]
  by (simp add: chunk_map_resolve_reference resolve_reference_def)

lemma chunk_map_resolve_uncovered:
  assumes "chunk_map_wf cm" and "\<And>m. m \<in> set (mappings cm) \<Longrightarrow> \<not> chunk_covers m l"
  shows "chunk_map_resolve cm l = Err (CorruptBtree ''chunk_unmapped'' l)"
  using assms by (simp add: chunk_map_resolve_reference resolve_reference_def find_None_all)

lemma chunk_map_resolve_linear:
  assumes wf: "chunk_map_wf cm" and ok: "chunk_map_resolve cm l = Ok r"
    and k: "k < unat (rs_contiguous_bytes r)" and ph: "unat (rs_physical r) + k < 2 ^ 64"
  shows "chunk_map_resolve cm (l + word_of_nat k) =
    Ok \<lparr>rs_devid = rs_devid r, rs_physical = rs_physical r + word_of_nat k,
       rs_contiguous_bytes = rs_contiguous_bytes r - word_of_nat k\<rparr>"
proof -
  from ok wf obtain m where m: "m \<in> set (mappings cm)" "chunk_covers m l"
    and tr: "translate_in_chunk (local_devid cm) l m = Ok r"
    by (auto simp: chunk_map_resolve_reference resolve_reference_def find_covering_iff
        split: option.splits)
  from tr obtain st where st: "pick_stripe m (local_devid cm) = Ok st"
    and off: "unat (st_offset st) + (unat l - unat (cm_logical m)) < 2 ^ 64"
    and r: "r = \<lparr>rs_devid = st_devid st,
      rs_physical = word_of_nat (unat (st_offset st) + (unat l - unat (cm_logical m))),
      rs_contiguous_bytes = word_of_nat (chunk_end m - unat l)\<rparr>"
    by (auto simp: translate_in_chunk_def outcome_simps split: if_splits)
  from m wf have en: "chunk_end m < 2 ^ 64" by (auto simp: chunk_map_wf_def)
  with k r have k': "k < chunk_end m - unat l" "k < 2 ^ 64" by (simp_all add: unat_of_nat)
  have uk: "unat (word_of_nat k :: u64) = k" using k'(2) by (simp add: unat_of_nat)
  have ul: "unat (l + word_of_nat k) = unat l + k"
    using k' en uk by (simp add: unat_plus_no_wrap)
  have cov: "chunk_covers m (l + word_of_nat k)"
    using m(2) k' ul by (simp add: chunk_covers_def)
  have pk: "unat (st_offset st) + (unat l + k - unat (cm_logical m)) =
      unat (st_offset st) + (unat l - unat (cm_logical m)) + k"
    using m(2) by (simp add: chunk_covers_def)
  have "word_of_nat (chunk_end m - (unat l + k)) =
      (word_of_nat (chunk_end m - unat l) - word_of_nat k :: u64)"
    using k'(1) by (simp add: diff_diff_left [symmetric] of_nat_diff del: diff_diff_left)
  moreover have "unat (rs_physical r) = unat (st_offset st) + (unat l - unat (cm_logical m))"
    using off by (simp add: r unat_word_of_nat_small del: of_nat_add)
  then have "unat (st_offset st) + (unat l + k - unat (cm_logical m)) < 2 ^ 64"
    using ph pk by simp
  ultimately show ?thesis
    unfolding chunk_map_resolve_covered [OF wf m(1) cov] translate_in_chunk_def
    using st pk by (simp add: ul r)
qed

interpretation chunks: address_map chunk_map_resolve chunk_map_wf
proof unfold_locales
  fix cm l r k
  show "chunk_map_resolve cm l \<noteq> Panic" by (rule chunk_map_resolve_safe)
  assume ok: "chunk_map_resolve cm l = Ok r"
  then show "0 < unat (rs_contiguous_bytes r)" "unat l + unat (rs_contiguous_bytes r) < 2 ^ 64"
    by (rule chunk_map_resolve_OkD; simp)+
  assume "chunk_map_wf cm" "k < unat (rs_contiguous_bytes r)" "unat (rs_physical r) + k < 2 ^ 64"
  from this(1) ok this(2,3) show "chunk_map_resolve cm (l + word_of_nat k) =
      Ok \<lparr>rs_devid = rs_devid r, rs_physical = rs_physical r + word_of_nat k,
         rs_contiguous_bytes = rs_contiguous_bytes r - word_of_nat k\<rparr>"
    by (rule chunk_map_resolve_linear)
qed

section \<open>Insertion\<close>

text \<open>
  Where a new chunk may go: entirely after every chunk that starts before it, entirely before every
  chunk that starts at or after it.
\<close>

definition chunk_fits :: "chunk_mapping \<Rightarrow> chunk_mapping \<Rightarrow> bool" where
  "chunk_fits m x \<longleftrightarrow>
     (if unat (cm_logical x) < unat (cm_logical m) then chunk_end x \<le> unat (cm_logical m)
      else chunk_end m \<le> unat (cm_logical x))"

lemma wf_starts_sorted:
  "chunk_map_wf cm \<Longrightarrow> sorted_wrt (\<lambda>a b. unat (cm_logical a) \<le> unat (cm_logical b)) (mappings cm)"
  by (rule sorted_wrt_mono_rel [of _ "\<lambda>a b. chunk_end a \<le> unat (cm_logical b)"])
    (auto simp: chunk_map_wf_def chunk_end_def)

lemma insert_point:
  fixes m :: chunk_mapping
  assumes wf: "chunk_map_wf cm"
  defines "pos \<equiv> partition_point (\<lambda>x. cm_logical x < cm_logical m) (mappings cm)"
  shows "i < pos \<Longrightarrow> unat (cm_logical (mappings cm ! i)) < unat (cm_logical m)"
    and "pos \<le> i \<Longrightarrow> i < length (mappings cm) \<Longrightarrow>
      unat (cm_logical m) \<le> unat (cm_logical (mappings cm ! i))"
proof -
  show "i < pos \<Longrightarrow> unat (cm_logical (mappings cm ! i)) < unat (cm_logical m)"
    using partition_point_before [of i "\<lambda>x. cm_logical x < cm_logical m" "mappings cm"]
    by (simp add: pos_def word_less_nat_alt)
  show "pos \<le> i \<Longrightarrow> i < length (mappings cm) \<Longrightarrow>
      unat (cm_logical m) \<le> unat (cm_logical (mappings cm ! i))"
    using partition_point_after [OF wf_starts_sorted [OF wf], of "\<lambda>x. cm_logical x < cm_logical m" i]
    by (auto simp: pos_def word_less_nat_alt not_less)
qed

text \<open>Only the two neighbours are compared; in a sorted map that decides the whole map.\<close>

lemma chunk_fits_neighbours:
  fixes m :: chunk_mapping
  assumes wf: "chunk_map_wf cm"
  defines "pos \<equiv> partition_point (\<lambda>x. cm_logical x < cm_logical m) (mappings cm)"
  shows "(\<forall>x \<in> set (mappings cm). chunk_fits m x) \<longleftrightarrow>
    (0 < pos \<longrightarrow> chunk_end (mappings cm ! (pos - 1)) \<le> unat (cm_logical m)) \<and>
    (pos < length (mappings cm) \<longrightarrow> chunk_end m \<le> unat (cm_logical (mappings cm ! pos)))"
    (is "?all \<longleftrightarrow> ?near")
proof
  have pl: "pos \<le> length (mappings cm)" by (simp add: pos_def)
  note before = insert_point(1) [OF wf, where m = m, folded pos_def]
  note after = insert_point(2) [OF wf, where m = m, folded pos_def]
  show "?all \<Longrightarrow> ?near"
  proof (intro conjI impI)
    assume all: ?all
    { assume "0 < pos"
      then have "chunk_fits m (mappings cm ! (pos - 1))" using all pl by simp
      then show "chunk_end (mappings cm ! (pos - 1)) \<le> unat (cm_logical m)"
        using before [of "pos - 1"] \<open>0 < pos\<close> by (simp add: chunk_fits_def) }
    { assume "pos < length (mappings cm)"
      then have "chunk_fits m (mappings cm ! pos)" using all by simp
      then show "chunk_end m \<le> unat (cm_logical (mappings cm ! pos))"
        using after [of pos] \<open>pos < _\<close> by (simp add: chunk_fits_def) }
  qed
  show "?near \<Longrightarrow> ?all"
  proof
    fix x assume near: ?near and "x \<in> set (mappings cm)"
    then obtain i where i: "i < length (mappings cm)" "x = mappings cm ! i"
      by (auto simp: in_set_conv_nth)
    show "chunk_fits m x"
    proof (cases "i < pos")
      case True
      have "chunk_end x \<le> unat (cm_logical m)"
      proof (cases "i = pos - 1")
        case False
        with True have "chunk_end x \<le> unat (cm_logical (mappings cm ! (pos - 1)))"
          using chunk_map_wf_nth [OF wf, of i "pos - 1"] i pl by simp
        with near True chunk_end_ge [of "mappings cm ! (pos - 1)"] show ?thesis by linarith
      qed (use near True i in simp)
      with before [OF True] i show ?thesis by (simp add: chunk_fits_def)
    next
      case False
      then have pi: "pos \<le> i" "pos < length (mappings cm)" using i by auto
      have "unat (cm_logical (mappings cm ! pos)) \<le> unat (cm_logical x)"
      proof (cases "i = pos")
        case False
        with pi have "chunk_end (mappings cm ! pos) \<le> unat (cm_logical x)"
          using chunk_map_wf_nth [OF wf, of pos i] i by simp
        with chunk_end_ge [of "mappings cm ! pos"] show ?thesis by linarith
      qed (simp add: i)
      with near pi after [OF pi(1)] i show ?thesis by (auto simp: chunk_fits_def)
    qed
  qed
qed

lemma chunk_map_insert_eq:
  fixes m :: chunk_mapping
  assumes wf: "chunk_map_wf cm"
  defines "pos \<equiv> partition_point (\<lambda>x. cm_logical x < cm_logical m) (mappings cm)"
  shows "chunk_map_insert cm m =
    (if 0 < pos \<and> unat (cm_logical m) < chunk_end (mappings cm ! (pos - 1))
     then Err (CorruptBtree ''chunk_overlap'' (cm_logical m))
     else if 2 ^ 64 \<le> chunk_end m then Err (CorruptBtree ''chunk_overflow'' (cm_logical m))
     else if pos < length (mappings cm) \<and> unat (cm_logical (mappings cm ! pos)) < chunk_end m
     then Err (CorruptBtree ''chunk_overlap'' (cm_logical m))
     else Ok (cm\<lparr>mappings := take pos (mappings cm) @ m # drop pos (mappings cm)\<rparr>))"
proof -
  have pl: "pos \<le> length (mappings cm)" by (simp add: pos_def)
  have en: "chunk_end (mappings cm ! i) < 2 ^ 64" if "i < length (mappings cm)" for i
    using wf that by (auto simp: chunk_map_wf_def)
  have nowrap: "unat (cm_logical x + cm_length x) = chunk_end x" if "chunk_end x < 2 ^ 64" for x
    using that by (simp add: chunk_end_def unat_plus_no_wrap)
  have gb: "get_before (mappings cm) pos =
      (if pos = 0 then None else Some (mappings cm ! (pos - 1)))"
    using pl by (cases "mappings cm") (auto simp: get_before_def)
  show ?thesis
    using pl en [of "pos - 1"] nowrap [of "mappings cm ! (pos - 1)"] nowrap [of m]
    unfolding chunk_map_insert_def pos_def [symmetric] Let_def gb
    by (cases "pos = 0"; cases "chunk_end m < 2 ^ 64")
      (auto simp: get_at_def checked_add_def chunk_end_def word_less_nat_alt)
qed

lemma chunk_map_insert_Ok_iff:
  assumes "chunk_map_wf cm"
  shows "(\<exists>cm'. chunk_map_insert cm m = Ok cm') \<longleftrightarrow>
    chunk_end m < 2 ^ 64 \<and> (\<forall>x \<in> set (mappings cm). chunk_fits m x)"
  unfolding chunk_fits_neighbours [OF assms] chunk_map_insert_eq [OF assms]
  by (auto simp: not_le not_less)

lemma chunk_map_insert_OkD:
  assumes "chunk_map_wf cm" and "chunk_map_insert cm m = Ok cm'"
  obtains xs ys where "mappings cm = xs @ ys" "cm' = cm\<lparr>mappings := xs @ m # ys\<rparr>"
    "chunk_end m < 2 ^ 64"
    "\<And>x. x \<in> set xs \<Longrightarrow> chunk_end x \<le> unat (cm_logical m)"
    "\<And>y. y \<in> set ys \<Longrightarrow> chunk_end m \<le> unat (cm_logical y)"
proof -
  let ?pos = "partition_point (\<lambda>x. cm_logical x < cm_logical m) (mappings cm)"
  let ?xs = "take ?pos (mappings cm)" and ?ys = "drop ?pos (mappings cm)"
  from chunk_map_insert_Ok_iff [OF assms(1), of m] assms(2)
  have en: "chunk_end m < 2 ^ 64" and fits: "\<And>x. x \<in> set (mappings cm) \<Longrightarrow> chunk_fits m x"
    by auto
  show ?thesis
  proof (rule that [of ?xs ?ys, OF _ _ en])
    show "cm' = cm\<lparr>mappings := ?xs @ m # ?ys\<rparr>"
      using assms(2) by (simp add: chunk_map_insert_eq [OF assms(1)] split: if_splits)
  next
    fix x assume x: "x \<in> set ?xs"
    then obtain i where "i < length ?xs" "?xs ! i = x" by (meson in_set_conv_nth)
    then have "i < ?pos" "x = mappings cm ! i" by simp_all
    moreover from x have "x \<in> set (mappings cm)" by (rule in_set_takeD)
    ultimately show "chunk_end x \<le> unat (cm_logical m)"
      using insert_point(1) [OF assms(1), of i m] fits [of x] by (simp add: chunk_fits_def)
  next
    fix y assume "y \<in> set ?ys"
    then obtain i where "i < length ?ys" "?ys ! i = y" by (meson in_set_conv_nth)
    then have "?pos + i < length (mappings cm)" "y = mappings cm ! (?pos + i)" by simp_all
    with insert_point(2) [OF assms(1), of m "?pos + i"] fits [of y]
    show "chunk_end m \<le> unat (cm_logical y)"
      by (auto simp: chunk_fits_def)
  qed simp
qed

lemma chunk_map_insert_wf:
  assumes wf: "chunk_map_wf cm" and "chunk_map_insert cm m = Ok cm'"
  shows "chunk_map_wf cm'"
proof -
  from chunk_map_insert_OkD [OF assms] obtain xs ys where
    "mappings cm = xs @ ys" "cm' = cm\<lparr>mappings := xs @ m # ys\<rparr>" "chunk_end m < 2 ^ 64"
    and "\<And>x. x \<in> set xs \<Longrightarrow> chunk_end x \<le> unat (cm_logical m)"
    and "\<And>y. y \<in> set ys \<Longrightarrow> chunk_end m \<le> unat (cm_logical y)"
    by metis
  with wf show ?thesis by (auto simp: chunk_map_wf_def sorted_wrt_append)
qed

lemma chunk_map_insert_set:
  assumes "chunk_map_wf cm" and "chunk_map_insert cm m = Ok cm'"
  shows "set (mappings cm') = insert m (set (mappings cm))" and "local_devid cm' = local_devid cm"
  using chunk_map_insert_OkD [OF assms] by (metis Un_insert_right chunk_map.select_convs(1)
      chunk_map.surjective chunk_map.update_convs(1) list.simps(15) set_append,
      metis chunk_map.ext_inject chunk_map.surjective chunk_map.update_convs(1))

lemma chunk_map_insert_resolve:
  assumes wf: "chunk_map_wf cm" and ins: "chunk_map_insert cm m = Ok cm'"
  shows "chunk_map_resolve cm' l =
    (if chunk_covers m l then translate_in_chunk (local_devid cm) l m else chunk_map_resolve cm l)"
proof -
  note wf' = chunk_map_insert_wf [OF assms] and set' = chunk_map_insert_set [OF assms]
  show ?thesis
  proof (cases "chunk_covers m l")
    case True
    with chunk_map_resolve_covered [OF wf', of m l] set' show ?thesis by simp
  next
    case False
    then have "find (\<lambda>x. chunk_covers x l) (mappings cm') = find (\<lambda>x. chunk_covers x l) (mappings cm)"
      using find_covering_iff [OF wf, of l] find_covering_iff [OF wf', of l] set'
      by (metis insert_iff option.exhaust)
    with False show ?thesis
      by (simp add: chunk_map_resolve_reference wf wf' resolve_reference_def set' split: option.split)
  qed
qed

lemma chunk_map_insert_safe [outcome_safe]: "chunk_map_insert cm m \<noteq> Panic"
  by (auto simp: chunk_map_insert_def Let_def outcome_simps split: option.splits if_splits)

lemma chunk_map_wf_default [simp]: "chunk_map_wf chunk_map_default"
  by (simp add: chunk_map_wf_def chunk_map_default_def)

lemma chunk_map_wf_set_local_devid [simp]:
  "chunk_map_wf (set_local_devid cm d) \<longleftrightarrow> chunk_map_wf cm"
  by (simp add: chunk_map_wf_def set_local_devid_def)

end
