(* ===== verification/Sys_Chunk_Array.thy ===== *)
theory Sys_Chunk_Array
  imports Chunk_Map
begin

text \<open>
  Properties of the chunk map and of the bootstrap parser of the superblock's system chunk array
  (\<^verbatim>\<open>ChunkMap::parse_system_chunk_array\<close> in \<^verbatim>\<open>src/chunk_tree.rs\<close>): it keeps the map's invariant,
  inverts the array's byte layout, and never panics while the declared size stays inside the array.
  The caller does not establish that last condition; the panic it allows is stated as a theorem.
\<close>

section \<open>Parsing the stripes of one chunk\<close>

lemma parse_stripes_eq:
  "(\<And>s. s \<in> set ss \<Longrightarrow> base + s * 32 + 32 \<le> length buf) \<Longrightarrow>
   parse_stripes buf base ss acc = Ok (acc @ map (\<lambda>s. stripe_of buf (base + s * 32)) ss)"
  by (induction ss arbitrary: acc) (simp_all add: stripe_parse_eq layout format_consts)

lemma parse_stripes_not_Err: "parse_stripes buf base ss acc \<noteq> Err e"
  by (induction ss arbitrary: acc) (auto simp: outcome_simps stripe_parse_eq)

lemma parse_stripes_Panic:
  "s \<in> set ss \<Longrightarrow> length buf < base + s * 32 + 32 \<Longrightarrow> parse_stripes buf base ss acc = Panic"
  by (induction ss arbitrary: acc) (auto simp: outcome_simps stripe_parse_eq layout format_consts)

section \<open>Invariant and panic freedom\<close>

lemma parse_system_chunk_array_from_wf:
  "chunk_map_wf cm \<Longrightarrow> parse_system_chunk_array_from cm array used p = Ok cm' \<Longrightarrow> chunk_map_wf cm'"
proof (induction cm array used p rule: parse_system_chunk_array_from.induct)
  case (1 cm array used p)
  show ?case
  proof (cases "p < used")
    case True
    from "1.prems"(2) True show ?thesis
      by (subst (asm) parse_system_chunk_array_from.simps)
        (auto simp: outcome_simps Let_def split: if_splits
          intro: "1.IH" chunk_map_insert_wf [OF "1.prems"(1)])
  next
    case False
    with "1.prems" show ?thesis by (simp add: parse_system_chunk_array_from.simps)
  qed
qed

lemma parse_system_chunk_array_from_safe:
  "used \<le> length array \<Longrightarrow> parse_system_chunk_array_from cm array used p \<noteq> Panic"
proof (induction cm array used p rule: parse_system_chunk_array_from.induct)
  case (1 cm array used p)
  have key: "disk_key_parse array p \<noteq> Panic" if "\<not> used < p + DiskKey_SIZE"
    using "1.prems" that by (simp add: disk_key_parse_eq layout)
  have stripes: "parse_stripes array (p + DiskKey_SIZE + ChunkItem_HEADER_SIZE)
      [0..<as_usize n] [] \<noteq> Panic"
    if "\<not> used < p + DiskKey_SIZE + ChunkItem_total_size n" for n
    using "1.prems" that
    by (subst parse_stripes_eq) (auto simp: ChunkItem_total_size_eq layout)
  have item: "chunk_item_parse array q \<noteq> Panic" for q
    by (simp add: chunk_item_parse_eq)
  show ?case
    unfolding parse_system_chunk_array_from.simps [of cm array used p]
    using key stripes item "1.IH" "1.prems"
    by (auto simp: outcome_simps Let_def chunk_map_insert_safe split: if_splits)
qed

text \<open>The stripes of a chunk that the declared size covers but the array does not hold.\<close>

lemma parse_system_chunk_array_from_overrun:
  assumes "p < used" and "p + 17 + 48 \<le> length array"
    and "array ! (p + 8) = CHUNK_ITEM_KEY"
    and n: "n = unat (le_field 2 array (p + 17 + 44) :: u16)"
    and "p + 17 + 48 + 32 * n \<le> used" and "length array < p + 17 + 48 + 32 * n"
  shows "parse_system_chunk_array_from cm array used p = Panic"
proof -
  have n1: "0 < n" using assms(2,6) by simp
  have "parse_stripes array (p + 17 + 48) [0..<n] [] = Panic"
  proof (rule parse_stripes_Panic)
    show "n - 1 \<in> set [0..<n]" using n1 by simp
    have "32 * n = (n - 1) * 32 + 32" using n1 by (cases n) simp_all
    then show "length array < p + 17 + 48 + (n - 1) * 32 + 32"
      using assms(6) by linarith
  qed
  then show ?thesis
    using assms(1-3,5,6)
    by (subst parse_system_chunk_array_from.simps)
      (simp add: disk_key_parse_eq chunk_item_parse_eq chunk_item_of_def ChunkItem_total_size_eq
        layout n Let_def)
qed

section \<open>Byte layout of the array\<close>

type_synonym sys_chunk = "u64 \<times> u64 \<times> chunk_item \<times> stripe list"

definition encode_sys_chunk :: "sys_chunk \<Rightarrow> u8 list" where
  "encode_sys_chunk e = (case e of (objectid, logical, chunk, stripes) \<Rightarrow>
     encode_disk_key (DiskKey objectid CHUNK_ITEM_KEY logical) @ encode_chunk_item chunk
     @ concat (map encode_stripe stripes))"

definition sys_chunk_mapping :: "sys_chunk \<Rightarrow> chunk_mapping" where
  "sys_chunk_mapping e = (case e of (objectid, logical, chunk, stripes) \<Rightarrow>
     \<lparr>cm_logical = logical, cm_length = ch_length chunk, cm_ty = ch_ty chunk,
      cm_stripe_len = ch_stripe_len chunk, cm_num_stripes = ch_num_stripes chunk,
      cm_sub_stripes = ch_sub_stripes chunk, cm_stripes = stripes\<rparr>)"

definition sys_chunk_ok :: "sys_chunk \<Rightarrow> bool" where
  "sys_chunk_ok e \<longleftrightarrow> (case e of (objectid, logical, chunk, stripes) \<Rightarrow>
     length stripes = unat (ch_num_stripes chunk) \<and> (\<forall>st \<in> set stripes. length (st_dev_uuid st) = 16))"

primrec insert_all :: "chunk_map \<Rightarrow> chunk_mapping list \<Rightarrow> chunk_map outcome" where
  "insert_all cm [] = Ok cm"
| "insert_all cm (m # ms) = obind (chunk_map_insert cm m) (\<lambda>cm. insert_all cm ms)"

lemma stripe_of_encoded:
  "length (st_dev_uuid st) = 16 \<Longrightarrow> stripe_of (pre @ encode_stripe st @ post) (length pre) = st"
  using stripe_roundtrip [of st pre post] by (simp add: stripe_parse_eq split: if_splits)

lemma length_concat_stripes:
  "(\<And>st. st \<in> set sts \<Longrightarrow> length (st_dev_uuid st) = 16) \<Longrightarrow>
   length (concat (map encode_stripe sts)) = 32 * length sts"
  by (induction sts) (auto simp: encode_defs)

lemma stripes_encoded:
  "(\<And>st. st \<in> set sts \<Longrightarrow> length (st_dev_uuid st) = 16) \<Longrightarrow>
   map (\<lambda>s. stripe_of (pre @ concat (map encode_stripe sts) @ post) (length pre + s * 32))
     [0..<length sts] = sts"
proof (induction sts arbitrary: pre)
  case (Cons st sts)
  have st: "stripe_of (pre @ encode_stripe st @ concat (map encode_stripe sts) @ post) (length pre) = st"
    using Cons.prems by (simp add: stripe_of_encoded)
  have "map (\<lambda>s. stripe_of ((pre @ encode_stripe st) @ concat (map encode_stripe sts) @ post)
      (length (pre @ encode_stripe st) + s * 32)) [0..<length sts] = sts"
    using Cons.prems by (intro Cons.IH) simp
  moreover have "length (encode_stripe st) = 32"
    using Cons.prems by (simp add: encode_defs)
  ultimately have "map (\<lambda>s. stripe_of (pre @ encode_stripe st @ concat (map encode_stripe sts) @ post)
      (length pre + Suc s * 32)) [0..<length sts] = sts"
    by (simp add: algebra_simps)
  then show ?case
    using st by (simp add: upt_conv_Cons map_Suc_upt [symmetric] comp_def del: upt_Suc map_Suc_upt)
qed simp

text \<open>One round of the loop on a complete entry.\<close>

lemma parse_system_chunk_array_from_step:
  assumes "disk_key_parse array p = Ok (DiskKey ob CHUNK_ITEM_KEY l)"
    and "chunk_item_parse array (p + 17) = Ok (Some c)"
    and "parse_stripes array (p + 65) [0..<unat (ch_num_stripes c)] [] = Ok sts"
    and "p + 65 + 32 * unat (ch_num_stripes c) \<le> used"
  shows "parse_system_chunk_array_from cm array used p =
    obind (chunk_map_insert cm (sys_chunk_mapping (ob, l, c, sts))) (\<lambda>cm.
      parse_system_chunk_array_from cm array used (p + 65 + 32 * unat (ch_num_stripes c)))"
  using assms
  by (subst parse_system_chunk_array_from.simps)
    (simp add: Let_def layout ChunkItem_total_size_eq sys_chunk_mapping_def add_ac)

lemma sys_chunk_array_roundtrip:
  "\<forall>e \<in> set es. sys_chunk_ok e \<Longrightarrow>
   parse_system_chunk_array_from cm (pre @ concat (map encode_sys_chunk es) @ post)
     (length pre + length (concat (map encode_sys_chunk es))) (length pre) =
   insert_all cm (map sys_chunk_mapping es)"
proof (induction es arbitrary: cm pre)
  case Nil
  then show ?case by (simp add: parse_system_chunk_array_from.simps)
next
  case (Cons e es)
  obtain ob l c sts where e: "e = (ob, l, c, sts)" by (cases e)
  let ?rest = "concat (map encode_sys_chunk es)"
  let ?arr = "pre @ concat (map encode_sys_chunk (e # es)) @ post"
  let ?used = "length pre + length (concat (map encode_sys_chunk (e # es)))"
  from Cons.prems e have len: "length sts = unat (ch_num_stripes c)"
    and uu: "\<And>st. st \<in> set sts \<Longrightarrow> length (st_dev_uuid st) = 16"
    by (auto simp: sys_chunk_ok_def)
  have enc: "length (encode_sys_chunk e) = 65 + 32 * length sts"
    using uu by (simp add: e encode_sys_chunk_def length_concat_stripes)
  have arr1: "?arr = pre @ encode_disk_key (DiskKey ob CHUNK_ITEM_KEY l) @
      (encode_chunk_item c @ concat (map encode_stripe sts) @ ?rest @ post)"
    by (simp add: e encode_sys_chunk_def)
  have arr2: "?arr = (pre @ encode_disk_key (DiskKey ob CHUNK_ITEM_KEY l)) @ encode_chunk_item c @
      (concat (map encode_stripe sts) @ ?rest @ post)"
    by (simp add: e encode_sys_chunk_def)
  have arr3: "?arr = (pre @ encode_disk_key (DiskKey ob CHUNK_ITEM_KEY l) @ encode_chunk_item c) @
      concat (map encode_stripe sts) @ (?rest @ post)"
    by (simp add: e encode_sys_chunk_def)
  have key: "disk_key_parse ?arr (length pre) = Ok (DiskKey ob CHUNK_ITEM_KEY l)"
    unfolding arr1 by (rule disk_key_roundtrip)
  let ?c = "c\<lparr>ch_stripes_offset := length pre + 17 + 48\<rparr>"
  have chunk: "chunk_item_parse ?arr (length pre + 17) = Ok (Some ?c)"
    using chunk_item_roundtrip [of ?c "pre @ encode_disk_key (DiskKey ob CHUNK_ITEM_KEY l)"
        "concat (map encode_stripe sts) @ ?rest @ post"]
    unfolding arr2 by (simp add: encode_chunk_item_def)
  have "length pre + 65 + 32 * length sts \<le> length ?arr" using enc by simp
  then have stripes: "parse_stripes ?arr (length pre + 65) [0..<length sts] [] = Ok sts"
    using stripes_encoded [OF uu, of sts "pre @ encode_disk_key (DiskKey ob CHUNK_ITEM_KEY l) @
        encode_chunk_item c" "?rest @ post", folded arr3]
    by (subst parse_stripes_eq) (auto simp: add.commute)
  have step: "parse_system_chunk_array_from cm ?arr ?used (length pre) =
      obind (chunk_map_insert cm (sys_chunk_mapping e)) (\<lambda>cm.
        parse_system_chunk_array_from cm ?arr ?used (length pre + 65 + 32 * length sts))"
    using parse_system_chunk_array_from_step [OF key chunk, of sts ?used cm] enc len stripes
    by (simp add: e sys_chunk_mapping_def)
  have "parse_system_chunk_array_from cm' ?arr ?used (length pre + 65 + 32 * length sts) =
      insert_all cm' (map sys_chunk_mapping es)" for cm'
    using Cons.IH [of cm' "pre @ encode_sys_chunk e"] Cons.prems enc by (simp add: add.assoc)
  with step show ?case by (simp cong: obind_cong)
qed

section \<open>Properties\<close>

text \<open>A map of two chunks on device 1, for the witnesses.\<close>

definition example_chunk :: "u64 \<Rightarrow> u64 \<Rightarrow> u64 \<Rightarrow> chunk_mapping" where
  "example_chunk logical len physical =
     \<lparr>cm_logical = logical, cm_length = len, cm_ty = 0, cm_stripe_len = 0x10000, cm_num_stripes = 1,
      cm_sub_stripes = 0,
      cm_stripes = [\<lparr>st_devid = 1, st_offset = physical, st_dev_uuid = replicate 16 0\<rparr>]\<rparr>"

definition example_map :: chunk_map where
  "example_map =
     \<lparr>mappings = [example_chunk 0x1000 0x1000 0x5000, example_chunk 0x4000 0x800 0x9000],
      local_devid = Some 1\<rparr>"

lemmas example_map_defs = example_map_def example_chunk_def

text \<open>
  C15. Address translation is exact. In a map that satisfies its invariant (sorted, not overlapping),
  \<^verbatim>\<open>ChunkMap::resolve\<close>, which looks at one candidate found by binary search, returns what a search of
  the whole map for the chunk covering the address returns: the same device, physical offset and
  contiguous length, or the same error when no chunk covers it or no usable stripe exists.
\<close>

theorem resolve_is_lookup:
  assumes "chunk_map_wf cm"
  shows "chunk_map_resolve cm logical = resolve_reference cm logical"
  using assms by (rule chunk_map_resolve_reference)

theorem resolve_is_lookup_witness:
  "chunk_map_wf example_map \<and>
   chunk_map_resolve example_map 0x1800 = resolve_reference example_map 0x1800 \<and>
   resolve_reference example_map 0x1800 =
     Ok \<lparr>rs_devid = 1, rs_physical = 0x5800, rs_contiguous_bytes = 0x800\<rparr>"
proof -
  have wf: "chunk_map_wf example_map"
    by (simp add: chunk_map_wf_def chunk_end_def example_map_defs)
  moreover have "resolve_reference example_map 0x1800 =
      Ok \<lparr>rs_devid = 1, rs_physical = 0x5800, rs_contiguous_bytes = 0x800\<rparr>"
    by (simp add: resolve_reference_def chunk_covers_def chunk_end_def translate_in_chunk_def
        pick_stripe_def chunk_profile_def format_consts example_map_defs)
  ultimately show ?thesis using resolve_is_lookup [OF wf, of "0x1800"] by simp
qed

text \<open>
  C16. Insertion is exact and keeps the invariant. On a well-formed map \<^verbatim>\<open>ChunkMap::insert\<close> accepts a
  chunk exactly when its end fits in 64 bits and it fits between its neighbours without overlap; an
  accepted insertion leaves a well-formed map with exactly one more chunk in which the new chunk's
  addresses translate through it and every other address translates as before.
\<close>

theorem insert_correct:
  assumes "chunk_map_wf cm"
  shows "((\<exists>cm'. chunk_map_insert cm m = Ok cm') \<longleftrightarrow>
      chunk_end m < 2 ^ 64 \<and> (\<forall>x \<in> set (mappings cm). chunk_fits m x)) \<and>
    (\<forall>cm'. chunk_map_insert cm m = Ok cm' \<longrightarrow>
      chunk_map_wf cm' \<and> set (mappings cm') = insert m (set (mappings cm)) \<and>
      (\<forall>l. chunk_map_resolve cm' l =
        (if chunk_covers m l then translate_in_chunk (local_devid cm) l m
         else chunk_map_resolve cm l)))"
  using chunk_map_insert_Ok_iff [OF assms, of m] chunk_map_insert_wf [OF assms]
    chunk_map_insert_set(1) [OF assms] chunk_map_insert_resolve [OF assms]
  by blast

theorem insert_correct_witness:
  "\<exists>cm'. chunk_map_insert example_map (example_chunk 0x2000 0x2000 0x20000) = Ok cm' \<and>
     chunk_map_wf cm' \<and> length (mappings cm') = 3"
proof -
  let ?m = "example_chunk 0x2000 0x2000 0x20000"
  have wf: "chunk_map_wf example_map"
    by (simp add: chunk_map_wf_def chunk_end_def example_map_defs)
  have "chunk_end ?m < 2 ^ 64 \<and> (\<forall>x \<in> set (mappings example_map). chunk_fits ?m x)"
    by (simp add: chunk_fits_def chunk_end_def example_map_defs)
  then obtain cm' where cm': "chunk_map_insert example_map ?m = Ok cm'" "chunk_map_wf cm'"
    using insert_correct [OF wf, of ?m] by blast
  from chunk_map_insert_OkD [OF wf cm'(1)] obtain xs ys where
    split: "mappings example_map = xs @ ys" "cm' = example_map\<lparr>mappings := xs @ ?m # ys\<rparr>" .
  have "length (mappings example_map) = 2" by (simp add: example_map_def)
  with split have "length (mappings cm') = 3" by simp
  with cm' show ?thesis by blast
qed

text \<open>
  Bootstrap round trip. Parsing the byte layout of any sequence of system chunks, whatever follows
  it in the 2048-byte field, performs exactly the insertions of those chunks in order (so it fails
  exactly when one of the insertions does); no field is misread and no entry skipped.
\<close>

lemma system_chunk_array_roundtrip:
  assumes "\<forall>e \<in> set es. sys_chunk_ok e"
  shows "parse_system_chunk_array cm (concat (map encode_sys_chunk es) @ padding)
      (length (concat (map encode_sys_chunk es))) =
    insert_all cm (map sys_chunk_mapping es)"
  using sys_chunk_array_roundtrip [OF assms, of cm "[]" padding]
  by (simp add: parse_system_chunk_array_def)

definition example_sys_chunk :: sys_chunk where
  "example_sys_chunk =
     (256, 0x1000,
      \<lparr>ch_length = 0x1000, ch_owner = 2, ch_stripe_len = 0x10000, ch_ty = 2, ch_io_align = 4096,
       ch_io_width = 4096, ch_sector_size = 4096, ch_num_stripes = 1, ch_sub_stripes = 0,
       ch_stripes_offset = 48\<rparr>,
      [\<lparr>st_devid = 1, st_offset = 0x5000, st_dev_uuid = replicate 16 0\<rparr>])"

text \<open>
  The bootstrap parser is safe for sizes inside the array: for every array contents, if the
  declared size does not exceed the array, parsing never panics, and a successful parse of any bytes
  keeps the chunk map's invariant.
\<close>

lemma system_chunk_array_safe:
  assumes "used \<le> length array"
  shows "parse_system_chunk_array cm array used \<noteq> Panic \<and>
    (\<forall>cm'. chunk_map_wf cm \<and> parse_system_chunk_array cm array used = Ok cm' \<longrightarrow> chunk_map_wf cm')"
  using parse_system_chunk_array_from_safe [OF assms, of cm 0] parse_system_chunk_array_from_wf [of cm]
  by (auto simp: parse_system_chunk_array_def)

text \<open>
  A declared size larger than the array makes the parser panic. Whenever the first entry of the
  array is a chunk whose stripes end past the array but inside the declared size, parsing indexes
  past the array. Nothing in the superblock loader bounds \<^verbatim>\<open>sys_chunk_array_size\<close> by the
  2048-byte field, so a crafted superblock with a valid checksum reaches this.
\<close>

lemma system_chunk_array_overrun_panics:
  assumes "65 \<le> length array" and "array ! 8 = CHUNK_ITEM_KEY"
    and "n = unat (le_field 2 array 61 :: u16)"
    and "65 + 32 * n \<le> used" and "length array < 65 + 32 * n"
  shows "parse_system_chunk_array cm array used = Panic"
  using parse_system_chunk_array_from_overrun [of 0 used array n cm] assms
  by (simp add: parse_system_chunk_array_def)

end
