(* ===== verification/Platform.thy ===== *)
theory Platform
  imports Prelude
begin

text \<open>
  What the crate gets from outside its own sources: the caller's block reader
  (\<^verbatim>\<open>src/block_read.rs\<close>), the CRC-32C of the \<^verbatim>\<open>crc\<close> package and the global allocator. They are
  the fields of one record, an argument of every operation that uses them. The reader's contract is
  the locale \<open>block_read\<close>, interpreted on the crate's own adapter for byte slices.
\<close>

record platform =
  pf_read_at :: "u64 \<Rightarrow> nat \<Rightarrow> u8 list option"
  pf_crc32c :: "u8 list \<Rightarrow> u32"
  pf_alloc :: "nat \<Rightarrow> bool"

text \<open>
  \<^verbatim>\<open>reader.read_at(offset, &mut buf)\<close> for a zeroed buffer of \<open>n\<close> bytes: whatever an implementation
  writes, the buffer keeps its length. An error of the implementation is \<open>None\<close>, since every caller
  erases it to a token of its own.
\<close>

definition reader_read :: "platform \<Rightarrow> u64 \<Rightarrow> nat \<Rightarrow> u8 list option" where
  "reader_read P offset n =
     map_option (\<lambda>bs. take n (bs @ replicate n 0)) (pf_read_at P offset n)"

lemma reader_read_length: "reader_read P offset n = Some bs \<Longrightarrow> length bs = n"
  by (auto simp: reader_read_def)

text \<open>The same call on a buffer with contents: bytes the implementation leaves alone stay.\<close>

definition reader_read_into :: "platform \<Rightarrow> u64 \<Rightarrow> u8 list \<Rightarrow> u8 list option" where
  "reader_read_into P offset buf =
     map_option (\<lambda>bs. take (length buf) (bs @ drop (length bs) buf)) (pf_read_at P offset (length buf))"

lemma reader_read_into_length: "reader_read_into P offset buf = Some bs \<Longrightarrow> length bs = length buf"
  by (auto simp: reader_read_into_def)

section \<open>The block-reader contract\<close>

locale block_read =
  fixes read_at :: "'r \<Rightarrow> u64 \<Rightarrow> nat \<Rightarrow> 'e + u8 list"
    and volume :: "'r \<Rightarrow> u8 list"
    and invar :: "'r \<Rightarrow> bool"
  assumes read_exact: "read_at r off n = Inr bs \<Longrightarrow> bs = take n (drop (unat off) (volume r))"
    and read_whole: "read_at r off n = Inr bs \<Longrightarrow> unat off + n \<le> length (volume r)"
    and read_in_range:
      "invar r \<Longrightarrow> unat off + n \<le> length (volume r) \<Longrightarrow> \<exists>bs. read_at r off n = Inr bs"
begin

lemma read_iff:
  assumes "invar r"
  shows "read_at r off n = Inr bs \<longleftrightarrow>
    unat off + n \<le> length (volume r) \<and> bs = take n (drop (unat off) (volume r))"
  using assms read_exact read_whole read_in_range by blast

text \<open>No partial reads: a successful read fills the whole buffer.\<close>

lemma read_length: "read_at r off n = Inr bs \<Longrightarrow> length bs = n"
  using read_exact [of r off n bs] read_whole [of r off n bs] by simp

text \<open>Two adjacent reads give the bytes of one read over both ranges.\<close>

lemma read_adjacent:
  assumes "invar r" and "read_at r off n = Inr xs" and "read_at r (off + word_of_nat n) m = Inr ys"
    and "unat off + n < 2 ^ 64"
  shows "read_at r off (n + m) = Inr (xs @ ys)"
proof -
  from assms(4) have "n < 2 ^ 64" by simp
  then have "unat (word_of_nat n :: u64) = n" by (simp add: unat_of_nat)
  with assms(4) have next_off: "unat (off + word_of_nat n) = unat off + n"
    by (simp add: unat_plus_no_wrap)
  from assms(1-3) show ?thesis
    by (auto simp: read_iff [OF assms(1)] next_off take_add drop_drop add.commute [of "unat off"])
qed

end

section \<open>The adapter for byte slices\<close>

datatype slice_read_error = OffsetTooLarge | Overflow | OutOfBounds

definition slice_read_at :: "u8 list \<Rightarrow> u64 \<Rightarrow> nat \<Rightarrow> slice_read_error + u8 list" where
  "slice_read_at self offset_bytes buf_len =
     (case try_usize offset_bytes of
        None \<Rightarrow> Inl OffsetTooLarge
      | Some start \<Rightarrow>
          (case usize_checked_add start buf_len of
             None \<Rightarrow> Inl Overflow
           | Some stop \<Rightarrow>
               if stop > length self then Inl OutOfBounds
               else Inr (take (stop - start) (drop start self))))"

interpretation slice: block_read slice_read_at "\<lambda>self. self" "\<lambda>self. length self \<le> usize_max"
proof unfold_locales
  fix r :: "u8 list" and off :: u64 and n :: nat and bs
  assume "slice_read_at r off n = Inr bs"
  then show "bs = take n (drop (unat off) r)" and "unat off + n \<le> length r"
    by (auto simp: slice_read_at_def usize_checked_add_def split: if_splits)
next
  fix r :: "u8 list" and off :: u64 and n :: nat
  assume "length r \<le> usize_max" and "unat off + n \<le> length r"
  then show "\<exists>bs. slice_read_at r off n = Inr bs"
    by (auto simp: slice_read_at_def usize_checked_add_def)
qed

text \<open>The platform whose reader is a byte slice, the volume image of the crate's own tests.\<close>

definition slice_platform :: "u8 list \<Rightarrow> (u8 list \<Rightarrow> u32) \<Rightarrow> (nat \<Rightarrow> bool) \<Rightarrow> platform" where
  "slice_platform img crc alloc =
     \<lparr>pf_read_at = (\<lambda>off n. case slice_read_at img off n of Inl _ \<Rightarrow> None | Inr bs \<Rightarrow> Some bs),
      pf_crc32c = crc, pf_alloc = alloc\<rparr>"

lemma reader_read_slice_platform:
  assumes "length img \<le> usize_max"
  shows "reader_read (slice_platform img crc alloc) off n =
    (if unat off + n \<le> length img then Some (take n (drop (unat off) img)) else None)"
proof (cases "slice_read_at img off n")
  case (Inl e)
  with slice.read_in_range [OF assms, of off n] show ?thesis
    by (auto simp: reader_read_def slice_platform_def)
next
  case (Inr bs)
  with slice.read_exact [OF Inr] slice.read_whole [OF Inr] show ?thesis
    by (auto simp: reader_read_def slice_platform_def)
qed

text \<open>A platform whose reader serves a volume image: every read in range gives the bytes of the image.\<close>

definition reads_volume :: "platform \<Rightarrow> u8 list \<Rightarrow> bool" where
  "reads_volume P img \<longleftrightarrow> length img \<le> usize_max \<and>
     (\<forall>off n. pf_read_at P off n =
        (if unat off + n \<le> length img then Some (take n (drop (unat off) img)) else None))"

lemma slice_platform_reads_volume:
  assumes "length img \<le> usize_max"
  shows "reads_volume (slice_platform img crc alloc) img"
proof -
  have "pf_read_at (slice_platform img crc alloc) off n =
      (if unat off + n \<le> length img then Some (take n (drop (unat off) img)) else None)" for off n
    using slice.read_in_range [OF assms, of off n] slice.read_exact [of img off n] slice.read_whole [of img off n]
    by (cases "slice_read_at img off n") (auto simp: slice_platform_def)
  with assms show ?thesis by (simp add: reads_volume_def)
qed

lemma reader_read_into_volume:
  "reads_volume P img \<Longrightarrow> reader_read_into P off buf =
   (if unat off + length buf \<le> length img then Some (take (length buf) (drop (unat off) img)) else None)"
  by (simp add: reader_read_into_def reads_volume_def)

end
