(* ===== verification/Checksum.thy ===== *)
theory Checksum
  imports Platform Constants Le
begin

unbundle bit_operations_syntax

text \<open>
  Checksums (\<^verbatim>\<open>src/checksum.rs\<close>). The metadata checksum is the \<^verbatim>\<open>crc\<close> package's CRC-32C, a field of
  the platform; the name hash is the crate's own table-driven CRC-32C with a seed, which is shown to
  be the bitwise reflected CRC with the Castagnoli polynomial.
\<close>

definition crc32c :: "platform \<Rightarrow> u8 list \<Rightarrow> u32" where
  "crc32c P data = pf_crc32c P data"

text \<open>The inner loop of the table generator: one step per bit, eight bits per entry.\<close>

definition crc_bit_step :: "u32 \<Rightarrow> u32" where
  "crc_bit_step c = (if c AND 1 \<noteq> 0 then drop_bit 1 c XOR 0x82F63B78 else drop_bit 1 c)"

primrec crc_bit_steps :: "nat \<Rightarrow> u32 \<Rightarrow> u32" where
  "crc_bit_steps 0 c = c"
| "crc_bit_steps (Suc k) c = crc_bit_steps k (crc_bit_step c)"

definition generate_name_hash_table :: "u32 list" where
  "generate_name_hash_table = map (\<lambda>n. crc_bit_steps 8 (word_of_nat n)) [0..<256]"

definition NAME_HASH_TABLE :: "u32 list" where
  "NAME_HASH_TABLE = generate_name_hash_table"

definition crc32c_with_seed :: "u32 \<Rightarrow> u8 list \<Rightarrow> u32" where
  "crc32c_with_seed seed data =
     foldl (\<lambda>crc b. NAME_HASH_TABLE ! unat ((crc XOR ucast b) AND 0xFF) XOR drop_bit 8 crc)
       seed data"

definition verify_crc32c :: "platform \<Rightarrow> u8 list \<Rightarrow> u8 list \<Rightarrow> bool" where
  "verify_crc32c P body stored =
     (if length stored < 4 then False
      else crc32c P body = from_le_bytes [stored ! 0, stored ! 1, stored ! 2, stored ! 3])"

section \<open>The table-driven hash is the bitwise CRC\<close>

text \<open>The reference: shift every bit of every byte through the register.\<close>

definition crc32c_bitwise :: "u32 \<Rightarrow> u8 list \<Rightarrow> u32" where
  "crc32c_bitwise seed data = foldl (\<lambda>crc b. crc_bit_steps 8 (crc XOR ucast b)) seed data"

lemma crc_bit_step_alt:
  "crc_bit_step c = drop_bit 1 c XOR (if bit c 0 then 0x82F63B78 else 0)"
  by (simp add: crc_bit_step_def and_one_eq bit_0 odd_iff_mod_2_eq_one)

lemma crc_bit_step_xor: "crc_bit_step (a XOR b) = crc_bit_step a XOR crc_bit_step b"
  by (simp add: crc_bit_step_alt drop_bit_xor bit_xor_iff ac_simps
      xor.left_commute [of _ "0x82F63B78"])

lemma crc_bit_steps_xor:
  "crc_bit_steps k (a XOR b) = crc_bit_steps k a XOR crc_bit_steps k b"
  by (induction k arbitrary: a b) (simp_all add: crc_bit_step_xor)

lemma crc_bit_steps_shift:
  "(\<And>i. i < k \<Longrightarrow> \<not> bit a i) \<Longrightarrow> crc_bit_steps k a = drop_bit k a"
proof (induction k arbitrary: a)
  case (Suc k)
  have "\<And>i. i < k \<Longrightarrow> \<not> bit (drop_bit 1 a) i"
    using Suc.prems by (simp add: bit_drop_bit_eq)
  with Suc.IH [of "drop_bit 1 a"] Suc.prems [of 0] show ?case
    by (simp add: crc_bit_step_alt)
qed simp

lemma NAME_HASH_TABLE_nth:
  assumes "n < 256"
  shows "NAME_HASH_TABLE ! n = crc_bit_steps 8 (word_of_nat n)"
  using assms by (simp add: NAME_HASH_TABLE_def generate_name_hash_table_def)

text \<open>One byte: the low byte goes through the table, the rest of the register shifts down.\<close>

lemma crc_byte_step:
  "crc_bit_steps 8 x = NAME_HASH_TABLE ! unat (x AND 0xFF) XOR drop_bit 8 x"
proof -
  let ?lo = "x AND 0xFF" and ?hi = "x AND NOT 0xFF"
  have mask8: "(0xFF :: u32) = mask 8"
    by (simp add: mask_eq_exp_minus_1)
  have lo8: "bit (0xFF :: u32) i \<longleftrightarrow> i < 8" for i
    unfolding mask8 by (auto simp: bit_mask_iff)
  have "x = ?hi XOR ?lo"
    by (rule bit_word_eqI) (simp only: bit_xor_iff bit_and_iff bit_not_iff, auto)
  then have "crc_bit_steps 8 x = crc_bit_steps 8 ?hi XOR crc_bit_steps 8 ?lo"
    by (metis crc_bit_steps_xor)
  moreover have "crc_bit_steps 8 ?hi = drop_bit 8 ?hi"
    by (rule crc_bit_steps_shift) (simp only: bit_and_iff bit_not_iff lo8, simp)
  moreover have "drop_bit 8 ?hi = drop_bit 8 x"
    by (rule bit_word_eqI) (simp only: bit_drop_bit_eq comp_apply bit_and_iff bit_not_iff lo8,
        auto dest: bit_imp_le_length)
  moreover have "unat ?lo < 256"
  proof -
    have "unat ?lo \<le> unat (0xFF :: u32)"
      by (rule word_and_le1 [THEN word_le_nat_alt [THEN iffD1]])
    then show ?thesis by simp
  qed
  then have "NAME_HASH_TABLE ! unat ?lo = crc_bit_steps 8 ?lo"
    by (simp add: NAME_HASH_TABLE_nth)
  ultimately show ?thesis by (simp add: xor.commute)
qed

lemma drop_bit_xor_byte: "drop_bit 8 (crc XOR ucast (b :: u8)) = drop_bit 8 (crc :: u32)"
proof (rule bit_word_eqI)
  fix n assume "n < LENGTH(32)"
  have "\<not> bit (ucast b :: u32) (8 + n)"
    using bit_imp_le_length [of b "8 + n"] by (auto simp: bit_ucast_iff)
  then show "bit (drop_bit 8 (crc XOR ucast b)) n = bit (drop_bit 8 crc) n"
    by (simp add: bit_drop_bit_eq bit_xor_iff)
qed

lemma crc32c_with_seed_bitwise: "crc32c_with_seed seed data = crc32c_bitwise seed data"
proof (induction data arbitrary: seed)
  case (Cons b bs)
  have "crc_bit_steps 8 (seed XOR ucast b) =
      NAME_HASH_TABLE ! unat ((seed XOR ucast b) AND 0xFF) XOR drop_bit 8 seed"
    using crc_byte_step [of "seed XOR ucast b"] by (simp only: drop_bit_xor_byte)
  with Cons.IH show ?case
    by (simp add: crc32c_with_seed_def crc32c_bitwise_def)
qed (simp add: crc32c_with_seed_def crc32c_bitwise_def)

text \<open>
  C38. The name hash computed with the compile-time lookup table, one table step per byte, is the
  bit-by-bit reflected CRC-32C (polynomial \<open>0x82F63B78\<close>) from the same seed, for every seed and
  every byte string: the table is right in all its 256 entries and the byte step is exact.
\<close>

theorem name_hash_table_correct: "crc32c_with_seed seed data = crc32c_bitwise seed data"
  by (rule crc32c_with_seed_bitwise)

end
