(* ===== verification/Btree.thy ===== *)
theory Btree
  imports Chunk_Map Checksum
begin

text \<open>
  The generic B-tree walker of \<^verbatim>\<open>src/btree.rs\<close>: reading and validating a tree block through the chunk
  map, the two binary searches, the bounded descent and the two lookups. This theory holds the model,
  the facts about single blocks and searches, and panic freedom for arbitrary device contents; the
  theory \<open>Btree_Search\<close> relates the lookups to the ordered list of items a tree stores.
\<close>

section \<open>Tree blocks\<close>

record tree_block =
  tb_header :: header
  tb_body :: "u8 list"

abbreviation tb_nritems :: "tree_block \<Rightarrow> nat" where
  "tb_nritems b \<equiv> unat (hd_nritems (tb_header b))"

abbreviation tb_bytenr :: "tree_block \<Rightarrow> u64" where
  "tb_bytenr b \<equiv> hd_bytenr (tb_header b)"

abbreviation tb_level :: "tree_block \<Rightarrow> u8" where
  "tb_level b \<equiv> hd_level (tb_header b)"

definition tb_leaf_item :: "tree_block \<Rightarrow> nat \<Rightarrow> leaf_item outcome" where
  "tb_leaf_item b i =
    (if i \<ge> tb_nritems b then Err (CorruptBtree ''leaf_item_oob'' (tb_bytenr b))
     else
       let at = Header_SIZE + i * LeafItem_SIZE in
       if at + LeafItem_SIZE > length (tb_body b)
       then Err (CorruptBtree ''leaf_item_short'' (tb_bytenr b))
       else leaf_item_parse (tb_body b) at)"

definition tb_leaf_item_data :: "tree_block \<Rightarrow> leaf_item \<Rightarrow> u8 list outcome" where
  "tb_leaf_item_data b item =
    (let start = Header_SIZE + as_usize (li_offset item) in
     obind (ok_or (usize_checked_add start (as_usize (li_size item)))
              (CorruptBtree ''item_overflow'' (tb_bytenr b))) (\<lambda>stop.
     if stop > length (tb_body b) then Err (CorruptBtree ''item_oob'' (tb_bytenr b))
     else slice (tb_body b) start stop))"

definition tb_key_ptr :: "tree_block \<Rightarrow> nat \<Rightarrow> key_ptr outcome" where
  "tb_key_ptr b i =
    (if i \<ge> tb_nritems b then Err (CorruptBtree ''keyptr_oob'' (tb_bytenr b))
     else
       let at = Header_SIZE + i * KeyPtr_SIZE in
       if at + KeyPtr_SIZE > length (tb_body b)
       then Err (CorruptBtree ''keyptr_short'' (tb_bytenr b))
       else key_ptr_parse (tb_body b) at)"

section \<open>Reading and validating a block\<close>

text \<open>
  The read loop. \<open>acc\<close> is the part of the buffer already filled (\<^verbatim>\<open>written\<close> is its length), so the
  slice \<^verbatim>\<open>body[written..written + take]\<close> is the next \<^verbatim>\<open>take\<close> bytes.
\<close>

function read_block_from ::
  "platform \<Rightarrow> chunk_map \<Rightarrow> u64 \<Rightarrow> u64 \<Rightarrow> u64 \<Rightarrow> u8 list \<Rightarrow> u8 list outcome" where
  "read_block_from P cm logical cursor remaining acc =
    (if \<not> remaining > 0 then Ok acc
     else
     obind (chunk_map_resolve cm cursor) (\<lambda>resolved.
     let take = min remaining (rs_contiguous_bytes resolved) in
     obind (ok_or (try_usize take) (CorruptBtree ''read_chunk_too_large'' logical)) (\<lambda>take_usize.
     obind (ok_or (reader_read P (rs_physical resolved) take_usize)
              (Io ''tree_block_read'' (rs_physical resolved))) (\<lambda>bytes.
     obind (plain_add cursor take) (\<lambda>cursor.
     obind (plain_sub remaining take) (\<lambda>remaining.
     read_block_from P cm logical cursor remaining (acc @ bytes)))))))"
  by pat_completeness auto
termination
proof (relation "measure (\<lambda>(P, cm, logical, cursor, remaining, acc). unat remaining)")
  fix cm cursor remaining r take and remaining' :: u64
  assume "\<not> \<not> (0 :: u64) < remaining" "chunk_map_resolve cm cursor = Ok r"
    "take = min remaining (rs_contiguous_bytes r)" "plain_sub remaining take = Ok remaining'"
  with chunks.resolve_progress have "0 < unat take" "take \<le> remaining" "remaining' = remaining - take"
    by (auto simp: plain_sub_def min_def word_less_nat_alt split: if_splits)
  then have "unat remaining' < unat remaining"
    by (simp add: unat_minus_le word_le_nat_alt)
  then show "((P, cm, logical, c, remaining', a), (P', cm', l', cursor, remaining, acc))
      \<in> measure (\<lambda>(P, cm, logical, cursor, remaining, acc). unat remaining)"
    for P logical c a P' cm' l' acc
    by simp
qed auto

declare read_block_from.simps [simp del]

definition tb_leaf_key :: "tree_block \<Rightarrow> nat \<Rightarrow> disk_key outcome" where
  "tb_leaf_key b i = obind (tb_leaf_item b i) (\<lambda>item. Ok (li_key item))"

definition tb_node_key :: "tree_block \<Rightarrow> nat \<Rightarrow> disk_key outcome" where
  "tb_node_key b i = obind (tb_key_ptr b i) (\<lambda>kp. Ok (kp_key kp))"

primrec check_ascending ::
  "(nat \<Rightarrow> disk_key outcome) \<Rightarrow> u64 \<Rightarrow> disk_key \<Rightarrow> nat list \<Rightarrow> unit outcome" where
  "check_ascending key logical prev [] = Ok ()"
| "check_ascending key logical prev (i # is) =
     obind (key i) (\<lambda>cur.
     if prev \<ge> cur then Err (CorruptBtree ''key_order'' logical)
     else check_ascending key logical cur is)"

definition validate_keys_strictly_ascending :: "tree_block \<Rightarrow> unit outcome" where
  "validate_keys_strictly_ascending b =
    (let n = tb_nritems b in
     if n < 2 then Ok ()
     else if tb_level b = 0
     then obind (tb_leaf_key b 0) (\<lambda>prev. check_ascending (tb_leaf_key b) (tb_bytenr b) prev [1..<n])
     else obind (tb_node_key b 0) (\<lambda>prev. check_ascending (tb_node_key b) (tb_bytenr b) prev [1..<n]))"

definition read_tree_block :: "platform \<Rightarrow> chunk_map \<Rightarrow> u32 \<Rightarrow> u64 \<Rightarrow> tree_block outcome" where
  "read_tree_block P cm nodesize logical =
     obind (read_block_from P cm logical logical (ucast nodesize) []) (\<lambda>body.
     obind (header_parse body) (\<lambda>header_opt.
     obind (ok_or header_opt (CorruptBtree ''header_short'' logical)) (\<lambda>header.
     obind (slice body CSUM_LEN (length body)) (\<lambda>covered.
     if \<not> verify_crc32c P covered (hd_csum header) then Err (CsumMismatch logical)
     else if hd_bytenr header \<noteq> logical then Err (CorruptBtree ''bytenr_mismatch'' logical)
     else
       let block = \<lparr>tb_header = header, tb_body = body\<rparr> in
       obind (validate_keys_strictly_ascending block) (\<lambda>_. Ok block)))))"

section \<open>Searching\<close>

text \<open>
  Both binary searches run the same loop over \<^verbatim>\<open>lo\<close> and \<^verbatim>\<open>hi\<close>; they differ in the array they probe
  and in the comparison.
\<close>

function bsearch_loop :: "(nat \<Rightarrow> bool outcome) \<Rightarrow> nat \<Rightarrow> nat \<Rightarrow> nat outcome" where
  "bsearch_loop below lo hi =
    (if lo < hi
     then let mid = lo + (hi - lo) div 2 in
       obind (below mid) (\<lambda>b. if b then bsearch_loop below (mid + 1) hi else bsearch_loop below lo mid)
     else Ok lo)"
  by pat_completeness auto
termination
  by (relation "measure (\<lambda>(below, lo, hi). hi - lo)") auto

declare bsearch_loop.simps [simp del]

definition binary_search_interior :: "tree_block \<Rightarrow> disk_key \<Rightarrow> nat outcome" where
  "binary_search_interior b target =
    (let n = tb_nritems b in
     if n = 0 then Err (CorruptBtree ''interior_empty'' (tb_bytenr b))
     else obind (bsearch_loop (\<lambda>mid. obind (tb_key_ptr b mid) (\<lambda>kp. Ok (kp_key kp \<le> target))) 0 n) (\<lambda>lo.
       Ok (lo - 1)))"

definition binary_search_leaf :: "tree_block \<Rightarrow> disk_key \<Rightarrow> nat option outcome" where
  "binary_search_leaf b target =
    (let n = tb_nritems b in
     if n = 0 then Ok None
     else obind (bsearch_loop (\<lambda>mid. obind (tb_leaf_item b mid) (\<lambda>item. Ok (li_key item < target))) 0 n)
       (\<lambda>lo. if lo = n then Ok None else Ok (Some lo)))"

function descend_loop ::
  "platform \<Rightarrow> chunk_map \<Rightarrow> u32 \<Rightarrow> disk_key \<Rightarrow> tree_block \<Rightarrow> disk_key option \<Rightarrow> u8
   \<Rightarrow> (tree_block \<times> disk_key option) outcome" where
  "descend_loop P cm nodesize target current next_key depth =
    (if \<not> tb_level current > 0 then Ok (current, next_key)
     else
     let depth = saturating_add depth 1 in
     if depth > MAX_TREE_DEPTH
     then Err (CorruptBtree ''infinite_recursion'' (tb_bytenr current))
     else if tb_nritems current = 0
     then Err (CorruptBtree ''interior_empty'' (tb_bytenr current))
     else
     obind (binary_search_interior current target) (\<lambda>child_idx.
     obind (if child_idx + 1 < tb_nritems current
            then obind (tb_key_ptr current (child_idx + 1)) (\<lambda>kp. Ok (Some (kp_key kp)))
            else Ok next_key) (\<lambda>next_key.
     obind (tb_key_ptr current child_idx) (\<lambda>kp.
     obind (read_tree_block P cm nodesize (kp_blockptr kp)) (\<lambda>current.
     descend_loop P cm nodesize target current next_key depth)))))"
  by pat_completeness auto
termination
  by (relation "measure (\<lambda>(P, cm, nodesize, target, current, next_key, depth). 17 - unat depth)")
    (auto simp: word_less_nat_alt unat_saturating_add MAX_TREE_DEPTH_def)

declare descend_loop.simps [simp del]

definition descend_to_leaf ::
  "platform \<Rightarrow> chunk_map \<Rightarrow> u32 \<Rightarrow> u64 \<Rightarrow> disk_key \<Rightarrow> (tree_block \<times> disk_key option) outcome" where
  "descend_to_leaf P cm nodesize root_logical target =
     obind (read_tree_block P cm nodesize root_logical) (\<lambda>current.
     descend_loop P cm nodesize target current None 0)"

definition find_exact ::
  "platform \<Rightarrow> chunk_map \<Rightarrow> u32 \<Rightarrow> u64 \<Rightarrow> disk_key \<Rightarrow> (tree_block \<times> nat) option outcome" where
  "find_exact P cm nodesize root_logical target =
     obind (descend_to_leaf P cm nodesize root_logical target) (\<lambda>(leaf, _).
     if tb_nritems leaf = 0 then Ok None
     else
     obind (binary_search_leaf leaf target) (\<lambda>found. case found of
       None \<Rightarrow> Ok None
     | Some idx \<Rightarrow>
         obind (tb_leaf_item leaf idx) (\<lambda>item.
         if li_key item = target then Ok (Some (leaf, idx)) else Ok None)))"

definition find_first_ge ::
  "platform \<Rightarrow> chunk_map \<Rightarrow> u32 \<Rightarrow> u64 \<Rightarrow> disk_key \<Rightarrow> (tree_block \<times> nat) option outcome" where
  "find_first_ge P cm nodesize root_logical target =
     obind (descend_to_leaf P cm nodesize root_logical target) (\<lambda>(leaf, next_key).
     obind (binary_search_leaf leaf target) (\<lambda>found. case found of
       Some idx \<Rightarrow> Ok (Some (leaf, idx))
     | None \<Rightarrow> (case next_key of
         None \<Rightarrow> Ok None
       | Some next_key \<Rightarrow>
           obind (descend_to_leaf P cm nodesize root_logical next_key) (\<lambda>(nxt, _).
           obind (if tb_nritems nxt = 0 then Ok True
                  else obind (tb_leaf_item nxt 0) (\<lambda>item. Ok (li_key item \<le> target))) (\<lambda>bad.
           if bad then Err (CorruptBtree ''separator_mismatch'' (tb_bytenr nxt))
           else Ok (Some (nxt, 0)))))))"

section \<open>Facts about single blocks\<close>

lemma tb_leaf_item_safe [outcome_safe]: "tb_leaf_item b i \<noteq> Panic"
  by (auto simp: tb_leaf_item_def Let_def leaf_item_parse_eq layout)

lemma tb_key_ptr_safe [outcome_safe]: "tb_key_ptr b i \<noteq> Panic"
  by (auto simp: tb_key_ptr_def Let_def key_ptr_parse_eq layout)

lemma tb_leaf_item_data_safe [outcome_safe]: "tb_leaf_item_data b item \<noteq> Panic"
  by (auto simp: tb_leaf_item_data_def Let_def outcome_simps usize_checked_add_def slice_def
      split: if_splits)

lemma tb_leaf_item_Ok_less: "tb_leaf_item b i = Ok it \<Longrightarrow> i < tb_nritems b"
  by (auto simp: tb_leaf_item_def split: if_splits)

lemma tb_key_ptr_Ok_less: "tb_key_ptr b i = Ok kp \<Longrightarrow> i < tb_nritems b"
  by (auto simp: tb_key_ptr_def split: if_splits)

lemma tb_leaf_key_Ok_iff: "tb_leaf_key b i = Ok k \<longleftrightarrow> (\<exists>it. tb_leaf_item b i = Ok it \<and> li_key it = k)"
  by (auto simp: tb_leaf_key_def outcome_simps)

lemma tb_node_key_Ok_iff: "tb_node_key b i = Ok k \<longleftrightarrow> (\<exists>kp. tb_key_ptr b i = Ok kp \<and> kp_key kp = k)"
  by (auto simp: tb_node_key_def outcome_simps)

lemma tb_leaf_key_safe [outcome_safe]: "tb_leaf_key b i \<noteq> Panic"
  by (auto simp: tb_leaf_key_def outcome_simps tb_leaf_item_safe)

lemma tb_node_key_safe [outcome_safe]: "tb_node_key b i \<noteq> Panic"
  by (auto simp: tb_node_key_def outcome_simps tb_key_ptr_safe)

lemma check_ascending_safe: "(\<And>i. key i \<noteq> Panic) \<Longrightarrow> check_ascending key l prev is \<noteq> Panic"
  by (induction "is" arbitrary: prev) (auto simp: outcome_simps split: if_splits)

lemma validate_safe [outcome_safe]: "validate_keys_strictly_ascending b \<noteq> Panic"
  by (auto simp: validate_keys_strictly_ascending_def Let_def outcome_simps tb_leaf_key_safe
      tb_node_key_safe check_ascending_safe)

lemma check_ascending_Ok:
  "check_ascending key l prev is = Ok () \<Longrightarrow>
   \<exists>ks. map key is = map Ok ks \<and> sorted_wrt (<) (prev # ks)"
proof (induction "is" arbitrary: prev)
  case (Cons i "is")
  then obtain cur where cur: "key i = Ok cur" "prev < cur" "check_ascending key l cur is = Ok ()"
    by (auto simp: outcome_simps split: if_splits)
  with Cons.IH obtain ks where "map key is = map Ok ks" "sorted_wrt (<) (cur # ks)" by blast
  with cur have "map key (i # is) = map Ok (cur # ks)" "sorted_wrt (<) (prev # cur # ks)"
    by (auto intro: less_trans)
  then show ?case by blast
qed simp

text \<open>The keys of a validated block of at least two items are readable and strictly ascending.\<close>

lemma ascending_from_first:
  assumes "key 0 = Ok prev" and "check_ascending key l prev [1..<n] = Ok ()" and "0 < n"
  shows "\<exists>ks. map key [0..<n] = map Ok ks \<and> sorted_wrt (<) ks"
proof -
  from check_ascending_Ok [OF assms(2)] obtain ks where
    "map key [1..<n] = map Ok ks" "sorted_wrt (<) (prev # ks)" by blast
  moreover have "[0..<n] = 0 # [1..<n]" using assms(3) by (simp add: upt_conv_Cons)
  ultimately show ?thesis using assms(1) by (intro exI [of _ "prev # ks"]) simp
qed

lemma validate_leaf:
  assumes "validate_keys_strictly_ascending b = Ok ()" and "tb_level b = 0" and "2 \<le> tb_nritems b"
  shows "\<exists>ks. map (tb_leaf_key b) [0..<tb_nritems b] = map Ok ks \<and> sorted_wrt (<) ks"
  using assms ascending_from_first [of "tb_leaf_key b"]
  by (auto simp: validate_keys_strictly_ascending_def Let_def outcome_simps)

lemma validate_node:
  assumes "validate_keys_strictly_ascending b = Ok ()" and "tb_level b \<noteq> 0" and "2 \<le> tb_nritems b"
  shows "\<exists>ks. map (tb_node_key b) [0..<tb_nritems b] = map Ok ks \<and> sorted_wrt (<) ks"
  using assms ascending_from_first [of "tb_node_key b"]
  by (auto simp: validate_keys_strictly_ascending_def Let_def outcome_simps)

section \<open>The read loop\<close>

lemma read_block_from_safe [outcome_safe]: "read_block_from P cm logical cursor remaining acc \<noteq> Panic"
proof (induction P cm logical cursor remaining acc rule: read_block_from.induct)
  case (1 P cm logical cursor remaining acc)
  have step: "plain_add cursor (min remaining (rs_contiguous_bytes r)) \<noteq> Panic"
    if r: "chunk_map_resolve cm cursor = Ok r" for r
  proof -
    have "unat (min remaining (rs_contiguous_bytes r)) \<le> unat (rs_contiguous_bytes r)"
      by (simp add: min_def word_le_nat_alt)
    with chunks.cursor_step_safe(1) [OF r this] show ?thesis by simp
  qed
  have sub: "plain_sub remaining (min remaining c) \<noteq> Panic" for c
    by (simp add: plain_sub_def)
  show ?case
    unfolding read_block_from.simps [of P cm logical cursor remaining acc]
    using step sub "1.IH" by (auto simp: outcome_simps Let_def chunk_map_resolve_safe)
qed

lemma read_block_from_length:
  "read_block_from P cm logical cursor remaining acc = Ok body \<Longrightarrow>
   length body = length acc + unat remaining"
proof (induction P cm logical cursor remaining acc rule: read_block_from.induct)
  case (1 P cm logical cursor remaining acc)
  show ?case
  proof (cases "0 < remaining")
    case True
    with "1.prems" obtain r bytes cursor' remaining' where
        r: "chunk_map_resolve cm cursor = Ok r"
      and bytes: "reader_read P (rs_physical r) (unat (min remaining (rs_contiguous_bytes r))) = Some bytes"
      and c: "plain_add cursor (min remaining (rs_contiguous_bytes r)) = Ok cursor'"
      and sub: "plain_sub remaining (min remaining (rs_contiguous_bytes r)) = Ok remaining'"
      and rest: "read_block_from P cm logical cursor' remaining' (acc @ bytes) = Ok body"
      by (subst (asm) read_block_from.simps) (auto simp: outcome_simps Let_def)
    have "length body = length (acc @ bytes) + unat remaining'"
      using True r bytes c sub rest by (intro "1.IH") auto
    moreover have "unat remaining' = unat remaining - unat (min remaining (rs_contiguous_bytes r))"
      using sub by (auto simp: plain_sub_def unat_minus_le split: if_splits)
    moreover have "unat (min remaining (rs_contiguous_bytes r)) \<le> unat remaining"
      by (simp add: min_def word_le_nat_alt)
    ultimately show ?thesis using reader_read_length [OF bytes] by simp
  next
    case False
    with "1.prems" show ?thesis by (simp add: read_block_from.simps word_gt_0)
  qed
qed

lemma read_tree_block_OkD:
  assumes "read_tree_block P cm nodesize logical = Ok b"
  shows "validate_keys_strictly_ascending b = Ok ()" and "tb_bytenr b = logical"
    and "tb_header b = header_of (tb_body b)" and "length (tb_body b) = unat nodesize"
    and "101 \<le> unat nodesize" and "verify_crc32c P (drop 32 (tb_body b)) (take 32 (tb_body b))"
  using assms read_block_from_length [of P cm logical logical "ucast nodesize" "[]"]
  by (auto simp: read_tree_block_def outcome_simps Let_def header_parse_eq header_of_def format_consts
      unat_ucast_u32_u64 split: if_splits)

lemma read_tree_block_safe [outcome_safe]: "read_tree_block P cm nodesize logical \<noteq> Panic"
  by (auto simp: read_tree_block_def outcome_simps Let_def header_parse_eq read_block_from_safe
      validate_safe format_consts split: if_splits)

section \<open>The binary-search loop\<close>

text \<open>What the probes say at the edges of the result, whatever the order of the array.\<close>

lemma bsearch_loop_edges:
  "bsearch_loop below lo hi = Ok r \<Longrightarrow> lo \<le> hi \<Longrightarrow>
   lo \<le> r \<and> r \<le> hi \<and> (r < hi \<longrightarrow> below r = Ok False) \<and> (lo < r \<longrightarrow> below (r - 1) = Ok True)"
proof (induction below lo hi rule: bsearch_loop.induct)
  case (1 below lo hi)
  show ?case
  proof (cases "lo < hi")
    case True
    let ?mid = "lo + (hi - lo) div 2"
    have mid: "lo \<le> ?mid" "?mid < hi" using True by auto
    from "1.prems" True obtain b where b: "below ?mid = Ok b"
      and rec: "(if b then bsearch_loop below (?mid + 1) hi else bsearch_loop below lo ?mid) = Ok r"
      by (subst (asm) bsearch_loop.simps) (auto simp: outcome_simps Let_def)
    show ?thesis
    proof (cases b)
      case True
      with rec b "1.IH"(1) [OF \<open>lo < hi\<close> refl b] mid show ?thesis
        by (cases "r = ?mid + 1") auto
    next
      case False
      with rec b "1.IH"(2) [OF \<open>lo < hi\<close> refl b] mid show ?thesis
        by (cases "r = ?mid") auto
    qed
  next
    case False
    with "1.prems" show ?thesis by (simp add: bsearch_loop.simps)
  qed
qed

lemma bsearch_loop_safe: "(\<And>i. below i \<noteq> Panic) \<Longrightarrow> bsearch_loop below lo hi \<noteq> Panic"
proof (induction below lo hi rule: bsearch_loop.induct)
  case (1 below lo hi)
  then show ?case
    by (subst bsearch_loop.simps) (auto simp: outcome_simps Let_def split: if_splits)
qed

lemma bsearch_loop_total:
  "(\<And>i. lo \<le> i \<Longrightarrow> i < hi \<Longrightarrow> \<exists>b. below i = Ok b) \<Longrightarrow> \<exists>r. bsearch_loop below lo hi = Ok r"
proof (induction below lo hi rule: bsearch_loop.induct)
  case (1 below lo hi)
  show ?case
  proof (cases "lo < hi")
    case True
    let ?mid = "lo + (hi - lo) div 2"
    from True have mid: "lo \<le> ?mid" "?mid < hi" by auto
    with "1.prems" obtain b where b: "below ?mid = Ok b" by blast
    have "\<exists>r. (if b then bsearch_loop below (?mid + 1) hi else bsearch_loop below lo ?mid) = Ok r"
      using "1.IH"(1) [OF True refl b] "1.IH"(2) [OF True refl b] "1.prems" mid by auto
    with True b show ?thesis by (subst bsearch_loop.simps) (simp add: Let_def)
  qed (simp add: bsearch_loop.simps)
qed

text \<open>Over a partitioned array the loop finds the partition point.\<close>

lemma bsearch_loop_partition:
  assumes "\<And>i. i < n \<Longrightarrow> below i = Ok (p i)" and "m \<le> n"
    and "\<And>i. i < m \<Longrightarrow> p i" and "\<And>i. m \<le> i \<Longrightarrow> i < n \<Longrightarrow> \<not> p i"
  shows "bsearch_loop below 0 n = Ok m"
proof -
  from assms(1) bsearch_loop_total [where lo = 0 and hi = n and below = below] obtain r where r: "bsearch_loop below 0 n = Ok r"
    by blast
  note e = bsearch_loop_edges [OF r]
  have "r = m"
  proof (rule ccontr)
    assume "r \<noteq> m"
    then consider "r < m" | "m < r" by linarith
    then show False
    proof cases
      case 1
      with e assms(2) have "below r = Ok False" by simp
      with 1 assms(1) [of r] assms(2) assms(3) [of r] show ?thesis by simp
    next
      case 2
      with e have "below (r - 1) = Ok True" "r - 1 < n" "m \<le> r - 1" by auto
      with assms(1) [of "r - 1"] assms(4) [of "r - 1"] show ?thesis by simp
    qed
  qed
  with r show ?thesis by simp
qed

end
