(* ===== verification/Btree_Search.thy ===== *)
theory Btree_Search
  imports Btree
begin

text \<open>
  Correctness of the B-tree lookups. A tree on disk is loaded into a \<open>dtree\<close> by reading every block;
  its slots are the leaf items in order. For a tree whose separators bound their subtrees, the two
  lookups of \<^verbatim>\<open>src/btree.rs\<close> are the two searches of the ordered slot list: \<open>find_first_ge\<close> returns the
  first slot whose key is at least the target, \<open>find_exact\<close> the slot with the target key. The locale
  \<open>key_search\<close> is that contract, as the item readers of the other components use it.
\<close>

section \<open>Panic freedom and what a hit guarantees\<close>

lemma binary_search_interior_safe [outcome_safe]: "binary_search_interior b t \<noteq> Panic"
  by (auto simp: binary_search_interior_def Let_def outcome_simps tb_key_ptr_safe
      intro: bsearch_loop_safe [THEN notE, rotated])

lemma binary_search_leaf_safe [outcome_safe]: "binary_search_leaf b t \<noteq> Panic"
  by (auto simp: binary_search_leaf_def Let_def outcome_simps tb_leaf_item_safe
      intro: bsearch_loop_safe [THEN notE, rotated] split: if_splits)

lemma descend_loop_safe [outcome_safe]: "descend_loop P cm ns t b nk depth \<noteq> Panic"
proof (induction P cm ns t b nk depth rule: descend_loop.induct)
  case (1 P cm ns t b nk depth)
  show ?case
    unfolding descend_loop.simps [of P cm ns t b nk depth]
    using "1.IH"
    by (auto simp: outcome_simps Let_def binary_search_interior_safe tb_key_ptr_safe
        read_tree_block_safe split: if_splits)
qed

lemma descend_to_leaf_safe [outcome_safe]: "descend_to_leaf P cm ns root t \<noteq> Panic"
  by (simp add: descend_to_leaf_def outcome_simps read_tree_block_safe descend_loop_safe)

lemma find_exact_safe [outcome_safe]: "find_exact P cm ns root t \<noteq> Panic"
  by (auto simp: find_exact_def outcome_simps descend_to_leaf_safe binary_search_leaf_safe
      tb_leaf_item_safe split: if_splits option.splits)

lemma find_first_ge_safe [outcome_safe]: "find_first_ge P cm ns root t \<noteq> Panic"
  by (auto simp: find_first_ge_def outcome_simps descend_to_leaf_safe binary_search_leaf_safe
      tb_leaf_item_safe split: if_splits option.splits)

text \<open>One interior level of a descent that succeeds.\<close>

definition next_sep :: "tree_block \<Rightarrow> nat \<Rightarrow> disk_key option \<Rightarrow> disk_key option outcome" where
  "next_sep b c nk =
    (if c + 1 < tb_nritems b then obind (tb_key_ptr b (c + 1)) (\<lambda>kp. Ok (Some (kp_key kp))) else Ok nk)"

lemma descend_loop_node:
  assumes "0 < tb_level b"
  shows "descend_loop P cm ns t b nk depth = Ok r \<longleftrightarrow>
    \<not> MAX_TREE_DEPTH < saturating_add depth 1 \<and> tb_nritems b \<noteq> 0 \<and>
    (\<exists>c nk1 kp b1. binary_search_interior b t = Ok c \<and> next_sep b c nk = Ok nk1 \<and>
       tb_key_ptr b c = Ok kp \<and> read_tree_block P cm ns (kp_blockptr kp) = Ok b1 \<and>
       descend_loop P cm ns t b1 nk1 (saturating_add depth 1) = Ok r)"
  unfolding descend_loop.simps [of P cm ns t b nk depth] next_sep_def [symmetric]
  using assms by (auto simp: Let_def outcome_simps)

lemma descend_loop_0: "tb_level b = 0 \<Longrightarrow> descend_loop P cm ns t b nk depth = Ok (b, nk)"
  by (simp add: descend_loop.simps)

lemma descend_loop_leaf:
  "descend_loop P cm ns t b nk depth = Ok (leaf, nk') \<Longrightarrow>
   validate_keys_strictly_ascending b = Ok () \<Longrightarrow>
   tb_level leaf = 0 \<and> validate_keys_strictly_ascending leaf = Ok ()"
proof (induction P cm ns t b nk depth rule: descend_loop.induct)
  case (1 P cm ns t b nk depth)
  show ?case
  proof (cases "0 < tb_level b")
    case False
    with "1.prems" show ?thesis by (simp add: descend_loop_0 word_gt_0)
  next
    case True
    with "1.prems"(1) obtain c nk1 kp b1 where
        d: "\<not> MAX_TREE_DEPTH < saturating_add depth 1" "tb_nritems b \<noteq> 0"
      and c: "binary_search_interior b t = Ok c" and nk1: "next_sep b c nk = Ok nk1"
      and kp: "tb_key_ptr b c = Ok kp" and b1: "read_tree_block P cm ns (kp_blockptr kp) = Ok b1"
      and rec: "descend_loop P cm ns t b1 nk1 (saturating_add depth 1) = Ok (leaf, nk')"
      by (auto simp: descend_loop_node)
    from "1.IH" [OF _ refl d c nk1 [unfolded next_sep_def] kp b1 rec read_tree_block_OkD(1) [OF b1]]
      True show ?thesis by simp
  qed
qed

text \<open>The bound handed down does not influence the leaf reached.\<close>

lemma descend_loop_bound_irrelevant:
  "descend_loop P cm ns t b nk depth = Ok (leaf, nk') \<Longrightarrow>
   \<exists>nk2. descend_loop P cm ns t b nk0 depth = Ok (leaf, nk2)"
proof (induction P cm ns t b nk depth arbitrary: nk0 rule: descend_loop.induct)
  case (1 P cm ns t b nk depth)
  show ?case
  proof (cases "0 < tb_level b")
    case False
    with "1.prems" show ?thesis by (simp add: descend_loop_0 word_gt_0)
  next
    case True
    with "1.prems"(1) obtain c nk1 kp b1 where
        d: "\<not> MAX_TREE_DEPTH < saturating_add depth 1" "tb_nritems b \<noteq> 0"
      and c: "binary_search_interior b t = Ok c" and nk1: "next_sep b c nk = Ok nk1"
      and kp: "tb_key_ptr b c = Ok kp" and b1: "read_tree_block P cm ns (kp_blockptr kp) = Ok b1"
      and rec: "descend_loop P cm ns t b1 nk1 (saturating_add depth 1) = Ok (leaf, nk')"
      by (auto simp: descend_loop_node)
    from nk1 obtain nk3 where nk3: "next_sep b c nk0 = Ok nk3"
      by (auto simp: next_sep_def split: if_splits)
    from "1.IH" [OF _ refl d c nk1 [unfolded next_sep_def] kp b1 rec, of nk3] True obtain nk2 where
      "descend_loop P cm ns t b1 nk3 (saturating_add depth 1) = Ok (leaf, nk2)" by auto
    with True d c nk3 kp b1 show ?thesis by (auto simp: descend_loop_node)
  qed
qed

lemma descend_to_leaf_leaf:
  assumes "descend_to_leaf P cm ns root t = Ok (leaf, nk)"
  shows "tb_level leaf = 0" and "validate_keys_strictly_ascending leaf = Ok ()"
  using assms descend_loop_leaf read_tree_block_OkD(1)
  by (auto simp: descend_to_leaf_def outcome_simps)

lemma binary_search_leaf_Some:
  assumes "binary_search_leaf b t = Ok (Some idx)"
  shows "\<exists>it. tb_leaf_item b idx = Ok it \<and> t \<le> li_key it"
proof -
  let ?below = "\<lambda>mid. obind (tb_leaf_item b mid) (\<lambda>item. Ok (li_key item < t))"
  from assms have "bsearch_loop ?below 0 (tb_nritems b) = Ok idx" "idx \<noteq> tb_nritems b"
    by (auto simp: binary_search_leaf_def Let_def outcome_simps split: if_splits)
  with bsearch_loop_edges [of ?below 0 "tb_nritems b" idx] have "?below idx = Ok False" by auto
  then show ?thesis by (auto simp: outcome_simps)
qed

text \<open>
  On any device contents: a slot returned by \<open>find_first_ge\<close> lies in a validated leaf, is readable and
  has a key not below the target. The loops over items rest on this for their termination.
\<close>

lemma find_first_ge_hit:
  assumes "find_first_ge P cm ns root t = Ok (Some (leaf, idx))"
  obtains it where "tb_leaf_item leaf idx = Ok it" "t \<le> li_key it" "tb_level leaf = 0"
    "validate_keys_strictly_ascending leaf = Ok ()"
proof -
  from assms obtain l nk found where l: "descend_to_leaf P cm ns root t = Ok (l, nk)"
    and found: "binary_search_leaf l t = Ok found"
    by (auto simp: find_first_ge_def outcome_simps)
  with assms have cases: "binary_search_leaf l t = Ok (Some idx) \<and> leaf = l \<or>
      (\<exists>k n' it. descend_to_leaf P cm ns root k = Ok (leaf, n') \<and> idx = 0 \<and>
        tb_leaf_item leaf 0 = Ok it \<and> \<not> li_key it \<le> t)"
    by (cases found; cases nk) (auto simp: find_first_ge_def outcome_simps split: if_splits)
  from cases show ?thesis
  proof
    assume "binary_search_leaf l t = Ok (Some idx) \<and> leaf = l"
    with binary_search_leaf_Some descend_to_leaf_leaf [OF l] show ?thesis
      using that by blast
  next
    assume "\<exists>k n' it. descend_to_leaf P cm ns root k = Ok (leaf, n') \<and> idx = 0 \<and>
        tb_leaf_item leaf 0 = Ok it \<and> \<not> li_key it \<le> t"
    then show ?thesis using descend_to_leaf_leaf that by (metis nle_le)
  qed
qed

lemma find_exact_hit:
  assumes "find_exact P cm ns root t = Ok (Some (leaf, idx))"
  shows "\<exists>it. tb_leaf_item leaf idx = Ok it \<and> li_key it = t"
  using assms by (auto simp: find_exact_def outcome_simps split: option.splits if_splits)

section \<open>Trees in memory\<close>

datatype dtree = DLeaf tree_block | DNode tree_block "dtree list"

primrec dtree_block :: "dtree \<Rightarrow> tree_block" where
  "dtree_block (DLeaf b) = b"
| "dtree_block (DNode b ts) = b"

text \<open>Load the tree under an address, with at most \<open>fuel\<close> interior levels.\<close>

primrec load_tree :: "platform \<Rightarrow> chunk_map \<Rightarrow> u32 \<Rightarrow> nat \<Rightarrow> u64 \<Rightarrow> dtree option" where
  "load_tree P cm ns 0 addr =
    (case read_tree_block P cm ns addr of
       Ok b \<Rightarrow> if tb_level b = 0 then Some (DLeaf b) else None
     | _ \<Rightarrow> None)"
| "load_tree P cm ns (Suc fuel) addr =
    (case read_tree_block P cm ns addr of
       Ok b \<Rightarrow>
         if tb_level b = 0 then Some (DLeaf b)
         else map_option (DNode b)
           (those (map (\<lambda>i. case tb_key_ptr b i of
                          Ok kp \<Rightarrow> load_tree P cm ns fuel (kp_blockptr kp)
                        | _ \<Rightarrow> None) [0..<tb_nritems b]))
     | _ \<Rightarrow> None)"

type_synonym slot = "tree_block \<times> nat"

definition slot_key :: "slot \<Rightarrow> disk_key" where
  "slot_key s = (case tb_leaf_key (fst s) (snd s) of Ok k \<Rightarrow> k | _ \<Rightarrow> DiskKey 0 0 0)"

definition leaf_slots :: "tree_block \<Rightarrow> slot list" where
  "leaf_slots b = map (Pair b) [0..<tb_nritems b]"

fun dtree_slots :: "dtree \<Rightarrow> slot list" where
  "dtree_slots (DLeaf b) = leaf_slots b"
| "dtree_slots (DNode b ts) = concat (map dtree_slots ts)"

definition sep_key :: "tree_block \<Rightarrow> nat \<Rightarrow> disk_key" where
  "sep_key b i = (case tb_node_key b i of Ok k \<Rightarrow> k | _ \<Rightarrow> DiskKey 0 0 0)"

text \<open>
  The invariant of a B-tree: leaf items are readable, an interior node has children, no child is
  empty, and the separator of a child (but the first) is a lower bound of its keys and an upper
  bound of the keys of the child before it.
\<close>

definition child_bounds :: "tree_block \<Rightarrow> nat \<Rightarrow> nat \<Rightarrow> slot list \<Rightarrow> bool" where
  "child_bounds b n i ss \<longleftrightarrow>
     ss \<noteq> [] \<and>
     (0 < i \<longrightarrow> (\<forall>s \<in> set ss. sep_key b i \<le> slot_key s)) \<and>
     (i + 1 < n \<longrightarrow> (\<forall>s \<in> set ss. slot_key s < sep_key b (i + 1)))"

fun dtree_wf :: "dtree \<Rightarrow> bool" where
  "dtree_wf (DLeaf b) = list_all (\<lambda>i. is_ok (tb_leaf_item b i)) [0..<tb_nritems b]"
| "dtree_wf (DNode b ts) =
     (ts \<noteq> [] \<and> list_all dtree_wf ts \<and>
      list_all (\<lambda>i. child_bounds b (length ts) i (dtree_slots (ts ! i))) [0..<length ts])"

text \<open>The tree of a root address: at most \<^verbatim>\<open>MAX_TREE_DEPTH\<close> interior levels, well-formed.\<close>

definition tree_of :: "platform \<Rightarrow> chunk_map \<Rightarrow> u32 \<Rightarrow> u64 \<Rightarrow> dtree option" where
  "tree_of P cm ns root = load_tree P cm ns (unat MAX_TREE_DEPTH) root"

definition tree_ok :: "platform \<Rightarrow> chunk_map \<Rightarrow> u32 \<Rightarrow> u64 \<Rightarrow> bool" where
  "tree_ok P cm ns root = (case tree_of P cm ns root of None \<Rightarrow> False | Some d \<Rightarrow> dtree_wf d)"

definition tree_slots :: "platform \<Rightarrow> chunk_map \<Rightarrow> u32 \<Rightarrow> u64 \<Rightarrow> slot list" where
  "tree_slots P cm ns root = (case tree_of P cm ns root of None \<Rightarrow> [] | Some d \<Rightarrow> dtree_slots d)"

section \<open>Loaded trees\<close>

lemma those_Some_iff: "those xs = Some ys \<longleftrightarrow> xs = map Some ys"
proof (induction xs arbitrary: ys)
  case (Cons x xs)
  then show ?case by (cases ys; cases x) (auto split: option.splits)
qed auto

lemma load_tree_DLeaf:
  "load_tree P cm ns fuel addr = Some (DLeaf b) \<Longrightarrow>
   read_tree_block P cm ns addr = Ok b \<and> tb_level b = 0"
  by (cases fuel) (auto split: outcome.splits if_splits)

lemma load_tree_DNode:
  assumes "load_tree P cm ns fuel addr = Some (DNode b ts)"
  obtains fuel' where "fuel = Suc fuel'" "read_tree_block P cm ns addr = Ok b" "tb_level b \<noteq> 0"
    "length ts = tb_nritems b"
    "\<forall>i < length ts. \<exists>kp. tb_key_ptr b i = Ok kp \<and>
       load_tree P cm ns fuel' (kp_blockptr kp) = Some (ts ! i)"
proof (cases fuel)
  case (Suc fuel')
  let ?child = "\<lambda>i. case tb_key_ptr b i of
      Ok kp \<Rightarrow> load_tree P cm ns fuel' (kp_blockptr kp) | _ \<Rightarrow> None"
  from assms Suc have b: "read_tree_block P cm ns addr = Ok b" "tb_level b \<noteq> 0"
    and ts: "map ?child [0..<tb_nritems b] = map Some ts"
    by (auto simp: those_Some_iff split: outcome.splits if_splits)
  from ts have len: "length ts = tb_nritems b" by (metis diff_zero length_map length_upt)
  have "?child i = Some (ts ! i)" if "i < length ts" for i
    using arg_cong [OF ts, of "\<lambda>xs. xs ! i"] that len by simp
  then have "\<exists>kp. tb_key_ptr b i = Ok kp \<and> load_tree P cm ns fuel' (kp_blockptr kp) = Some (ts ! i)"
    if "i < length ts" for i
    using that by (force split: outcome.splits)
  with that Suc b len show ?thesis by blast
qed (use assms in \<open>auto split: outcome.splits if_splits\<close>)

lemma leaf_slots_readable:
  assumes "dtree_wf (DLeaf b)" and "i < tb_nritems b"
  shows "tb_leaf_key b i = Ok (slot_key (b, i))" and "\<exists>it. tb_leaf_item b i = Ok it \<and> li_key it = slot_key (b, i)"
proof -
  from assms have "is_ok (tb_leaf_item b i)" by (simp add: list_all_iff)
  then obtain it where "tb_leaf_item b i = Ok it" by (cases "tb_leaf_item b i") auto
  then show "tb_leaf_key b i = Ok (slot_key (b, i))"
    and "\<exists>it. tb_leaf_item b i = Ok it \<and> li_key it = slot_key (b, i)"
    by (auto simp: tb_leaf_key_def slot_key_def)
qed

lemma sorted_wrt_nth_keys:
  assumes "map key [0..<n] = map Ok ks" and "sorted_wrt (<) ks" and "i < j" and "j < n"
    and "\<And>i. i < n \<Longrightarrow> key i = Ok (f i)"
  shows "f i < (f j :: disk_key)"
proof -
  from assms(1) have len: "length ks = n" by (metis diff_zero length_map length_upt)
  have "key m = Ok (ks ! m)" if "m < n" for m
    using arg_cong [OF assms(1), of "\<lambda>xs. xs ! m"] that len by simp
  with assms(5) have "f m = ks ! m" if "m < n" for m using that by fastforce
  with sorted_wrt_nth_less [OF assms(2,3)] assms(3,4) len show ?thesis by simp
qed

lemma leaf_slots_ascending:
  assumes "validate_keys_strictly_ascending b = Ok ()" and "tb_level b = 0" and "dtree_wf (DLeaf b)"
    and "i < j" and "j < tb_nritems b"
  shows "slot_key (b, i) < slot_key (b, j)"
proof -
  from assms(4,5) have "2 \<le> tb_nritems b" by linarith
  from validate_leaf [OF assms(1,2) this] obtain ks where
    "map (tb_leaf_key b) [0..<tb_nritems b] = map Ok ks" "sorted_wrt (<) ks" by blast
  from sorted_wrt_nth_keys [OF this assms(4,5) leaf_slots_readable(1) [OF assms(3)]] show ?thesis .
qed

lemma node_seps_ascending:
  assumes "validate_keys_strictly_ascending b = Ok ()" and "tb_level b \<noteq> 0"
    and "\<And>i. i < tb_nritems b \<Longrightarrow> tb_node_key b i = Ok (sep_key b i)"
    and "i < j" and "j < tb_nritems b"
  shows "sep_key b i < sep_key b j"
proof -
  from assms(4,5) have "2 \<le> tb_nritems b" by linarith
  from validate_node [OF assms(1,2) this] obtain ks where
    "map (tb_node_key b) [0..<tb_nritems b] = map Ok ks" "sorted_wrt (<) ks" by blast
  from sorted_wrt_nth_keys [OF this assms(4,5,3)] show ?thesis .
qed

lemma node_key_sep: "tb_key_ptr b i = Ok kp \<Longrightarrow> tb_node_key b i = Ok (sep_key b i)"
  by (simp add: tb_node_key_def sep_key_def)

lemma binary_search_leaf_eq:
  assumes "validate_keys_strictly_ascending b = Ok ()" and "tb_level b = 0" and wf: "dtree_wf (DLeaf b)"
  shows "binary_search_leaf b t = Ok (map_option snd (find (\<lambda>s. t \<le> slot_key s) (leaf_slots b)))"
proof -
  let ?n = "tb_nritems b"
  define m where "m = length (takeWhile (\<lambda>i. slot_key (b, i) < t) [0..<?n])"
  have mle: "m \<le> ?n" using length_takeWhile_le [of _ "[0..<?n]"] by (simp add: m_def)
  have lt: "slot_key (b, i) < t" if "i < m" for i
    using that mle nth_mem [of i "takeWhile (\<lambda>i. slot_key (b, i) < t) [0..<?n]"]
      takeWhile_nth [of i "\<lambda>i. slot_key (b, i) < t" "[0..<?n]"]
    by (auto simp: m_def dest: set_takeWhileD)
  have at: "\<not> slot_key (b, m) < t" if "m < ?n"
    using nth_length_takeWhile [of "\<lambda>i. slot_key (b, i) < t" "[0..<?n]"] that by (simp add: m_def)
  have ge: "\<not> slot_key (b, i) < t" if "m \<le> i" "i < ?n" for i
    using at leaf_slots_ascending [OF assms, of m i] that by (cases "i = m") force+
  have "bsearch_loop (\<lambda>mid. obind (tb_leaf_item b mid) (\<lambda>item. Ok (li_key item < t))) 0 ?n = Ok m"
  proof (rule bsearch_loop_partition [where p = "\<lambda>i. slot_key (b, i) < t"])
    fix i assume "i < ?n"
    with leaf_slots_readable(2) [OF wf] show "obind (tb_leaf_item b i) (\<lambda>item. Ok (li_key item < t)) =
        Ok (slot_key (b, i) < t)" by fastforce
  qed (use mle lt ge in auto)
  moreover have "find (\<lambda>s. t \<le> slot_key s) (leaf_slots b) = (if m < ?n then Some (b, m) else None)"
    unfolding leaf_slots_def by (rule find_map_upt) (use mle lt at in \<open>auto simp: not_le\<close>)
  ultimately show ?thesis
    using mle by (auto simp: binary_search_leaf_def Let_def)
qed

section \<open>Descending a well-formed tree\<close>

lemma ascending_partition:
  fixes p :: "nat \<Rightarrow> bool"
  assumes "\<And>i j. i < j \<Longrightarrow> j < n \<Longrightarrow> p j \<Longrightarrow> p i"
  shows "\<exists>m \<le> n. (\<forall>i < m. p i) \<and> (\<forall>i. m \<le> i \<longrightarrow> i < n \<longrightarrow> \<not> p i)"
proof -
  define m where "m = (LEAST m. m = n \<or> \<not> p m)"
  have m: "m = n \<or> \<not> p m" unfolding m_def by (rule LeastI [of _ n]) simp
  have "m \<le> n" unfolding m_def by (rule Least_le) simp
  moreover have "p i" if "i < m" for i using not_less_Least [of i "\<lambda>m. m = n \<or> \<not> p m"] that m_def by simp
  moreover have "\<not> p i" if "m \<le> i" "i < n" for i
    using m assms [of m i] that by (cases "i = m") auto
  ultimately show ?thesis by blast
qed

definition selects :: "tree_block \<Rightarrow> disk_key \<Rightarrow> nat \<Rightarrow> bool" where
  "selects b t c \<longleftrightarrow> c < tb_nritems b \<and> (0 < c \<longrightarrow> sep_key b c \<le> t) \<and>
     (c + 1 < tb_nritems b \<longrightarrow> t < sep_key b (c + 1))"

text \<open>A node and its children in key order.\<close>

definition node_ordered :: "tree_block \<Rightarrow> dtree list \<Rightarrow> bool" where
  "node_ordered b ts \<longleftrightarrow> length ts = tb_nritems b \<and> ts \<noteq> [] \<and>
     (\<forall>i < length ts. child_bounds b (length ts) i (dtree_slots (ts ! i))) \<and>
     (\<forall>i j. i < j \<longrightarrow> j < length ts \<longrightarrow> sep_key b i < sep_key b j)"

lemma node_orderedD:
  assumes "node_ordered b ts"
  shows "length ts = tb_nritems b" and "0 < tb_nritems b"
    and "\<And>i. i < tb_nritems b \<Longrightarrow> child_bounds b (tb_nritems b) i (dtree_slots (ts ! i))"
    and "\<And>i j. i < j \<Longrightarrow> j < tb_nritems b \<Longrightarrow> sep_key b i < sep_key b j"
  using assms by (auto simp: node_ordered_def simp flip: length_greater_0_conv)

lemma node_partition:
  assumes "node_ordered b ts"
  shows "\<exists>m \<le> tb_nritems b. (\<forall>i < m. sep_key b i \<le> t) \<and>
    (\<forall>i. m \<le> i \<longrightarrow> i < tb_nritems b \<longrightarrow> \<not> sep_key b i \<le> t) \<and> selects b t (m - 1)"
proof -
  have "\<exists>m \<le> tb_nritems b. (\<forall>i < m. sep_key b i \<le> t) \<and>
    (\<forall>i. m \<le> i \<longrightarrow> i < tb_nritems b \<longrightarrow> \<not> sep_key b i \<le> t)"
    by (rule ascending_partition)
      (use node_orderedD(4) [OF assms] in \<open>meson order_less_imp_le order_trans\<close>)
  then obtain m where m: "m \<le> tb_nritems b" "\<forall>i < m. sep_key b i \<le> t"
    "\<forall>i. m \<le> i \<longrightarrow> i < tb_nritems b \<longrightarrow> \<not> sep_key b i \<le> t" by blast
  then have "selects b t (m - 1)"
    using node_orderedD(2) [OF assms] by (cases m) (auto simp: selects_def not_le)
  with m show ?thesis by blast
qed

lemma selects_ex: "node_ordered b ts \<Longrightarrow> \<exists>c. selects b t c"
  using node_partition by blast

lemma selects_unique:
  assumes "node_ordered b ts" and "selects b t c" and "selects b t c'"
  shows "c = c'"
proof -
  have "\<not> c1 < c2" if "selects b t c1" "selects b t c2" for c1 c2
  proof
    assume "c1 < c2"
    with that have "t < sep_key b (c1 + 1)" "sep_key b c2 \<le> t" "c2 < tb_nritems b"
      by (auto simp: selects_def)
    with node_orderedD(4) [OF assms(1), of "c1 + 1" c2] \<open>c1 < c2\<close> show False
      by (cases "c2 = c1 + 1") force+
  qed
  with assms show ?thesis by (meson linorder_cases)
qed

lemma binary_search_interior_selects:
  assumes ord: "node_ordered b ts" and keys: "\<forall>i < tb_nritems b. tb_node_key b i = Ok (sep_key b i)"
  shows "binary_search_interior b t = Ok c \<longleftrightarrow> selects b t c"
proof -
  from node_partition [OF ord, of t] obtain m where m: "m \<le> tb_nritems b" "\<And>i. i < m \<Longrightarrow> sep_key b i \<le> t"
    "\<And>i. m \<le> i \<Longrightarrow> i < tb_nritems b \<Longrightarrow> \<not> sep_key b i \<le> t" and sel: "selects b t (m - 1)" by blast
  have "bsearch_loop (\<lambda>mid. obind (tb_key_ptr b mid) (\<lambda>kp. Ok (kp_key kp \<le> t))) 0 (tb_nritems b) = Ok m"
  proof (rule bsearch_loop_partition [where p = "\<lambda>i. sep_key b i \<le> t"])
    fix i assume "i < tb_nritems b"
    with keys have "tb_node_key b i = Ok (sep_key b i)" by blast
    then show "obind (tb_key_ptr b i) (\<lambda>kp. Ok (kp_key kp \<le> t)) = Ok (sep_key b i \<le> t)"
      by (auto simp: tb_node_key_Ok_iff)
  qed (use m in auto)
  then have "binary_search_interior b t = Ok (m - 1)"
    using node_orderedD(2) [OF ord] by (simp add: binary_search_interior_def Let_def)
  with sel selects_unique [OF ord] show ?thesis by auto
qed

text \<open>A loaded, well-formed subtree met at a given depth of the descent.\<close>

definition loaded :: "platform \<Rightarrow> chunk_map \<Rightarrow> u32 \<Rightarrow> nat \<Rightarrow> u8 \<Rightarrow> dtree \<Rightarrow> u64 \<Rightarrow> bool" where
  "loaded P cm ns fuel depth d addr \<longleftrightarrow>
     load_tree P cm ns fuel addr = Some d \<and> dtree_wf d \<and> unat depth + fuel \<le> unat MAX_TREE_DEPTH"

definition good_leaf :: "tree_block \<Rightarrow> bool" where
  "good_leaf b \<longleftrightarrow>
     tb_level b = 0 \<and> validate_keys_strictly_ascending b = Ok () \<and> dtree_wf (DLeaf b)"

lemma loaded_leaf: "loaded P cm ns fuel depth (DLeaf b) addr \<Longrightarrow> good_leaf b"
  using load_tree_DLeaf [of P cm ns fuel addr b] read_tree_block_OkD(1) [of P cm ns addr b]
  by (simp add: loaded_def good_leaf_def)

lemma load_tree_block:
  "load_tree P cm ns fuel addr = Some d \<Longrightarrow> read_tree_block P cm ns addr = Ok (dtree_block d)"
  by (cases d) (auto dest: load_tree_DLeaf elim: load_tree_DNode)

lemma loaded_nodeD:
  assumes "loaded P cm ns fuel depth (DNode b ts) addr"
  obtains fuel' where "fuel = Suc fuel'" "read_tree_block P cm ns addr = Ok b" "tb_level b \<noteq> 0"
    "\<forall>i < tb_nritems b. \<exists>kp. tb_key_ptr b i = Ok kp \<and>
       loaded P cm ns fuel' (depth + 1) (ts ! i) (kp_blockptr kp)"
    "unat (depth + 1) \<le> 16" "saturating_add depth 1 = depth + 1"
proof -
  from assms have load: "load_tree P cm ns fuel addr = Some (DNode b ts)"
    and wf: "dtree_wf (DNode b ts)" and bound: "unat depth + fuel \<le> 16"
    by (simp_all add: loaded_def MAX_TREE_DEPTH_def)
  from load obtain fuel' where f: "fuel = Suc fuel'" and rd: "read_tree_block P cm ns addr = Ok b"
    and lvl: "tb_level b \<noteq> 0" and len: "length ts = tb_nritems b"
    and kids: "\<forall>i < length ts. \<exists>kp. tb_key_ptr b i = Ok kp \<and>
       load_tree P cm ns fuel' (kp_blockptr kp) = Some (ts ! i)"
    by (rule load_tree_DNode)
  from bound f have dep: "unat (depth + 1) = unat depth + 1" 
    by (simp add: unat_plus_simple [THEN iffD1] unat_word_ariths)
  have "\<exists>kp. tb_key_ptr b i = Ok kp \<and> loaded P cm ns fuel' (depth + 1) (ts ! i) (kp_blockptr kp)"
    if "i < tb_nritems b" for i
    using kids [rule_format, of i] wf that len bound f dep nth_mem [of i ts]
    by (auto simp: loaded_def MAX_TREE_DEPTH_def list_all_iff)
  then show ?thesis
    using that [OF f rd lvl] dep bound f
    by (simp add: saturating_add_def word_less_nat_alt)
qed

lemma loaded_node_ordered:
  assumes "loaded P cm ns fuel depth (DNode b ts) addr"
  shows "node_ordered b ts" and "\<forall>i < tb_nritems b. tb_node_key b i = Ok (sep_key b i)"
proof -
  from assms obtain fuel' where rd: "read_tree_block P cm ns addr = Ok b" and lvl: "tb_level b \<noteq> 0"
    and kids: "\<forall>i < tb_nritems b. \<exists>kp. tb_key_ptr b i = Ok kp \<and>
       loaded P cm ns fuel' (depth + 1) (ts ! i) (kp_blockptr kp)" by (rule loaded_nodeD)
  from kids show keys: "\<forall>i < tb_nritems b. tb_node_key b i = Ok (sep_key b i)"
    using node_key_sep by blast
  have "length ts = tb_nritems b"
    using assms by (auto simp: loaded_def elim: load_tree_DNode)
  moreover have "sep_key b i < sep_key b j" if "i < j" "j < tb_nritems b" for i j
    using node_seps_ascending [OF read_tree_block_OkD(1) [OF rd] lvl _ that] keys by blast
  ultimately show "node_ordered b ts"
    using assms by (simp add: node_ordered_def loaded_def list_all_iff)
qed

lemma loaded_node_step:
  assumes "loaded P cm ns fuel depth (DNode b ts) addr" and sel: "selects b t c"
  obtains a fuel' where "loaded P cm ns fuel' (depth + 1) (ts ! c) a" "c < length ts"
    "\<forall>nk. descend_loop P cm ns t b nk depth =
       descend_loop P cm ns t (dtree_block (ts ! c))
         (if c + 1 < length ts then Some (sep_key b (c + 1)) else nk) (depth + 1)"
proof -
  note ord = loaded_node_ordered [OF assms(1)]
  from assms(1) obtain fuel' where lvl: "tb_level b \<noteq> 0"
    and kids: "\<forall>i < tb_nritems b. \<exists>kp. tb_key_ptr b i = Ok kp \<and>
       loaded P cm ns fuel' (depth + 1) (ts ! i) (kp_blockptr kp)"
    and dep: "unat (depth + 1) \<le> 16" "saturating_add depth 1 = depth + 1" by (rule loaded_nodeD)
  from dep(1) have not_deep: "\<not> MAX_TREE_DEPTH < depth + 1"
    by (simp add: word_less_nat_alt MAX_TREE_DEPTH_def)
  from sel have cl: "c < tb_nritems b" by (simp add: selects_def)
  with kids obtain kp where kp: "tb_key_ptr b c = Ok kp"
    and ld: "loaded P cm ns fuel' (depth + 1) (ts ! c) (kp_blockptr kp)" by blast
  from ld have "read_tree_block P cm ns (kp_blockptr kp) = Ok (dtree_block (ts ! c))"
    by (auto simp: loaded_def intro: load_tree_block)
  moreover have "(if c + 1 < tb_nritems b then obind (tb_key_ptr b (c + 1)) (\<lambda>kp. Ok (Some (kp_key kp)))
      else Ok nk) = Ok (if c + 1 < tb_nritems b then Some (sep_key b (c + 1)) else nk)" for nk
    using ord(2) by (auto simp: tb_node_key_Ok_iff)
  ultimately have "descend_loop P cm ns t b nk depth = descend_loop P cm ns t (dtree_block (ts ! c))
      (if c + 1 < tb_nritems b then Some (sep_key b (c + 1)) else nk) (depth + 1)" for nk
    using lvl dep(2) not_deep cl kp binary_search_interior_selects [OF ord, THEN iffD2, OF sel]
    by (simp add: descend_loop.simps [of P cm ns t b nk depth] word_gt_0 Let_def)
  with ld cl show ?thesis using that node_orderedD(1) [OF ord(1)] by simp
qed

text \<open>The slots of a node around a selected child.\<close>

lemma node_slots_split:
  "c < length ts \<Longrightarrow> dtree_slots (DNode b ts) =
   concat (map dtree_slots (take c ts)) @ dtree_slots (ts ! c) @ concat (map dtree_slots (drop (c + 1) ts))"
  by (metis append.assoc concat.simps(2) concat_append dtree_slots.simps(2) id_take_nth_drop
      list.simps(9) map_append Suc_eq_plus1)

lemma slots_before_child:
  assumes ord: "node_ordered b ts" and "c < length ts"
    and "s \<in> set (concat (map dtree_slots (take c ts)))"
  shows "slot_key s < sep_key b c"
proof -
  from assms(3) obtain i where i: "i < c" "i < length ts" "s \<in> set (dtree_slots (ts ! i))"
    by (auto simp: in_set_conv_nth [where xs = "take c ts"])
  with node_orderedD(1,3) [OF ord] assms(2) have "slot_key s < sep_key b (i + 1)"
    by (auto simp: child_bounds_def)
  moreover have "sep_key b (i + 1) \<le> sep_key b c"
    using node_orderedD(4) [OF ord, of "i + 1" c] node_orderedD(1) [OF ord] assms(2) i
    by (cases "i + 1 = c") auto
  ultimately show ?thesis by simp
qed

lemma slots_after_child:
  assumes ord: "node_ordered b ts" and "s \<in> set (concat (map dtree_slots (drop (c + 1) ts)))"
  shows "sep_key b (c + 1) \<le> slot_key s"
proof -
  from assms(2) obtain d where "d \<in> set (drop (c + 1) ts)" "s \<in> set (dtree_slots d)" by auto
  then obtain i where i: "c + 1 + i < tb_nritems b" "s \<in> set (dtree_slots (ts ! (c + 1 + i)))"
    using node_orderedD(1) [OF ord]
    by (auto simp: in_set_conv_nth [where xs = "drop c ts" for c] less_diff_conv add_ac)
  with node_orderedD(3) [OF ord] have "sep_key b (c + 1 + i) \<le> slot_key s"
    by (auto simp: child_bounds_def)
  moreover have "sep_key b (c + 1) \<le> sep_key b (c + 1 + i)"
    using node_orderedD(4) [OF ord, of "c + 1" "c + 1 + i"] i by (cases "i = 0") auto
  ultimately show ?thesis by simp
qed

text \<open>
  What a descent for \<open>t\<close> leaves to the left and to the right of its leaf. \<open>nk\<close> is the bound handed
  down, \<open>nk'\<close> the one returned: the separator right of the leaf, if there is anything to the right.
\<close>

definition splits_at :: "slot list \<Rightarrow> disk_key \<Rightarrow> slot list \<Rightarrow> tree_block \<Rightarrow> slot list \<Rightarrow> bool" where
  "splits_at ss t pre leaf post \<longleftrightarrow>
     ss = pre @ leaf_slots leaf @ post \<and> (\<forall>s \<in> set pre. slot_key s < t) \<and> good_leaf leaf \<and>
     (ss \<noteq> [] \<longrightarrow> leaf_slots leaf \<noteq> [])"

definition right_bound ::
  "disk_key \<Rightarrow> slot list \<Rightarrow> disk_key option \<Rightarrow> disk_key option \<Rightarrow> bool" where
  "right_bound t post nk nk' \<longleftrightarrow>
     (if post = [] then nk' = nk
      else \<exists>k. nk' = Some k \<and> t < k \<and> (\<forall>s \<in> set post. k \<le> slot_key s))"

lemma right_bound_extend:
  assumes rb: "right_bound t post (if c + 1 < length ts then Some (sep_key b (c + 1)) else nk) nk'"
    and ord: "node_ordered b ts" and sel: "selects b t c"
    and inside: "set post \<subseteq> set (dtree_slots (ts ! c))"
  shows "right_bound t (post @ concat (map dtree_slots (drop (c + 1) ts))) nk nk'"
proof (cases "c + 1 < length ts")
  case False
  with rb show ?thesis by simp
next
  case True
  let ?R = "concat (map dtree_slots (drop (c + 1) ts))" and ?k = "sep_key b (c + 1)"
  note len = node_orderedD(1) [OF ord] and bounds = node_orderedD(3) [OF ord]
  from bounds [of "c + 1"] have "?R \<noteq> []"
    using Cons_nth_drop_Suc [OF True, symmetric] True len by (simp add: child_bounds_def)
  moreover from True sel len have "t < ?k" by (simp add: selects_def)
  moreover have "k \<le> slot_key s" if "post \<noteq> []" "\<forall>s \<in> set post. k \<le> slot_key s" "s \<in> set ?R" for k s
  proof -
    from that(1) obtain s0 where s0: "s0 \<in> set post" by (cases post) auto
    with inside bounds [of c] True len have "slot_key s0 < ?k" by (auto simp: child_bounds_def)
    with that(2) s0 slots_after_child [OF ord that(3)] show ?thesis by fastforce
  qed
  ultimately show ?thesis
    using rb True slots_after_child [OF ord, of _ c] unfolding right_bound_def
    by (cases "post = []") (simp_all del: set_concat, blast+)
qed

text \<open>Descending for the returned bound reaches the leaf right of the one first reached.\<close>

definition next_leaf ::
  "platform \<Rightarrow> chunk_map \<Rightarrow> u32 \<Rightarrow> u8 \<Rightarrow> dtree \<Rightarrow> slot list \<Rightarrow> disk_key option \<Rightarrow> bool" where
  "next_leaf P cm ns depth d post nk' \<longleftrightarrow> post = [] \<or>
     (\<exists>k leaf2 post2. nk' = Some k \<and> post = leaf_slots leaf2 @ post2 \<and> leaf_slots leaf2 \<noteq> [] \<and>
        good_leaf leaf2 \<and> (\<forall>nk0. \<exists>nk2. descend_loop P cm ns k (dtree_block d) nk0 depth = Ok (leaf2, nk2)))"

lemma next_leaf_inner:
  assumes ld: "loaded P cm ns fuel depth (DNode b ts) addr" and sel: "selects b t c"
    and rb: "right_bound t post nk0 nk'" and inside: "set post \<subseteq> set (dtree_slots (ts ! c))"
    and nl: "next_leaf P cm ns (depth + 1) (ts ! c) post nk'" and ne: "post \<noteq> []"
  shows "next_leaf P cm ns depth (DNode b ts) (post @ R) nk'"
proof -
  note ord = loaded_node_ordered(1) [OF ld]
  from nl ne obtain k leaf2 post2 where k: "nk' = Some k" "post = leaf_slots leaf2 @ post2"
    "leaf_slots leaf2 \<noteq> []" "good_leaf leaf2"
    and d: "\<forall>nk0. \<exists>nk2. descend_loop P cm ns k (dtree_block (ts ! c)) nk0 (depth + 1) = Ok (leaf2, nk2)"
    unfolding next_leaf_def by blast
  from rb ne k(1) have tk: "t < k" and low: "\<forall>s \<in> set post. k \<le> slot_key s"
    by (auto simp: right_bound_def)
  from ne obtain s0 where s0: "s0 \<in> set post" by (cases post) auto
  with inside low node_orderedD(3) [OF ord, of c] sel have "c + 1 < tb_nritems b \<longrightarrow> k < sep_key b (c + 1)"
    by (fastforce simp: child_bounds_def selects_def)
  with sel tk have "selects b k c" by (auto simp: selects_def)
  with ld obtain fuel' a where step: "\<forall>nk. descend_loop P cm ns k b nk depth =
      descend_loop P cm ns k (dtree_block (ts ! c))
        (if c + 1 < length ts then Some (sep_key b (c + 1)) else nk) (depth + 1)"
    by (rule loaded_node_step)
  have "\<exists>nk2. descend_loop P cm ns k b nk0 depth = Ok (leaf2, nk2)" for nk0
    unfolding step [rule_format] using d by blast
  with k show ?thesis
    unfolding next_leaf_def
    by (intro disjI2 exI [of _ k] exI [of _ leaf2] exI [of _ "post2 @ R"]) simp
qed

lemma next_leaf_outer:
  assumes ld: "loaded P cm ns fuel depth (DNode b ts) addr" and c: "c + 1 < length ts"
    and kid: "\<And>fuel a nk0. loaded P cm ns fuel (depth + 1) (ts ! (c + 1)) a \<Longrightarrow>
      \<exists>pre leaf post nk'. descend_loop P cm ns (sep_key b (c + 1)) (dtree_block (ts ! (c + 1))) nk0
          (depth + 1) = Ok (leaf, nk') \<and>
        splits_at (dtree_slots (ts ! (c + 1))) (sep_key b (c + 1)) pre leaf post"
  shows "next_leaf P cm ns depth (DNode b ts) (concat (map dtree_slots (drop (c + 1) ts)))
    (Some (sep_key b (c + 1)))"
proof -
  let ?k = "sep_key b (c + 1)" and ?t = "ts ! (c + 1)"
  note ord = loaded_node_ordered(1) [OF ld]
  note len = node_orderedD(1) [OF ord]
  have bounds: "dtree_slots ?t \<noteq> []" "\<forall>s \<in> set (dtree_slots ?t). ?k \<le> slot_key s"
    using node_orderedD(3) [OF ord, of "c + 1"] c len by (auto simp: child_bounds_def)
  have "selects b ?k (c + 1)"
    using c len node_orderedD(4) [OF ord, of "c + 1" "c + 1 + 1"] unfolding selects_def by simp
  with ld obtain a fuel' where ldc: "loaded P cm ns fuel' (depth + 1) ?t a"
    and step: "\<forall>nk. descend_loop P cm ns ?k b nk depth = descend_loop P cm ns ?k (dtree_block ?t)
         (if c + 1 + 1 < length ts then Some (sep_key b (c + 1 + 1)) else nk) (depth + 1)"
    by (rule loaded_node_step)
  have first: "dtree_slots ?t = leaf_slots leaf @ post \<and> leaf_slots leaf \<noteq> [] \<and> good_leaf leaf"
    if "splits_at (dtree_slots ?t) ?k pre leaf post" for pre leaf post
  proof -
    have "pre = []"
    proof (cases pre)
      case (Cons s pre')
      with that have "slot_key s < ?k" "s \<in> set (dtree_slots ?t)" by (simp_all add: splits_at_def)
      with bounds(2) show ?thesis by (simp add: not_less [symmetric])
    qed
    with that bounds(1) show ?thesis unfolding splits_at_def by (simp only: append_Nil) blast
  qed
  from kid [OF ldc, of None] obtain pre leaf post nk' where
      d0: "descend_loop P cm ns ?k (dtree_block ?t) None (depth + 1) = Ok (leaf, nk')"
    and sp: "splits_at (dtree_slots ?t) ?k pre leaf post" by blast
  from first [OF sp] have leaf: "dtree_slots ?t = leaf_slots leaf @ post" "leaf_slots leaf \<noteq> []"
    "good_leaf leaf" by simp_all
  have "\<exists>nk2. descend_loop P cm ns ?k b nk0 depth = Ok (leaf, nk2)" for nk0
    unfolding step [rule_format] by (rule descend_loop_bound_irrelevant [OF d0])
  moreover have "concat (map dtree_slots (drop (c + 1) ts)) =
      leaf_slots leaf @ post @ concat (map dtree_slots (drop (c + 2) ts))"
    using Cons_nth_drop_Suc [OF c, symmetric] leaf(1) by simp
  ultimately show ?thesis
    unfolding next_leaf_def using leaf(2,3)
    by (intro disjI2 exI [of _ ?k] exI [of _ leaf]
        exI [of _ "post @ concat (map dtree_slots (drop (c + 2) ts))"]) simp
qed

lemma descend_loop_splits:
  "loaded P cm ns fuel depth d addr \<Longrightarrow>
   \<exists>pre leaf post nk'. descend_loop P cm ns t (dtree_block d) nk depth = Ok (leaf, nk') \<and>
     splits_at (dtree_slots d) t pre leaf post \<and> right_bound t post nk nk' \<and>
     next_leaf P cm ns depth d post nk'"
proof (induction d arbitrary: fuel depth addr nk t)
  case (DLeaf b)
  with loaded_leaf have "good_leaf b" by blast
  then show ?case
    by (intro exI [of _ "[]"] exI [of _ b] exI [of _ nk])
      (simp add: splits_at_def right_bound_def next_leaf_def good_leaf_def descend_loop_0)
next
  case (DNode b ts)
  note ord = loaded_node_ordered(1) [OF DNode.prems]
  from selects_ex [OF ord] obtain c where c: "selects b t c" ..
  let ?nk = "if c + 1 < length ts then Some (sep_key b (c + 1)) else nk"
  from DNode.prems c obtain a fuel' where ld: "loaded P cm ns fuel' (depth + 1) (ts ! c) a"
    and cl: "c < length ts" and step: "\<forall>nk. descend_loop P cm ns t b nk depth =
       descend_loop P cm ns t (dtree_block (ts ! c))
         (if c + 1 < length ts then Some (sep_key b (c + 1)) else nk) (depth + 1)"
    by (rule loaded_node_step)
  from DNode.IH [OF nth_mem [OF cl] ld, of t ?nk] obtain pre leaf post nk' where
      rec: "descend_loop P cm ns t (dtree_block (ts ! c)) ?nk (depth + 1) = Ok (leaf, nk')"
    and sp: "splits_at (dtree_slots (ts ! c)) t pre leaf post" and rb: "right_bound t post ?nk nk'"
    and nl: "next_leaf P cm ns (depth + 1) (ts ! c) post nk'"
    by blast
  let ?L = "concat (map dtree_slots (take c ts))" and ?R = "concat (map dtree_slots (drop (c + 1) ts))"
  have L: "slot_key s < t" if "s \<in> set ?L" for s
  proof -
    from that have "0 < c" by (cases c) auto
    with c have "sep_key b c \<le> t" by (simp add: selects_def)
    with slots_before_child [OF ord cl that] show ?thesis by simp
  qed
  from sp have inside: "set post \<subseteq> set (dtree_slots (ts ! c))" by (auto simp: splits_at_def)
  have "dtree_slots (ts ! c) \<noteq> []"
    using node_orderedD(1,3) [OF ord] cl by (auto simp: child_bounds_def)
  then have "splits_at (dtree_slots (DNode b ts)) t (?L @ pre) leaf (post @ ?R)"
    using sp L node_slots_split [OF cl, of b] by (auto simp: splits_at_def)
  moreover have "right_bound t (post @ ?R) nk nk'"
    by (rule right_bound_extend [OF rb ord c inside])
  moreover have "next_leaf P cm ns depth (DNode b ts) (post @ ?R) nk'"
  proof (cases "post = []")
    case False
    with next_leaf_inner [OF DNode.prems c rb inside nl] show ?thesis by simp
  next
    case True
    show ?thesis
    proof (cases "c + 1 < length ts")
      case more: True
      have "next_leaf P cm ns depth (DNode b ts) ?R (Some (sep_key b (c + 1)))"
        by (rule next_leaf_outer [OF DNode.prems more]) (use DNode.IH nth_mem [OF more] in blast)
      with True more rb show ?thesis by (simp add: right_bound_def)
    qed (use True in \<open>simp add: next_leaf_def\<close>)
  qed
  ultimately show ?case using rec step by (metis dtree_block.simps(2))
qed

section \<open>The lookups as searches of the ordered slot list\<close>

lemma good_leaf_sorted:
  assumes "good_leaf b"
  shows "sorted_wrt (<) (map slot_key (leaf_slots b))"
  unfolding sorted_wrt_map sorted_wrt_iff_nth_less
  using assms leaf_slots_ascending by (auto simp: leaf_slots_def good_leaf_def)

lemma sorted_wrt_concat_bounds:
  fixes key :: "'s \<Rightarrow> 'k::linorder"
  assumes "\<And>i. i < length xss \<Longrightarrow> sorted_wrt (<) (map key (xss ! i))"
    and "\<And>i j x y. i < j \<Longrightarrow> j < length xss \<Longrightarrow> x \<in> set (xss ! i) \<Longrightarrow> y \<in> set (xss ! j) \<Longrightarrow> key x < key y"
  shows "sorted_wrt (<) (map key (concat xss))"
  using assms
proof (induction xss)
  case (Cons xs xss)
  have "sorted_wrt (<) (map key (concat xss))"
    by (rule Cons.IH) (use Cons.prems(1) [of "Suc i" for i] Cons.prems(2) [of "Suc i" "Suc j" for i j] in auto)
  moreover have "key x < key y" if "x \<in> set xs" "y \<in> set (concat xss)" for x y
  proof -
    from that(2) obtain j where "j < length xss" "y \<in> set (xss ! j)" by (auto simp: in_set_conv_nth [where xs = xss])
    with Cons.prems(2) [of 0 "Suc j" x y] that(1) show ?thesis by simp
  qed
  ultimately show ?case using Cons.prems(1) [of 0] by (auto simp: sorted_wrt_append)
qed simp

lemma loaded_sorted: "loaded P cm ns fuel depth d addr \<Longrightarrow> sorted_wrt (<) (map slot_key (dtree_slots d))"
proof (induction d arbitrary: fuel depth addr)
  case (DLeaf b)
  then show ?case using good_leaf_sorted loaded_leaf by simp
next
  case (DNode b ts)
  note ord = loaded_node_ordered(1) [OF DNode.prems]
  note len = node_orderedD(1) [OF ord]
  from DNode.prems obtain fuel' where kids: "\<forall>i < tb_nritems b. \<exists>kp. tb_key_ptr b i = Ok kp \<and>
       loaded P cm ns fuel' (depth + 1) (ts ! i) (kp_blockptr kp)" by (rule loaded_nodeD)
  have "slot_key x < slot_key y"
    if ij: "i < j" "j < length ts" and x: "x \<in> set (dtree_slots (ts ! i))"
      and y: "y \<in> set (dtree_slots (ts ! j))" for i j x y
  proof -
    from ij x have "x \<in> set (concat (map dtree_slots (take j ts)))"
      by (auto simp: set_conv_nth [of "take j ts"] intro!: bexI [of _ "ts ! i"] exI [of _ i])
    with slots_before_child [OF ord ij(2)] have "slot_key x < sep_key b j" by blast
    moreover from node_orderedD(3) [OF ord, of j] ij y len have "sep_key b j \<le> slot_key y"
      by (auto simp: child_bounds_def)
    ultimately show ?thesis by simp
  qed
  moreover have "sorted_wrt (<) (map slot_key (dtree_slots (ts ! i)))" if "i < length ts" for i
    using kids DNode.IH [OF nth_mem [OF that]] that len by auto
  ultimately have "sorted_wrt (<) (map slot_key (concat (map dtree_slots ts)))"
    by (intro sorted_wrt_concat_bounds) simp_all
  then show ?case by simp
qed

lemma find_eq_sorted:
  fixes key :: "'s \<Rightarrow> 'k::linorder"
  assumes "sorted_wrt (<) (map key ss)"
  shows "find (\<lambda>s. key s = t) ss =
    (case find (\<lambda>s. t \<le> key s) ss of Some s \<Rightarrow> if key s = t then Some s else None | None \<Rightarrow> None)"
  using assms
proof (induction ss)
  case (Cons s ss)
  show ?case
  proof (cases "t \<le> key s")
    case True
    with Cons.prems have "key s \<noteq> t \<Longrightarrow> find (\<lambda>s. key s = t) ss = None"
      by (fastforce simp: find_None_iff)
    with True show ?thesis by simp
  next
    case False
    with Cons show ?thesis by force
  qed
qed simp

lemma tree_ok_loaded:
  assumes "tree_ok P cm ns root"
  obtains d where "loaded P cm ns 16 0 d root" "tree_slots P cm ns root = dtree_slots d"
    "read_tree_block P cm ns root = Ok (dtree_block d)"
  using assms load_tree_block
  by (auto simp: tree_ok_def tree_slots_def tree_of_def loaded_def MAX_TREE_DEPTH_def
      split: option.splits)

lemma tree_slots_sorted:
  "tree_ok P cm ns root \<Longrightarrow> sorted_wrt (<) (map slot_key (tree_slots P cm ns root))"
  by (elim tree_ok_loaded) (simp add: loaded_sorted)

lemma good_leaf_search:
  "good_leaf b \<Longrightarrow> binary_search_leaf b t = Ok (map_option snd (find (\<lambda>s. t \<le> slot_key s) (leaf_slots b)))"
  by (simp add: good_leaf_def binary_search_leaf_eq)

lemma leaf_slots_find_fst: "find Q (leaf_slots b) = Some s \<Longrightarrow> s = (b, snd s) \<and> snd s < tb_nritems b"
  by (auto simp: find_Some_iff leaf_slots_def)

lemma descend_to_leaf_splits:
  assumes "tree_ok P cm ns root"
  obtains pre leaf post nk' where "descend_to_leaf P cm ns root t = Ok (leaf, nk')"
    "splits_at (tree_slots P cm ns root) t pre leaf post" "right_bound t post None nk'"
    "post = [] \<or> (\<exists>k leaf2 post2 nk2. nk' = Some k \<and> post = leaf_slots leaf2 @ post2 \<and>
       leaf_slots leaf2 \<noteq> [] \<and> good_leaf leaf2 \<and> descend_to_leaf P cm ns root k = Ok (leaf2, nk2))"
proof -
  from assms obtain d where ld: "loaded P cm ns 16 0 d root"
    and ss: "tree_slots P cm ns root = dtree_slots d"
    and rd: "read_tree_block P cm ns root = Ok (dtree_block d)" by (rule tree_ok_loaded)
  have dl: "descend_to_leaf P cm ns root k = descend_loop P cm ns k (dtree_block d) None 0" for k
    by (simp add: descend_to_leaf_def rd)
  from descend_loop_splits [OF ld, of t None] obtain pre leaf post nk' where
      "descend_loop P cm ns t (dtree_block d) None 0 = Ok (leaf, nk')"
      "splits_at (dtree_slots d) t pre leaf post" "right_bound t post None nk'"
    and nl: "next_leaf P cm ns 0 d post nk'" by blast
  moreover from nl have "post = [] \<or> (\<exists>k leaf2 post2 nk2. nk' = Some k \<and> post = leaf_slots leaf2 @ post2 \<and>
       leaf_slots leaf2 \<noteq> [] \<and> good_leaf leaf2 \<and> descend_to_leaf P cm ns root k = Ok (leaf2, nk2))"
    unfolding next_leaf_def dl by blast
  ultimately show ?thesis using that ss dl by metis
qed

lemma find_first_ge_eq:
  assumes "tree_ok P cm ns root"
  shows "find_first_ge P cm ns root t = Ok (find (\<lambda>s. t \<le> slot_key s) (tree_slots P cm ns root))"
proof -
  let ?p = "\<lambda>s. t \<le> slot_key s"
  from assms obtain pre leaf post nk' where d: "descend_to_leaf P cm ns root t = Ok (leaf, nk')"
    and sp: "splits_at (tree_slots P cm ns root) t pre leaf post" and rb: "right_bound t post None nk'"
    and nl: "post = [] \<or> (\<exists>k leaf2 post2 nk2. nk' = Some k \<and> post = leaf_slots leaf2 @ post2 \<and>
       leaf_slots leaf2 \<noteq> [] \<and> good_leaf leaf2 \<and> descend_to_leaf P cm ns root k = Ok (leaf2, nk2))"
    by (rule descend_to_leaf_splits)
  from sp have pre: "find ?p pre = None" by (auto simp: splits_at_def find_None_iff not_le)
  with sp have slots: "find ?p (tree_slots P cm ns root) =
      (case find ?p (leaf_slots leaf) of None \<Rightarrow> find ?p post | Some s \<Rightarrow> Some s)"
    by (auto simp: splits_at_def find_append split: option.splits)
  from sp have leaf: "binary_search_leaf leaf t = Ok (map_option snd (find ?p (leaf_slots leaf)))"
    by (simp add: splits_at_def good_leaf_search)
  show ?thesis
  proof (cases "find ?p (leaf_slots leaf)")
    case (Some s)
    with leaf_slots_find_fst [OF Some] show ?thesis
      using slots leaf d by (simp add: find_first_ge_def)
  next
    case None
    show ?thesis
    proof (cases "post = []")
      case True
      with rb have "nk' = None" by (simp add: right_bound_def)
      with True None slots leaf d show ?thesis by (simp add: find_first_ge_def)
    next
      case False
      with nl obtain k leaf2 post2 nk2 where k: "nk' = Some k" and post: "post = leaf_slots leaf2 @ post2"
        and ne: "leaf_slots leaf2 \<noteq> []" and good: "good_leaf leaf2"
        and d2: "descend_to_leaf P cm ns root k = Ok (leaf2, nk2)" by blast
      from ne have n: "0 < tb_nritems leaf2" by (simp add: leaf_slots_def)
      then have hd: "leaf_slots leaf2 = (leaf2, 0) # map (Pair leaf2) [1..<tb_nritems leaf2]"
        by (simp add: leaf_slots_def upt_conv_Cons)
      from False rb k post hd have gt: "t < slot_key (leaf2, 0)" by (auto simp: right_bound_def)
      then have gt': "\<not> slot_key (leaf2, 0) \<le> t" "t \<le> slot_key (leaf2, 0)" by auto
      from good leaf_slots_readable(2) [OF _ n] obtain it where
        "tb_leaf_item leaf2 0 = Ok it" "li_key it = slot_key (leaf2, 0)" by (auto simp: good_leaf_def)
      with gt' n k None slots leaf d d2 post hd show ?thesis
        by (simp add: find_first_ge_def)
    qed
  qed
qed

lemma find_exact_eq:
  assumes "tree_ok P cm ns root"
  shows "find_exact P cm ns root t = Ok (find (\<lambda>s. slot_key s = t) (tree_slots P cm ns root))"
proof -
  let ?p = "\<lambda>s. t \<le> slot_key s" and ?q = "\<lambda>s. slot_key s = t"
  from assms obtain pre leaf post nk' where d: "descend_to_leaf P cm ns root t = Ok (leaf, nk')"
    and sp: "splits_at (tree_slots P cm ns root) t pre leaf post" and rb: "right_bound t post None nk'"
    by (rule descend_to_leaf_splits)
  from sp have pre: "find ?q pre = None" by (auto simp: splits_at_def find_None_iff)
  have post: "find ?q post = None"
    using rb by (fastforce simp: right_bound_def find_None_iff split: if_splits)
  from sp pre post have slots: "find ?q (tree_slots P cm ns root) = find ?q (leaf_slots leaf)"
    by (auto simp: splits_at_def find_append split: option.splits)
  from sp have good: "good_leaf leaf" by (simp add: splits_at_def)
  note leaf = good_leaf_search [OF good, of t] and eq = find_eq_sorted [OF good_leaf_sorted [OF good]]
  show ?thesis
  proof (cases "find ?p (leaf_slots leaf)")
    case None
    with slots eq leaf d show ?thesis by (simp add: find_exact_def)
  next
    case (Some s)
    from leaf_slots_find_fst [OF Some] have s: "s = (leaf, snd s)" and i: "snd s < tb_nritems leaf" by auto
    from good leaf_slots_readable(2) [OF _ i] obtain it where
      "tb_leaf_item leaf (snd s) = Ok it" "li_key it = slot_key (leaf, snd s)"
      by (auto simp: good_leaf_def)
    with Some s i slots eq leaf d show ?thesis by (auto simp: find_exact_def)
  qed
qed

end
