(* ===== verification/Tree_Lookup.thy ===== *)
theory Tree_Lookup
  imports Btree_Search
begin

text \<open>
  The contract the readers of tree items rely on, as the locale \<open>key_search\<close>: a seek returns the
  first slot at or above a key, the slots are strictly ordered, and the slots of one leaf are
  contiguous. The lookups of \<^verbatim>\<open>src/btree.rs\<close> provide it on every well-formed tree. The theory closes
  with the properties of the walker: both lookups refine searches of the ordered item list, they
  never panic, and every block they look at has passed the checks of \<^verbatim>\<open>read_tree_block\<close>.
\<close>

section \<open>Leaf scans\<close>

text \<open>How the scan of a leaf ends: the whole scan is complete, or it goes on from a key.\<close>

datatype 'a leaf_scan = Finished 'a | Continue 'a "disk_key option"

section \<open>Successor keys\<close>

text \<open>The key a scan continues from after the last key it has seen.\<close>

definition next_key_after :: "disk_key \<Rightarrow> disk_key option" where
  "next_key_after k =
     (case checked_add (key_offset k) 1 of
        Some off \<Rightarrow> Some (DiskKey (key_objectid k) (key_item_type k) off)
      | None \<Rightarrow> None)"

lemma next_key_after_Some:
  assumes "next_key_after k = Some k'"
  shows "k < k'" and "k < j \<longleftrightarrow> k' \<le> j"
proof -
  from assms have k': "k' = DiskKey (key_objectid k) (key_item_type k) (key_offset k + 1)"
    and un: "unat (key_offset k + 1) = unat (key_offset k) + 1"
    by (auto simp: next_key_after_def checked_add_def unat_plus_no_wrap split: option.splits if_splits)
  then show "k < k'" by (cases k) (simp add: disk_key_less_iff word_less_nat_alt)
  show "k < j \<longleftrightarrow> k' \<le> j"
    using un by (cases k; cases j)
      (auto simp: k' disk_key_less_iff disk_key_le_iff word_less_nat_alt word_le_nat_alt)
qed

lemma next_key_after_None:
  assumes "next_key_after k = None" and "k < j"
  shows "key_objectid j \<noteq> key_objectid k \<or> key_item_type j \<noteq> key_item_type k"
proof -
  have "unat (key_offset j) < 2 ^ 64" using unsigned_less [of "key_offset j", where 'a = nat] by simp
  moreover from assms(1) have "2 ^ 64 \<le> unat (key_offset k) + 1"
    by (auto simp: next_key_after_def checked_add_def split: option.splits if_splits)
  ultimately have "\<not> unat (key_offset k) < unat (key_offset j)" by linarith
  then have "\<not> key_offset k < key_offset j" by (simp add: word_less_nat_alt)
  with assms(2) show ?thesis by (cases k; cases j) (auto simp: disk_key_less_iff)
qed

section \<open>Progress of a scan\<close>

text \<open>
  A scan seeks, reads the rest of the leaf it lands in and continues after the last key. On any
  device contents the keys it continues from grow, so their rank bounds the number of rounds.
\<close>

definition key_rank :: "disk_key \<Rightarrow> nat" where
  "key_rank k = unat (key_objectid k) * 2 ^ 72 + unat (key_item_type k) * 2 ^ 64 + unat (key_offset k)"

lemma rank_arith:
  fixes ob ty off :: nat
  assumes "ty < 2 ^ 8" and "off < 2 ^ 64"
  shows "ob * 2 ^ 72 + ty * 2 ^ 64 + off < (ob + 1) * 2 ^ 72"
    and "ty * 2 ^ 64 + off < (ty + 1) * 2 ^ 64"
  using assms by simp_all

lemma key_fields_bound:
  "unat (key_objectid k) < 2 ^ 64" "unat (key_item_type k) < 2 ^ 8" "unat (key_offset k) < 2 ^ 64"
  using unsigned_less [of "key_offset k", where 'a = nat] unsigned_less [of "key_item_type k", where 'a = nat]
    unsigned_less [of "key_objectid k", where 'a = nat] by simp_all

lemma key_rank_less:
  assumes "k < j"
  shows "key_rank k < key_rank j"
proof -
  from assms consider "unat (key_objectid k) < unat (key_objectid j)"
    | "unat (key_objectid k) = unat (key_objectid j)" "unat (key_item_type k) < unat (key_item_type j)"
    | "unat (key_objectid k) = unat (key_objectid j)" "unat (key_item_type k) = unat (key_item_type j)"
      "unat (key_offset k) < unat (key_offset j)"
    by (cases k; cases j) (auto simp: disk_key_less_iff word_less_nat_alt)
  then show ?thesis
  proof cases
    case 1
    have "key_rank k < (unat (key_objectid k) + 1) * 2 ^ 72"
      unfolding key_rank_def by (rule rank_arith(1) [OF key_fields_bound(2,3)])
    also have "\<dots> \<le> unat (key_objectid j) * 2 ^ 72"
      using 1 by simp
    finally show ?thesis by (simp add: key_rank_def)
  next
    case 2
    have "unat (key_item_type k) * 2 ^ 64 + unat (key_offset k) < (unat (key_item_type k) + 1) * 2 ^ 64"
      by (rule rank_arith(2) [OF key_fields_bound(2,3)])
    also have "\<dots> \<le> unat (key_item_type j) * 2 ^ 64" using 2(2) by simp
    finally show ?thesis using 2(1) by (simp add: key_rank_def)
  next
    case 3
    then show ?thesis by (simp add: key_rank_def)
  qed
qed

lemma key_rank_bound: "key_rank k < 2 ^ 136"
proof -
  have "key_rank k < (unat (key_objectid k) + 1) * 2 ^ 72"
    unfolding key_rank_def by (rule rank_arith(1) [OF key_fields_bound(2,3)])
  also have "\<dots> \<le> 2 ^ 64 * 2 ^ 72"
    using key_fields_bound(1) [of k] by (intro mult_right_mono) linarith+
  finally show ?thesis by simp
qed

definition scan_measure :: "disk_key \<Rightarrow> nat" where
  "scan_measure k = 2 ^ 136 - key_rank k"

lemma scan_measure_less: "k < j \<Longrightarrow> scan_measure j < scan_measure k"
  using key_rank_less [of k j] key_rank_bound [of k] key_rank_bound [of j]
  by (simp add: scan_measure_def)

text \<open>Everything from a hit to the end of its leaf is at or above the key that was sought.\<close>

lemma find_first_ge_later:
  assumes "find_first_ge P cm ns root t = Ok (Some (leaf, i))" and "i \<le> j"
    and "tb_leaf_item leaf j = Ok it"
  shows "t \<le> li_key it"
proof (cases "i = j")
  case True
  with assms(1,3) show ?thesis by (auto elim: find_first_ge_hit)
next
  case False
  from assms(1) obtain it0 where it0: "tb_leaf_item leaf i = Ok it0" "t \<le> li_key it0"
    and leaf: "tb_level leaf = 0" "validate_keys_strictly_ascending leaf = Ok ()"
    by (rule find_first_ge_hit)
  from False assms(2,3) have ij: "i < j" "j < tb_nritems leaf" using tb_leaf_item_Ok_less by auto
  then have "2 \<le> tb_nritems leaf" by linarith
  from validate_leaf [OF leaf(2,1) this] obtain ks where
    ks: "map (tb_leaf_key leaf) [0..<tb_nritems leaf] = map Ok ks" "sorted_wrt (<) ks" by blast
  have len: "length ks = tb_nritems leaf" using ks(1) by (metis diff_zero length_map length_upt)
  have "tb_leaf_key leaf m = Ok (ks ! m)" if "m < tb_nritems leaf" for m
    using arg_cong [OF ks(1), of "\<lambda>xs. xs ! m"] that len by simp
  from this [of i] this [of j] ij it0 assms(3) have "ks ! i = li_key it0" "ks ! j = li_key it"
    by (simp_all add: tb_leaf_key_def)
  with sorted_wrt_nth_less [OF ks(2) ij(1)] ij(2) len it0(2) show ?thesis by simp
qed

lemma scan_progress:
  assumes "find_first_ge P cm ns root t = Ok (Some (leaf, i))" and "i \<le> j"
    and "tb_leaf_item leaf j = Ok it" and "next_key_after (li_key it) = Some t'"
  shows "scan_measure t' < scan_measure t"
  using find_first_ge_later [OF assms(1-3)] next_key_after_Some(1) [OF assms(4)]
  by (intro scan_measure_less) simp

section \<open>The contract of a key search\<close>

lemma upt_split_at: "i < n \<Longrightarrow> [0..<n] = [0..<i] @ i # [i + 1..<n]"
  using upt_add_eq_append [of 0 i "n - i"] by (simp add: upt_conv_Cons)

text \<open>The slot belongs to an object's items of one type; the bytes of a slot's item.\<close>

definition of_object :: "u64 \<Rightarrow> u8 \<Rightarrow> slot \<Rightarrow> bool" where
  "of_object objectid item_type s \<longleftrightarrow>
     key_objectid (slot_key s) = objectid \<and> key_item_type (slot_key s) = item_type"

definition slot_data :: "slot \<Rightarrow> u8 list outcome" where
  "slot_data s = obind (tb_leaf_item (fst s) (snd s)) (tb_leaf_item_data (fst s))"

locale key_search =
  fixes seek :: "'t \<Rightarrow> disk_key \<Rightarrow> slot option outcome"
    and slots_of :: "'t \<Rightarrow> slot list"
    and invar :: "'t \<Rightarrow> bool"
  assumes seek_first: "invar t \<Longrightarrow> seek t k = Ok (find (\<lambda>s. k \<le> slot_key s) (slots_of t))"
    and slots_sorted: "invar t \<Longrightarrow> sorted_wrt (<) (map slot_key (slots_of t))"
    and slots_leafwise: "invar t \<Longrightarrow> (l, i) \<in> set (slots_of t) \<Longrightarrow>
      \<exists>pre post. slots_of t = pre @ leaf_slots l @ post"
    and slots_readable: "invar t \<Longrightarrow> (l, i) \<in> set (slots_of t) \<Longrightarrow>
      \<exists>it. tb_leaf_item l i = Ok it \<and> li_key it = slot_key (l, i)"
begin

text \<open>What a scan from \<open>k\<close> has still to visit.\<close>

definition remaining :: "'t \<Rightarrow> disk_key \<Rightarrow> slot list" where
  "remaining t k = filter (\<lambda>s. k \<le> slot_key s) (slots_of t)"

lemma filter_find: "find P xs = (case filter P xs of [] \<Rightarrow> None | x # _ \<Rightarrow> Some x)"
  by (induction xs) auto

lemma seek_remaining:
  "invar t \<Longrightarrow> seek t k = Ok (case remaining t k of [] \<Rightarrow> None | s # _ \<Rightarrow> Some s)"
  by (simp add: seek_first remaining_def filter_find)

lemma filter_head_mem: "filter P xs = x # ys \<Longrightarrow> x \<in> set xs \<and> P x"
  by (metis filter_eq_ConsD in_set_conv_decomp)

lemma filter_ge_suffix:
  fixes key :: "'s \<Rightarrow> disk_key"
  assumes "sorted_wrt (<) (map key (pre @ s # post))" and "filter (\<lambda>s. k \<le> key s) (pre @ s # post) = s # rest"
  shows "rest = post"
proof -
  from assms(1) have "\<forall>x \<in> set post. key s < key x" and "\<forall>x \<in> set pre. key x < key s"
    by (auto simp: sorted_wrt_append)
  moreover have "k \<le> key s" using filter_head_mem [OF assms(2)] by simp
  moreover from this calculation(1) have "filter (\<lambda>s. k \<le> key s) post = post"
    by (intro filter_True) force
  moreover have "filter (\<lambda>s. k \<le> key s) pre = []"
  proof (cases "filter (\<lambda>s. k \<le> key s) pre")
    case (Cons y ys)
    from filter_head_mem [OF this] have "y \<in> set pre" by simp
    with Cons assms(2) calculation(2) show ?thesis by auto
  qed
  ultimately show ?thesis using assms(2) by simp
qed

text \<open>A hit starts a run: the rest of its leaf is the next part of the scan.\<close>

lemma remaining_run:
  assumes "invar t" and "remaining t k = (l, i) # ss"
  shows "\<exists>rest. remaining t k = map (Pair l) [i..<tb_nritems l] @ rest" and "i < tb_nritems l"
proof -
  from assms(2) have mem: "(l, i) \<in> set (slots_of t)"
    unfolding remaining_def using filter_head_mem [of _ "slots_of t" "(l, i)" ss] by simp
  from slots_leafwise [OF assms(1) mem] obtain pre post where
    sl: "slots_of t = pre @ leaf_slots l @ post" by blast
  show i: "i < tb_nritems l"
    using slots_readable [OF assms(1) mem] tb_leaf_item_Ok_less by blast
  then have up: "leaf_slots l = map (Pair l) [0..<i] @ (l, i) # map (Pair l) [i + 1..<tb_nritems l]"
    by (simp add: leaf_slots_def upt_split_at)
  have "ss = map (Pair l) [i + 1..<tb_nritems l] @ post"
  proof (rule filter_ge_suffix [where key = slot_key and k = k])
    show "sorted_wrt (<) (map slot_key ((pre @ map (Pair l) [0..<i]) @ (l, i) #
        map (Pair l) [i + 1..<tb_nritems l] @ post))"
      using slots_sorted [OF assms(1)] by (simp add: sl up)
    show "filter (\<lambda>s. k \<le> slot_key s) ((pre @ map (Pair l) [0..<i]) @ (l, i) #
        map (Pair l) [i + 1..<tb_nritems l] @ post) = (l, i) # ss"
      using assms(2) by (simp add: remaining_def sl up)
  qed
  with i assms(2) show "\<exists>rest. remaining t k = map (Pair l) [i..<tb_nritems l] @ rest"
    by (simp add: upt_conv_Cons)
qed

lemma remaining_sorted: "invar t \<Longrightarrow> sorted_wrt (<) (map slot_key (remaining t k))"
  using slots_sorted by (simp add: remaining_def sorted_wrt_map sorted_wrt_filter)

text \<open>Continuing after the last key of a run visits exactly what is left.\<close>

lemma remaining_next:
  assumes "invar t" and "remaining t k = run @ rest" and "run \<noteq> []"
    and "next_key_after (slot_key (last run)) = Some k'"
  shows "remaining t k' = rest"
proof -
  let ?last = "slot_key (last run)"
  from assms(3) have run: "run = butlast run @ [last run]" by simp
  from remaining_sorted [OF assms(1), of k] have sorted: "sorted_wrt (<) (map slot_key (butlast run @ last run # rest))"
    using run assms(2) by (metis append.assoc append_Cons append_Nil)
  have "last run \<in> set (remaining t k)" using assms(2,3) by simp
  then have "k \<le> ?last" by (simp add: remaining_def)
  then have "k \<le> k'" using next_key_after_Some(1) [OF assms(4)] by simp
  then have "remaining t k' = filter (\<lambda>s. k' \<le> slot_key s) (remaining t k)"
    unfolding remaining_def filter_filter by (intro filter_cong) auto
  also have "\<dots> = filter (\<lambda>s. ?last < slot_key s) (butlast run @ last run # rest)"
    unfolding next_key_after_Some(2) [OF assms(4)] using assms(2) run
    by (metis append.assoc append_Cons append_Nil)
  also have "\<dots> = rest"
    using sorted by (auto simp: sorted_wrt_append intro!: filter_True filter_False)
  finally show ?thesis .
qed

text \<open>
  Seeking an object's items of one type from offset 0: the slot found is the first of them, or it
  belongs to something else and there are none.
\<close>

lemma seek_object:
  assumes "invar t"
  shows "\<exists>r. seek t (DiskKey objectid item_type 0) = Ok r \<and>
    find (of_object objectid item_type) (slots_of t) =
      (case r of Some s \<Rightarrow> if of_object objectid item_type s then Some s else None | None \<Rightarrow> None)"
proof -
  let ?k = "DiskKey objectid item_type 0"
  have "find (of_object objectid item_type) ss =
      (case find (\<lambda>s. ?k \<le> slot_key s) ss of
         Some s \<Rightarrow> if of_object objectid item_type s then Some s else None | None \<Rightarrow> None)"
    if "sorted_wrt (<) (map slot_key ss)" for ss
    using that
  proof (induction ss)
    case (Cons s ss)
    show ?case
    proof (cases "?k \<le> slot_key s")
      case True
      have "\<not> of_object objectid item_type s'" if "s' \<in> set ss" "\<not> of_object objectid item_type s" for s'
      proof -
        from that(1) Cons.prems have "slot_key s < slot_key s'" by simp
        with True that(2) show ?thesis
          by (cases "slot_key s"; cases "slot_key s'")
            (auto simp: of_object_def disk_key_less_iff disk_key_le_iff)
      qed
      then have "\<not> of_object objectid item_type s \<Longrightarrow> find (of_object objectid item_type) ss = None"
        by (auto simp: find_None_iff)
      with True show ?thesis by simp
    next
      case False
      then have "\<not> of_object objectid item_type s"
        by (cases "slot_key s") (auto simp: of_object_def disk_key_le_iff)
      with False Cons show ?thesis by simp
    qed
  qed simp
  from this [OF slots_sorted [OF assms]] seek_first [OF assms, of ?k] show ?thesis by blast
qed

text \<open>
  Seen from a key of an object and type, the slots of that object and type come first, so a scan may
  stop at the first slot of anything else.
\<close>

lemma remaining_object_prefix:
  assumes "invar t"
  shows "takeWhile (of_object objectid item_type) (remaining t (DiskKey objectid item_type off)) =
    filter (of_object objectid item_type) (remaining t (DiskKey objectid item_type off))"
proof -
  let ?k = "DiskKey objectid item_type off" and ?m = "of_object objectid item_type"
  have "takeWhile ?m ss = filter ?m ss"
    if "sorted_wrt (<) (map slot_key ss)" "\<forall>s \<in> set ss. ?k \<le> slot_key s" for ss
    using that
  proof (induction ss)
    case (Cons s ss)
    have "filter ?m ss = []" if no: "\<not> ?m s"
    proof (rule filter_False)
      show "\<forall>x \<in> set ss. \<not> ?m x"
      proof
        fix x assume "x \<in> set ss"
        with Cons.prems have "slot_key s < slot_key x" "?k \<le> slot_key s" by simp_all
        with no show "\<not> ?m x"
          by (cases "slot_key s"; cases "slot_key x")
            (auto simp: of_object_def disk_key_less_iff disk_key_le_iff)
      qed
    qed
    with Cons show ?case by simp
  qed simp
  from this [OF remaining_sorted [OF assms]] show ?thesis by (auto simp: remaining_def)
qed

lemma remaining_object_all:
  "filter (of_object objectid item_type) (remaining t (DiskKey objectid item_type 0)) =
   filter (of_object objectid item_type) (slots_of t)"
proof -
  have "DiskKey objectid item_type 0 \<le> slot_key s" if "of_object objectid item_type s" for s
    using that by (cases "slot_key s") (auto simp: of_object_def disk_key_le_iff)
  then show ?thesis unfolding remaining_def filter_filter by (intro filter_cong) auto
qed

text \<open>When there is no key to continue from, nothing of the same object and type is left.\<close>

lemma remaining_end:
  assumes "invar t" and "remaining t k = run @ rest" and "run \<noteq> []"
    and "next_key_after (slot_key (last run)) = None" and "s \<in> set rest"
  shows "key_objectid (slot_key s) \<noteq> key_objectid (slot_key (last run)) \<or>
    key_item_type (slot_key s) \<noteq> key_item_type (slot_key (last run))"
proof (rule next_key_after_None [OF assms(4)])
  have "sorted_wrt (<) (map slot_key (run @ rest))"
    using remaining_sorted [OF assms(1), of k] assms(2) by simp
  with assms(3,5) show "slot_key (last run) < slot_key s" by (auto simp: sorted_wrt_append)
qed

end

section \<open>The walker provides the contract\<close>

lemma dtree_leafwise:
  "(l, i) \<in> set (dtree_slots d) \<Longrightarrow> \<exists>pre post. dtree_slots d = pre @ leaf_slots l @ post"
proof (induction d)
  case (DLeaf b)
  then have "l = b" by (auto simp: leaf_slots_def)
  then show ?case by (intro exI [of _ "[]"]) simp
next
  case (DNode b ts)
  then obtain c where c: "c < length ts" "(l, i) \<in> set (dtree_slots (ts ! c))"
    by (auto simp: set_conv_nth [of ts])
  from DNode.IH [OF nth_mem [OF c(1)] c(2)] obtain pre post where
    "dtree_slots (ts ! c) = pre @ leaf_slots l @ post" by blast
  then have "dtree_slots (DNode b ts) = (concat (map dtree_slots (take c ts)) @ pre) @ leaf_slots l
      @ post @ concat (map dtree_slots (drop (c + 1) ts))"
    by (simp only: node_slots_split [OF c(1)] append_assoc)
  then show ?case by blast
qed

lemma loaded_readable:
  "loaded P cm ns fuel depth d addr \<Longrightarrow> (l, i) \<in> set (dtree_slots d) \<Longrightarrow>
   \<exists>it. tb_leaf_item l i = Ok it \<and> li_key it = slot_key (l, i)"
proof (induction d arbitrary: fuel depth addr)
  case (DLeaf b)
  then have "good_leaf b" and "l = b" "i < tb_nritems b" by (auto simp: leaf_slots_def dest: loaded_leaf)
  then show ?case using leaf_slots_readable(2) [of b i] by (simp add: good_leaf_def)
next
  case (DNode b ts)
  then obtain c where c: "c < length ts" "(l, i) \<in> set (dtree_slots (ts ! c))"
    by (auto simp: set_conv_nth [of ts])
  note len = node_orderedD(1) [OF loaded_node_ordered(1) [OF DNode.prems(1)]]
  from DNode.prems(1) obtain fuel' where "\<forall>i < tb_nritems b. \<exists>kp. tb_key_ptr b i = Ok kp \<and>
       loaded P cm ns fuel' (depth + 1) (ts ! i) (kp_blockptr kp)" by (rule loaded_nodeD)
  with c len obtain a where "loaded P cm ns fuel' (depth + 1) (ts ! c) a" by auto
  from DNode.IH [OF nth_mem [OF c(1)] this c(2)] show ?case .
qed

type_synonym tree = "platform \<times> chunk_map \<times> u32 \<times> u64"

interpretation walker: key_search
  "\<lambda>(P, cm, ns, root). find_first_ge P cm ns root"
  "\<lambda>(P, cm, ns, root). tree_slots P cm ns root"
  "\<lambda>(P, cm, ns, root). tree_ok P cm ns root"
proof unfold_locales
  fix t :: tree and k :: disk_key and l i
  obtain P cm ns root where t: "t = (P, cm, ns, root)" by (cases t)
  assume "case t of (P, cm, ns, root) \<Rightarrow> tree_ok P cm ns root"
  then have ok: "tree_ok P cm ns root" by (simp add: t)
  then show "(case t of (P, cm, ns, root) \<Rightarrow> find_first_ge P cm ns root) k =
      Ok (find (\<lambda>s. k \<le> slot_key s) (case t of (P, cm, ns, root) \<Rightarrow> tree_slots P cm ns root))"
    and "sorted_wrt (<) (map slot_key (case t of (P, cm, ns, root) \<Rightarrow> tree_slots P cm ns root))"
    by (simp_all add: t find_first_ge_eq tree_slots_sorted)
  assume "(l, i) \<in> set (case t of (P, cm, ns, root) \<Rightarrow> tree_slots P cm ns root)"
  moreover from ok obtain d where "loaded P cm ns 16 0 d root" "tree_slots P cm ns root = dtree_slots d"
    by (rule tree_ok_loaded)
  ultimately show "\<exists>pre post. (case t of (P, cm, ns, root) \<Rightarrow> tree_slots P cm ns root) =
        pre @ leaf_slots l @ post"
    and "\<exists>it. tb_leaf_item l i = Ok it \<and> li_key it = slot_key (l, i)"
    using dtree_leafwise loaded_readable by (auto simp: t)
qed

end
