(* ===== verification/Block_Image.thy ===== *)
theory Block_Image
  imports Tree_Lookup
begin

text \<open>
  Tree blocks written to bytes and read back. The encoders lay a header and its item or pointer array
  out as the format does; reading an encoded block through the chunk map returns the header and the
  items it was made of. The theory also builds a small volume (a root with two leaves) on which the
  properties of the tree readers are exercised.
\<close>

section \<open>Encoded blocks\<close>

definition encode_header :: "header \<Rightarrow> u8 list" where
  "encode_header h =
     hd_csum h @ hd_fsid h @ le_bytes (hd_bytenr h) @ le_bytes (hd_flags h) @ hd_chunk_tree_uuid h
     @ le_bytes (hd_generation h) @ le_bytes (hd_owner h) @ le_bytes (hd_nritems h) @ [hd_level h]"

definition header_ok :: "header \<Rightarrow> bool" where
  "header_ok h \<longleftrightarrow> length (hd_csum h) = 32 \<and> length (hd_fsid h) = 16 \<and> length (hd_chunk_tree_uuid h) = 16"

lemma length_encode_header: "header_ok h \<Longrightarrow> length (encode_header h) = 101"
  by (simp add: header_ok_def encode_header_def)

lemma header_of_encoded: "header_ok h \<Longrightarrow> header_of (encode_header h @ body) = h"
  by (cases h)
    (simp add: header_ok_def header_of_def encode_header_def le_field_def nth_append
      from_le_bytes_le_bytes)

text \<open>The \<open>i\<close>th record of an array of equally sized encoded records.\<close>

lemma concat_split_nth:
  assumes "\<And>x. x \<in> set xs \<Longrightarrow> length (f x) = n" and "i < length xs"
  shows "concat (map f xs) = concat (map f (take i xs)) @ f (xs ! i) @ concat (map f (drop (i + 1) xs))"
    and "length (concat (map f (take i xs))) = i * n"
proof -
  show "concat (map f xs) = concat (map f (take i xs)) @ f (xs ! i) @ concat (map f (drop (i + 1) xs))"
    using id_take_nth_drop [OF assms(2)]
    by (metis Suc_eq_plus1 concat.simps(2) concat_append list.simps(9) map_append)
  have "length (concat (map f ys)) = length ys * n" if "set ys \<subseteq> set xs" for ys
    using that assms(1) by (induction ys) auto
  from this [OF set_take_subset, of i] show "length (concat (map f (take i xs))) = i * n"
    using assms(2) by simp
qed

definition leaf_block :: "header \<Rightarrow> leaf_item list \<Rightarrow> u8 list \<Rightarrow> tree_block" where
  "leaf_block h items rest =
     \<lparr>tb_header = h, tb_body = encode_header h @ concat (map encode_leaf_item items) @ rest\<rparr>"

definition node_block :: "header \<Rightarrow> key_ptr list \<Rightarrow> u8 list \<Rightarrow> tree_block" where
  "node_block h ptrs rest =
     \<lparr>tb_header = h, tb_body = encode_header h @ concat (map encode_key_ptr ptrs) @ rest\<rparr>"

lemma leaf_block_sel [simp]: "tb_header (leaf_block h items rest) = h"
  by (simp add: leaf_block_def)

lemma node_block_sel [simp]: "tb_header (node_block h ptrs rest) = h"
  by (simp add: node_block_def)

lemma leaf_block_item:
  assumes "header_ok h" and "unat (hd_nritems h) = length items" and "i < length items"
  shows "tb_leaf_item (leaf_block h items rest) i = Ok (items ! i)"
proof -
  note sp = concat_split_nth [of items encode_leaf_item 25 i, simplified, OF assms(3)]
  let ?pre = "encode_header h @ concat (map encode_leaf_item (take i items))"
  let ?post = "concat (map encode_leaf_item (drop (i + 1) items)) @ rest"
  have body: "tb_body (leaf_block h items rest) = ?pre @ encode_leaf_item (items ! i) @ ?post"
    using sp(1) by (simp add: leaf_block_def)
  have len: "length ?pre = 101 + i * 25"
    using sp(2) assms(1) by (simp add: length_encode_header)
  show ?thesis
    using leaf_item_roundtrip [of ?pre "items ! i" ?post] assms(2,3)
    unfolding tb_leaf_item_def body by (simp add: sp(2) length_encode_header [OF assms(1)] layout Let_def)
qed

lemma node_block_ptr:
  assumes "header_ok h" and "unat (hd_nritems h) = length ptrs" and "i < length ptrs"
  shows "tb_key_ptr (node_block h ptrs rest) i = Ok (ptrs ! i)"
proof -
  note sp = concat_split_nth [of ptrs encode_key_ptr 33 i, simplified, OF assms(3)]
  let ?pre = "encode_header h @ concat (map encode_key_ptr (take i ptrs))"
  let ?post = "concat (map encode_key_ptr (drop (i + 1) ptrs)) @ rest"
  have body: "tb_body (node_block h ptrs rest) = ?pre @ encode_key_ptr (ptrs ! i) @ ?post"
    using sp(1) by (simp add: node_block_def)
  have len: "length ?pre = 101 + i * 33"
    using sp(2) assms(1) by (simp add: length_encode_header)
  show ?thesis
    using key_ptr_roundtrip [of ?pre "ptrs ! i" ?post] assms(2,3)
    unfolding tb_key_ptr_def body by (simp add: sp(2) length_encode_header [OF assms(1)] layout Let_def)
qed

section \<open>Reading a block back\<close>

lemma read_block_from_contiguous:
  assumes "chunk_map_resolve cm a = Ok r" and "n \<le> rs_contiguous_bytes r"
    and "reader_read P (rs_physical r) (unat n) = Some bs" and "0 < n"
  shows "read_block_from P cm logical a n acc = Ok (acc @ bs)"
proof -
  have "plain_add a n = Ok (a + n)"
    using chunks.cursor_step_safe(1) [OF assms(1), of "unat n"] assms(2) by (simp add: word_le_nat_alt)
  moreover have "plain_sub n n = Ok 0" by (simp add: plain_sub_def)
  moreover have "min n (rs_contiguous_bytes r) = n" using assms(2) by simp
  moreover have "read_block_from P cm logical c 0 xs = Ok xs" for c xs
    by (simp add: read_block_from.simps)
  ultimately show ?thesis
    using assms
    by (subst read_block_from.simps) (simp add: Let_def)
qed

lemma read_tree_block_contiguous:
  assumes "chunk_map_resolve cm a = Ok r" and "ucast ns \<le> rs_contiguous_bytes r"
    and "reader_read P (rs_physical r) (unat ns) = Some (tb_body b)" and "101 \<le> unat ns"
    and "tb_header b = header_of (tb_body b)" and "tb_bytenr b = a"
    and "verify_crc32c P (drop 32 (tb_body b)) (take 32 (tb_body b))"
    and "validate_keys_strictly_ascending b = Ok ()"
  shows "read_tree_block P cm ns a = Ok b"
proof -
  have len: "length (tb_body b) = unat ns" using reader_read_length [OF assms(3)] .
  have "(0 :: u64) < ucast ns"
    using assms(4) by (simp add: word_less_nat_alt unat_ucast_u32_u64)
  with assms(1-3) have "read_block_from P cm a a (ucast ns) [] = Ok (tb_body b)"
    by (subst read_block_from_contiguous) (auto simp: unat_ucast_u32_u64)
  moreover have eq: "\<lparr>tb_header = header_of (tb_body b), tb_body = tb_body b\<rparr> = b"
    using assms(5) by simp
  moreover have "hd_csum (header_of (tb_body b)) = take 32 (tb_body b)" by (simp add: header_of_def)
  ultimately show ?thesis
    using assms(4-8) len
    by (simp add: read_tree_block_def header_parse_eq Let_def format_consts slice_def eq)
qed

section \<open>A small volume\<close>

text \<open>
  One chunk maps the logical range onto the device. Block 0 is a root with two children, at 168 and
  at 336; the first leaf holds two items, the second one. The checksum function is constant, so the
  stored checksums are zero.
\<close>

definition example_header :: "u64 \<Rightarrow> u32 \<Rightarrow> u8 \<Rightarrow> header" where
  "example_header bytenr nritems level =
     \<lparr>hd_csum = replicate 32 0, hd_fsid = replicate 16 0, hd_bytenr = bytenr, hd_flags = 0,
      hd_chunk_tree_uuid = replicate 16 0, hd_generation = 1, hd_owner = 5, hd_nritems = nritems,
      hd_level = level\<rparr>"

definition example_root :: tree_block where
  "example_root = node_block (example_header 0 2 1)
     [\<lparr>kp_key = DiskKey 5 1 0, kp_blockptr = 168, kp_generation = 1\<rparr>,
      \<lparr>kp_key = DiskKey 7 1 0, kp_blockptr = 336, kp_generation = 1\<rparr>] [0]"

definition example_leaf1 :: tree_block where
  "example_leaf1 = leaf_block (example_header 168 2 0)
     [\<lparr>li_key = DiskKey 5 1 0, li_offset = 63, li_size = 4\<rparr>,
      \<lparr>li_key = DiskKey 6 1 0, li_offset = 59, li_size = 4\<rparr>] (replicate 17 0)"

definition example_leaf2 :: tree_block where
  "example_leaf2 = leaf_block (example_header 336 1 0)
     [\<lparr>li_key = DiskKey 8 1 0, li_offset = 63, li_size = 4\<rparr>] (replicate 42 0)"

lemmas example_blocks = example_root_def example_leaf1_def example_leaf2_def

definition example_platform :: platform where
  "example_platform =
     slice_platform (tb_body example_root @ tb_body example_leaf1 @ tb_body example_leaf2)
       (\<lambda>_. 0) (\<lambda>_. True)"

definition example_volume_map :: chunk_map where
  "example_volume_map =
     \<lparr>mappings =
        [\<lparr>cm_logical = 0, cm_length = 504, cm_ty = 0, cm_stripe_len = 65536, cm_num_stripes = 1,
          cm_sub_stripes = 1,
          cm_stripes = [\<lparr>st_devid = 1, st_offset = 0, st_dev_uuid = replicate 16 0\<rparr>]\<rparr>],
      local_devid = Some 1\<rparr>"

lemma example_header_ok [simp]: "header_ok (example_header a n l)"
  by (simp add: header_ok_def example_header_def)

lemma example_header_sel [simp]:
  "hd_bytenr (example_header a n l) = a" "hd_nritems (example_header a n l) = n"
  "hd_level (example_header a n l) = l"
  by (simp_all add: example_header_def)

lemma example_items:
  "tb_leaf_item example_leaf1 0 = Ok \<lparr>li_key = DiskKey 5 1 0, li_offset = 63, li_size = 4\<rparr>"
  "tb_leaf_item example_leaf1 1 = Ok \<lparr>li_key = DiskKey 6 1 0, li_offset = 59, li_size = 4\<rparr>"
  "tb_leaf_item example_leaf2 0 = Ok \<lparr>li_key = DiskKey 8 1 0, li_offset = 63, li_size = 4\<rparr>"
  "tb_key_ptr example_root 0 = Ok \<lparr>kp_key = DiskKey 5 1 0, kp_blockptr = 168, kp_generation = 1\<rparr>"
  "tb_key_ptr example_root 1 = Ok \<lparr>kp_key = DiskKey 7 1 0, kp_blockptr = 336, kp_generation = 1\<rparr>"
  unfolding example_blocks by (subst leaf_block_item node_block_ptr; simp)+

lemma example_heads:
  "tb_header example_root = example_header 0 2 1" "tb_header example_leaf1 = example_header 168 2 0"
  "tb_header example_leaf2 = example_header 336 1 0"
  by (simp_all add: example_blocks)

lemma example_body:
  "length (tb_body example_root) = 168" "length (tb_body example_leaf1) = 168"
  "length (tb_body example_leaf2) = 168"
  by (simp_all add: example_blocks leaf_block_def node_block_def length_encode_header)

lemma upt_1_2: "[Suc 0..<2] = [Suc 0]" "[0..<2] = [0, Suc 0]"
  by (simp_all add: upt_rec)

lemma example_valid:
  "validate_keys_strictly_ascending example_root = Ok ()"
  "validate_keys_strictly_ascending example_leaf1 = Ok ()"
  "validate_keys_strictly_ascending example_leaf2 = Ok ()"
  by (simp_all add: validate_keys_strictly_ascending_def example_heads tb_leaf_key_def tb_node_key_def
      example_items [unfolded One_nat_def] Let_def disk_key_le_iff upt_1_2)

lemma example_resolve:
  "unat a < 504 \<Longrightarrow> chunk_map_resolve example_volume_map a =
   Ok \<lparr>rs_devid = 1, rs_physical = a, rs_contiguous_bytes = 504 - a\<rparr>"
  by (simp add: chunk_map_resolve_def example_volume_map_def partition_point_def get_before_def
      pick_stripe_def chunk_profile_def format_consts checked_add_def plain_sub_def word_le_nat_alt Let_def)

lemma example_read:
  assumes "b = example_root \<and> a = 0 \<or> b = example_leaf1 \<and> a = 168 \<or> b = example_leaf2 \<and> a = 336"
  shows "read_tree_block example_platform example_volume_map 168 a = Ok b"
proof (rule read_tree_block_contiguous)
  show "chunk_map_resolve example_volume_map a = Ok \<lparr>rs_devid = 1, rs_physical = a, rs_contiguous_bytes = 504 - a\<rparr>"
    using assms by (intro example_resolve) auto
  show "reader_read example_platform (rs_physical \<lparr>rs_devid = 1, rs_physical = a, rs_contiguous_bytes = 504 - a\<rparr>)
      (unat (168 :: u32)) = Some (tb_body b)"
    using assms unfolding example_platform_def
    by (subst reader_read_slice_platform) (auto simp: example_body usize_max_def)
  show "tb_header b = header_of (tb_body b)"
    using assms by (auto simp: example_blocks leaf_block_def node_block_def header_of_encoded)
  show "verify_crc32c example_platform (drop 32 (tb_body b)) (take 32 (tb_body b))"
  proof -
    have "take 32 (tb_body b) = replicate 32 0"
      using assms by (elim disjE) (simp_all add: example_blocks leaf_block_def node_block_def
          encode_header_def example_header_def)
    then show ?thesis
      by (simp add: verify_crc32c_def crc32c_def example_platform_def slice_platform_def
          from_le_bytes_def)
  qed
qed (use assms example_valid example_heads in auto)

lemma example_tree:
  "tree_of example_platform example_volume_map 168 0 =
   Some (DNode example_root [DLeaf example_leaf1, DLeaf example_leaf2])"
proof -
  have "load_tree example_platform example_volume_map 168 15 168 = Some (DLeaf example_leaf1)"
    "load_tree example_platform example_volume_map 168 15 336 = Some (DLeaf example_leaf2)"
    using example_read [of example_leaf1 168] example_read [of example_leaf2 336]
    by (simp_all add: numeral_eq_Suc example_heads)
  then have "load_tree example_platform example_volume_map 168 (Suc 15) 0 =
      Some (DNode example_root [DLeaf example_leaf1, DLeaf example_leaf2])"
    unfolding load_tree.simps(2) using example_read [of example_root 0] example_items(4,5)
    by (simp add: example_heads upt_1_2)
  then show ?thesis by (simp add: tree_of_def MAX_TREE_DEPTH_def)
qed

lemma example_slots:
  "tree_slots example_platform example_volume_map 168 0 =
     [(example_leaf1, 0), (example_leaf1, 1), (example_leaf2, 0)]"
  by (simp add: tree_slots_def example_tree leaf_slots_def example_heads upt_1_2)

lemma example_keys:
  "slot_key (example_leaf1, 0) = DiskKey 5 1 0" "slot_key (example_leaf1, Suc 0) = DiskKey 6 1 0"
  "slot_key (example_leaf2, 0) = DiskKey 8 1 0"
  "sep_key example_root 0 = DiskKey 5 1 0" "sep_key example_root (Suc 0) = DiskKey 7 1 0"
  using example_items
  by (simp_all add: slot_key_def sep_key_def tb_leaf_key_def tb_node_key_def)

lemma example_tree_ok: "tree_ok example_platform example_volume_map 168 0"
  by (simp add: tree_ok_def example_tree child_bounds_def leaf_slots_def example_heads upt_1_2
      example_items [unfolded One_nat_def] example_keys disk_key_less_iff disk_key_le_iff)

section \<open>Properties of the walker\<close>

text \<open>
  C6. \<open>find_first_ge\<close> on a well-formed tree returns the first slot of the ordered item list whose key
  is at least the target, or nothing when every key is below it, whatever leaf the slot lies in; in
  particular it never reports corruption.
\<close>

theorem find_first_ge_refines:
  assumes "tree_ok P cm nodesize root"
  shows "find_first_ge P cm nodesize root target =
    Ok (find (\<lambda>s. target \<le> slot_key s) (tree_slots P cm nodesize root))"
  using walker.seek_first [of "(P, cm, nodesize, root)" target] assms by simp

theorem find_first_ge_refines_witness:
  "tree_ok example_platform example_volume_map 168 0 \<and>
   find_first_ge example_platform example_volume_map 168 0 (DiskKey 6 1 9) = Ok (Some (example_leaf2, 0))"
  using find_first_ge_refines [OF example_tree_ok, of "DiskKey 6 1 9"] example_tree_ok
  by (simp add: example_slots example_keys disk_key_le_iff)

text \<open>
  C7. \<open>find_exact\<close> on a well-formed tree returns the slot that holds the target key, and nothing when
  no slot does.
\<close>

theorem find_exact_refines:
  assumes "tree_ok P cm nodesize root"
  shows "find_exact P cm nodesize root target =
    Ok (find (\<lambda>s. slot_key s = target) (tree_slots P cm nodesize root))"
  using assms by (rule find_exact_eq)

theorem find_exact_refines_witness:
  "tree_ok example_platform example_volume_map 168 0 \<and>
   find_exact example_platform example_volume_map 168 0 (DiskKey 6 1 0) = Ok (Some (example_leaf1, 1)) \<and>
   find_exact example_platform example_volume_map 168 0 (DiskKey 7 1 0) = Ok None"
  using find_exact_refines [OF example_tree_ok, of "DiskKey 6 1 0"]
    find_exact_refines [OF example_tree_ok, of "DiskKey 7 1 0"] example_tree_ok
  by (simp add: example_slots example_keys)

text \<open>
  C30. Whatever the device returns, reading a block and both lookups end with a value or an error:
  no index is out of range, no addition overflows, and a cyclic tree is cut off by the depth limit.
\<close>

theorem tree_lookups_never_panic:
  "read_tree_block P cm nodesize root \<noteq> Panic \<and>
   find_exact P cm nodesize root target \<noteq> Panic \<and>
   find_first_ge P cm nodesize root target \<noteq> Panic"
  by (simp add: read_tree_block_safe find_exact_safe find_first_ge_safe)

text \<open>
  A block that \<open>read_tree_block\<close> accepts has the full node size, a checksum that matches its
  contents, the address it was asked for in its header, and strictly ascending readable keys.
\<close>

lemma read_tree_block_validated:
  assumes "read_tree_block P cm nodesize logical = Ok b"
  shows "length (tb_body b) = unat nodesize \<and> tb_header b = header_of (tb_body b) \<and>
    tb_bytenr b = logical \<and> verify_crc32c P (drop CSUM_LEN (tb_body b)) (hd_csum (tb_header b)) \<and>
    (2 \<le> tb_nritems b \<longrightarrow>
      (\<exists>ks. map (if tb_level b = 0 then tb_leaf_key b else tb_node_key b) [0..<tb_nritems b] = map Ok ks
        \<and> sorted_wrt (<) ks))"
  using read_tree_block_OkD [OF assms] validate_leaf [of b] validate_node [of b]
  by (auto simp: CSUM_LEN_def header_of_def)

text \<open>
  On any device contents, a slot found by \<open>find_first_ge\<close> is readable, is not below the target and
  lies in a leaf whose keys are strictly ascending: a scan that continues after the last key of that
  leaf makes progress.
\<close>

lemma find_first_ge_hit_sound:
  assumes "find_first_ge P cm nodesize root target = Ok (Some (leaf, idx))"
  shows "\<exists>it. tb_leaf_item leaf idx = Ok it \<and> target \<le> li_key it \<and> tb_level leaf = 0 \<and>
    validate_keys_strictly_ascending leaf = Ok ()"
  by (rule find_first_ge_hit [OF assms]) blast

end
