(* ===== verification/Chunk_Tree.thy ===== *)
theory Chunk_Tree
  imports Sys_Chunk_Array Block_Image
begin

text \<open>
  The walk of the chunk tree (\<^verbatim>\<open>populate_from_chunk_tree\<close> in \<^verbatim>\<open>src/chunk_tree.rs\<close>): leaf by leaf, every
  \<^verbatim>\<open>CHUNK_ITEM\<close> not yet known is added to the chunk map, which is at the same time the map the walk
  reads its blocks through. Growing the map never changes what the walk has already read, so on a
  well-formed tree the walk visits every item from the first chunk key on, in order.
\<close>

section \<open>The model\<close>

definition harvest_chunk :: "chunk_map \<Rightarrow> tree_block \<Rightarrow> leaf_item \<Rightarrow> chunk_map outcome" where
  "harvest_chunk cm leaf item =
     obind (tb_leaf_item_data leaf item) (\<lambda>data.
     obind (chunk_item_parse data 0) (\<lambda>parsed.
     obind (ok_or parsed (CorruptBtree ''chunk_item_short'' (tb_bytenr leaf))) (\<lambda>chunk.
     let total = ChunkItem_total_size (ch_num_stripes chunk) in
     if length data < total then Err (CorruptBtree ''chunk_item_truncated'' (tb_bytenr leaf))
     else
     obind (parse_stripes data ChunkItem_HEADER_SIZE [0..<as_usize (ch_num_stripes chunk)] []) (\<lambda>stripes.
     let mapping = \<lparr>cm_logical = key_offset (li_key item), cm_length = ch_length chunk,
           cm_ty = ch_ty chunk, cm_stripe_len = ch_stripe_len chunk,
           cm_num_stripes = ch_num_stripes chunk, cm_sub_stripes = ch_sub_stripes chunk,
           cm_stripes = stripes\<rparr> in
     if \<not> chunk_map_contains cm (key_offset (li_key item)) then chunk_map_insert cm mapping
     else Ok cm))))"

text \<open>One round of the inner loop: the map after the item and its key.\<close>

definition harvest_item :: "chunk_map \<Rightarrow> tree_block \<Rightarrow> nat \<Rightarrow> (chunk_map \<times> disk_key) outcome" where
  "harvest_item cm leaf idx =
     obind (tb_leaf_item leaf idx) (\<lambda>item.
     obind (if key_item_type (li_key item) = CHUNK_ITEM_KEY then harvest_chunk cm leaf item else Ok cm)
       (\<lambda>cm. Ok (cm, li_key item)))"

text \<open>The inner loop over the indices from the hit to the end of the leaf.\<close>

primrec harvest_leaf ::
  "tree_block \<Rightarrow> nat list \<Rightarrow> chunk_map \<Rightarrow> disk_key option \<Rightarrow> (chunk_map \<times> disk_key option) outcome" where
  "harvest_leaf leaf [] cm last_key = Ok (cm, last_key)"
| "harvest_leaf leaf (idx # idxs) cm last_key =
     obind (harvest_item cm leaf idx) (\<lambda>(cm, key). harvest_leaf leaf idxs cm (Some key))"

lemma harvest_leaf_last:
  "harvest_leaf leaf idxs cm last_key = Ok (cm', Some k) \<Longrightarrow> idxs \<noteq> [] \<Longrightarrow>
   \<exists>it. tb_leaf_item leaf (last idxs) = Ok it \<and> li_key it = k"
proof (induction idxs arbitrary: cm last_key)
  case (Cons i idxs)
  then show ?case
    by (cases "idxs = []") (auto simp: outcome_simps harvest_item_def)
qed simp

function populate_loop ::
  "platform \<Rightarrow> chunk_map \<Rightarrow> u32 \<Rightarrow> u64 \<Rightarrow> disk_key \<Rightarrow> chunk_map outcome" where
  "populate_loop P cm nodesize chunk_root next_target =
     obind (find_first_ge P cm nodesize chunk_root next_target) (\<lambda>location. case location of
       None \<Rightarrow> Ok cm
     | Some (leaf, idx) \<Rightarrow>
     obind (harvest_leaf leaf [idx..<tb_nritems leaf] cm None) (\<lambda>(cm, last_key).
     case last_key of
       None \<Rightarrow> Ok cm
     | Some last_seen \<Rightarrow>
     (case next_key_after last_seen of
        None \<Rightarrow> Ok cm
      | Some next_target \<Rightarrow> populate_loop P cm nodesize chunk_root next_target)))"
  by pat_completeness auto
termination
proof (relation "measure (\<lambda>(P, cm, nodesize, chunk_root, next_target). scan_measure next_target)", goal_cases)
  case (2 P cm ns root t loc s leaf idx r cm' lk k t')
  then have hit: "find_first_ge P cm ns root t = Ok (Some (leaf, idx))"
    and h: "harvest_leaf leaf [idx..<tb_nritems leaf] cm None = Ok (cm', Some k)"
    and nx: "next_key_after k = Some t'" by simp_all
  from h have ne: "[idx..<tb_nritems leaf] \<noteq> []" by (cases "[idx..<tb_nritems leaf]") auto
  from harvest_leaf_last [OF h ne] obtain it where
    it: "tb_leaf_item leaf (last [idx..<tb_nritems leaf]) = Ok it" "li_key it = k" by blast
  have "idx \<le> last [idx..<tb_nritems leaf]" using last_in_set [OF ne] by (simp del: last_upt)
  from scan_progress [OF hit this it(1), of t'] it(2) nx show ?case by simp
qed simp

declare populate_loop.simps [simp del]

definition populate_from_chunk_tree :: "platform \<Rightarrow> chunk_map \<Rightarrow> u32 \<Rightarrow> u64 \<Rightarrow> chunk_map outcome" where
  "populate_from_chunk_tree P cm nodesize chunk_root =
     populate_loop P cm nodesize chunk_root (DiskKey CHUNK_TREE_OBJECTID CHUNK_ITEM_KEY 0)"

section \<open>Growing the chunk map\<close>

text \<open>\<open>cm'\<close> knows everything \<open>cm\<close> knows and is still well-formed.\<close>

definition map_extends :: "chunk_map \<Rightarrow> chunk_map \<Rightarrow> bool" where
  "map_extends cm cm' \<longleftrightarrow> chunk_map_wf cm' \<and> local_devid cm' = local_devid cm \<and>
     set (mappings cm) \<subseteq> set (mappings cm')"

lemma map_extends_refl: "chunk_map_wf cm \<Longrightarrow> map_extends cm cm"
  by (simp add: map_extends_def)

lemma map_extends_trans: "map_extends a b \<Longrightarrow> map_extends b c \<Longrightarrow> map_extends a c"
  by (auto simp: map_extends_def)

lemma map_extends_insert: "chunk_map_wf cm \<Longrightarrow> chunk_map_insert cm m = Ok cm' \<Longrightarrow> map_extends cm cm'"
  using chunk_map_insert_set chunk_map_insert_wf by (auto simp: map_extends_def)

lemma map_extends_resolve:
  assumes "chunk_map_wf cm" and "map_extends cm cm'" and "chunk_map_resolve cm l = Ok r"
  shows "chunk_map_resolve cm' l = Ok r"
proof -
  from assms(1,3) obtain m where m: "m \<in> set (mappings cm)" "chunk_covers m l"
    using chunk_map_resolve_uncovered [OF assms(1), of l] by fastforce
  with assms(2) have "m \<in> set (mappings cm')" "chunk_map_wf cm'" "local_devid cm' = local_devid cm"
    by (auto simp: map_extends_def)
  with m assms(1,3) show ?thesis
    using chunk_map_resolve_covered by simp
qed

lemma map_extends_read_block:
  "read_block_from P cm logical cursor remaining acc = Ok body \<Longrightarrow> chunk_map_wf cm \<Longrightarrow>
   map_extends cm cm' \<Longrightarrow> read_block_from P cm' logical cursor remaining acc = Ok body"
proof (induction P cm logical cursor remaining acc rule: read_block_from.induct)
  case (1 P cm logical cursor remaining acc)
  show ?case
  proof (cases "0 < remaining")
    case True
    with "1.prems"(1) obtain r bytes cursor' remaining' where
        r: "chunk_map_resolve cm cursor = Ok r"
      and bytes: "reader_read P (rs_physical r) (unat (min remaining (rs_contiguous_bytes r))) = Some bytes"
      and c: "plain_add cursor (min remaining (rs_contiguous_bytes r)) = Ok cursor'"
      and sub: "plain_sub remaining (min remaining (rs_contiguous_bytes r)) = Ok remaining'"
      and rest: "read_block_from P cm logical cursor' remaining' (acc @ bytes) = Ok body"
      by (subst (asm) read_block_from.simps) (auto simp: outcome_simps Let_def)
    have "read_block_from P cm' logical cursor' remaining' (acc @ bytes) = Ok body"
      using True r bytes c sub rest "1.prems"(2,3) by (intro "1.IH") auto
    with True map_extends_resolve [OF "1.prems"(2,3) r] bytes c sub show ?thesis
      by (subst read_block_from.simps) (simp add: Let_def)
  next
    case False
    with "1.prems" show ?thesis by (simp add: read_block_from.simps word_gt_0)
  qed
qed

lemma map_extends_read_tree_block:
  assumes "chunk_map_wf cm" and "map_extends cm cm'" and "read_tree_block P cm ns a = Ok b"
  shows "read_tree_block P cm' ns a = Ok b"
proof (cases "read_block_from P cm a a (ucast ns) []")
  case (Ok body)
  with assms(3) map_extends_read_block [OF Ok assms(1,2)] show ?thesis
    by (simp add: read_tree_block_def)
qed (use assms(3) in \<open>simp_all add: read_tree_block_def\<close>)

lemma map_extends_load_tree:
  assumes "chunk_map_wf cm" and "map_extends cm cm'"
  shows "load_tree P cm ns fuel a = Some d \<Longrightarrow> load_tree P cm' ns fuel a = Some d"
proof (induction d arbitrary: fuel a)
  case (DLeaf b)
  from load_tree_DLeaf [OF DLeaf] map_extends_read_tree_block [OF assms, of P ns a b]
  show ?case by (cases fuel) auto
next
  case (DNode b ts)
  from DNode.prems obtain fuel' where f: "fuel = Suc fuel'" and rd: "read_tree_block P cm ns a = Ok b"
    and lvl: "tb_level b \<noteq> 0" and len: "length ts = tb_nritems b"
    and kids: "\<forall>i < length ts. \<exists>kp. tb_key_ptr b i = Ok kp \<and>
       load_tree P cm ns fuel' (kp_blockptr kp) = Some (ts ! i)" by (rule load_tree_DNode)
  have "map (\<lambda>i. case tb_key_ptr b i of Ok kp \<Rightarrow> load_tree P cm' ns fuel' (kp_blockptr kp) | _ \<Rightarrow> None)
      [0..<tb_nritems b] = map Some ts"
  proof (rule nth_equalityI)
    fix i assume "i < length (map (\<lambda>i. case tb_key_ptr b i of
        Ok kp \<Rightarrow> load_tree P cm' ns fuel' (kp_blockptr kp) | _ \<Rightarrow> None) [0..<tb_nritems b])"
    then have i: "i < length ts" using len by simp
    with kids obtain kp where "tb_key_ptr b i = Ok kp"
      "load_tree P cm ns fuel' (kp_blockptr kp) = Some (ts ! i)" by blast
    with DNode.IH [OF nth_mem [OF i]] i len show "map (\<lambda>i. case tb_key_ptr b i of
        Ok kp \<Rightarrow> load_tree P cm' ns fuel' (kp_blockptr kp) | _ \<Rightarrow> None) [0..<tb_nritems b] ! i = map Some ts ! i"
      by simp
  qed (simp add: len)
  then show ?case
    using f lvl map_extends_read_tree_block [OF assms rd] by (simp add: those_Some_iff)
qed

lemma map_extends_tree:
  assumes "chunk_map_wf cm" and "map_extends cm cm'" and "tree_ok P cm ns root"
  shows "tree_ok P cm' ns root" and "tree_slots P cm' ns root = tree_slots P cm ns root"
proof -
  from assms(3) obtain d where "tree_of P cm ns root = Some d" "dtree_wf d"
    by (auto simp: tree_ok_def split: option.splits)
  moreover from map_extends_load_tree [OF assms(1,2)] this(1) have "tree_of P cm' ns root = Some d"
    by (simp add: tree_of_def)
  ultimately show "tree_ok P cm' ns root" and "tree_slots P cm' ns root = tree_slots P cm ns root"
    by (simp_all add: tree_ok_def tree_slots_def)
qed

section \<open>What the walk does to the map\<close>

lemma harvest_chunk_extends:
  "chunk_map_wf cm \<Longrightarrow> harvest_chunk cm leaf item = Ok cm' \<Longrightarrow> map_extends cm cm'"
  by (auto simp: harvest_chunk_def outcome_simps Let_def map_extends_refl intro: map_extends_insert
      split: if_splits)

lemma harvest_item_extends:
  "chunk_map_wf cm \<Longrightarrow> harvest_item cm leaf i = Ok (cm', k) \<Longrightarrow> map_extends cm cm'"
  by (auto simp: harvest_item_def outcome_simps map_extends_refl intro: harvest_chunk_extends
      split: if_splits)

lemma harvest_leaf_extends:
  "chunk_map_wf cm \<Longrightarrow> harvest_leaf leaf idxs cm lk = Ok (cm', lk') \<Longrightarrow> map_extends cm cm'"
proof (induction idxs arbitrary: cm lk)
  case (Cons i idxs)
  then obtain cm1 k where step: "harvest_item cm leaf i = Ok (cm1, k)"
    and rest: "harvest_leaf leaf idxs cm1 (Some k) = Ok (cm', lk')"
    by (auto simp: outcome_simps)
  from harvest_item_extends [OF Cons.prems(1) step] have ext: "map_extends cm cm1" .
  then have "chunk_map_wf cm1" by (simp add: map_extends_def)
  from map_extends_trans [OF ext Cons.IH [OF this rest]] show ?case .
qed (simp add: map_extends_refl)

text \<open>The rounds of the outer loop.\<close>

lemma populate_loop_miss:
  "find_first_ge P cm ns root t = Ok None \<Longrightarrow> populate_loop P cm ns root t = Ok cm"
  by (simp add: populate_loop.simps)

lemma populate_loop_hit:
  assumes "find_first_ge P cm ns root t = Ok (Some (leaf, i))"
  shows "populate_loop P cm ns root t =
    obind (harvest_leaf leaf [i..<tb_nritems leaf] cm None) (\<lambda>(cm1, lk).
      case Option.bind lk next_key_after of
        None \<Rightarrow> Ok cm1 | Some t' \<Rightarrow> populate_loop P cm1 ns root t')"
  using assms
  by (subst populate_loop.simps) (auto intro!: obind_cong split: option.splits)

lemma populate_loop_extends:
  "chunk_map_wf cm \<Longrightarrow> populate_loop P cm ns root t = Ok cm' \<Longrightarrow> map_extends cm cm'"
proof (induction P cm ns root t rule: populate_loop.induct)
  case (1 P cm ns root t)
  show ?case
  proof (cases "find_first_ge P cm ns root t")
    case (Ok loc)
    show ?thesis
    proof (cases loc)
      case None
      with Ok "1.prems" show ?thesis by (simp add: populate_loop_miss map_extends_refl)
    next
      case (Some s)
      obtain leaf i where s: "s = (leaf, i)" by (cases s)
      with Ok Some have hit: "find_first_ge P cm ns root t = Ok (Some (leaf, i))" by simp
      from "1.prems"(2) obtain cm1 lk where h: "harvest_leaf leaf [i..<tb_nritems leaf] cm None = Ok (cm1, lk)"
        and rest: "(case Option.bind lk next_key_after of
          None \<Rightarrow> Ok cm1 | Some t' \<Rightarrow> populate_loop P cm1 ns root t') = Ok cm'"
        unfolding populate_loop_hit [OF hit] by (auto simp: outcome_simps)
      from harvest_leaf_extends [OF "1.prems"(1) h] have ext: "map_extends cm cm1" .
      then have wf1: "chunk_map_wf cm1" by (simp add: map_extends_def)
      show ?thesis
      proof (cases "Option.bind lk next_key_after")
        case None
        with rest ext show ?thesis by simp
      next
        case (Some t')
        then obtain k where k: "lk = Some k" "next_key_after k = Some t'" by (cases lk) auto
        from rest Some have "populate_loop P cm1 ns root t' = Ok cm'" by simp
        from "1.IH" [OF hit refl refl h refl k wf1 this] ext map_extends_trans show ?thesis by blast
      qed
    qed
  qed (use "1.prems" in \<open>simp_all add: populate_loop.simps\<close>)
qed

lemma harvest_chunk_safe: "harvest_chunk cm leaf item \<noteq> Panic"
proof -
  have "parse_stripes data ChunkItem_HEADER_SIZE [0..<as_usize n] [] \<noteq> Panic"
    if "\<not> length data < ChunkItem_total_size n" for data n
    using that by (subst parse_stripes_eq) (auto simp: ChunkItem_total_size_eq layout)
  then show ?thesis
    by (auto simp: harvest_chunk_def outcome_simps Let_def tb_leaf_item_data_safe chunk_item_parse_eq
        chunk_map_insert_safe split: if_splits)
qed

lemma harvest_leaf_safe: "harvest_leaf leaf idxs cm lk \<noteq> Panic"
  by (induction idxs arbitrary: cm lk)
    (auto simp: outcome_simps harvest_item_def tb_leaf_item_safe harvest_chunk_safe split: if_splits)

lemma populate_loop_safe: "populate_loop P cm ns root t \<noteq> Panic"
proof (induction P cm ns root t rule: populate_loop.induct)
  case (1 P cm ns root t)
  show ?case
    unfolding populate_loop.simps [of P cm ns root t]
    using "1.IH"
    by (auto simp: outcome_simps find_first_ge_safe harvest_leaf_safe split: option.splits)
qed

section \<open>The walk as one pass over the items\<close>

primrec harvest_slots :: "slot list \<Rightarrow> chunk_map \<Rightarrow> chunk_map outcome" where
  "harvest_slots [] cm = Ok cm"
| "harvest_slots (s # ss) cm = obind (harvest_item cm (fst s) (snd s)) (\<lambda>(cm, _). harvest_slots ss cm)"

lemma harvest_slots_append:
  "harvest_slots (xs @ ys) cm = obind (harvest_slots xs cm) (harvest_slots ys)"
  by (induction xs arbitrary: cm) (auto simp: obind_assoc split_beta intro!: obind_cong)

lemma harvest_leaf_slots:
  assumes "\<And>i. i \<in> set idxs \<Longrightarrow> tb_leaf_key leaf i = Ok (slot_key (leaf, i))"
  shows "harvest_leaf leaf idxs cm lk = obind (harvest_slots (map (Pair leaf) idxs) cm)
    (\<lambda>cm'. Ok (cm', if idxs = [] then lk else Some (slot_key (leaf, last idxs))))"
  using assms
proof (induction idxs arbitrary: cm lk)
  case (Cons i idxs)
  have key: "k = slot_key (leaf, i)" if "harvest_item cm leaf i = Ok (cm1, k)" for cm1 k
    using that Cons.prems [of i] by (auto simp: harvest_item_def outcome_simps tb_leaf_key_def)
  show ?case
  proof (cases "harvest_item cm leaf i")
    case (Ok p)
    obtain cm1 k where p: "p = (cm1, k)" by (cases p)
    with Ok key have "k = slot_key (leaf, i)" by simp
    with Ok p Cons.IH [of cm1 "Some k"] Cons.prems show ?thesis
      by (cases "idxs = []") simp_all
  qed simp_all
qed simp

lemma populate_loop_slots:
  "chunk_map_wf cm \<Longrightarrow> tree_ok P cm ns root \<Longrightarrow>
   \<forall>s \<in> set (tree_slots P cm ns root). next_key_after (slot_key s) \<noteq> None \<Longrightarrow>
   populate_loop P cm ns root t =
     harvest_slots (filter (\<lambda>s. t \<le> slot_key s) (tree_slots P cm ns root)) cm"
proof (induction P cm ns root t rule: populate_loop.induct)
  case (1 P cm ns root t)
  let ?T = "(P, cm, ns, root)"
  have inv: "case ?T of (P, cm, ns, root) \<Rightarrow> tree_ok P cm ns root" using "1.prems"(2) by simp
  have rem: "walker.remaining ?T t = filter (\<lambda>s. t \<le> slot_key s) (tree_slots P cm ns root)" for t
    by (simp add: walker.remaining_def)
  note seek = walker.seek_remaining [OF inv, of t, simplified prod.case]
  show ?case
  proof (cases "walker.remaining ?T t")
    case Nil
    with seek rem show ?thesis by (simp add: populate_loop_miss)
  next
    case (Cons s ss)
    obtain leaf i where s: "s = (leaf, i)" by (cases s)
    with Cons seek have hit: "find_first_ge P cm ns root t = Ok (Some (leaf, i))" by simp
    from walker.remaining_run [OF inv Cons [unfolded s]] obtain rest where
      run: "walker.remaining ?T t = map (Pair leaf) [i..<tb_nritems leaf] @ rest"
      and i: "i < tb_nritems leaf" by blast
    let ?run = "map (Pair leaf) [i..<tb_nritems leaf]"
    have sub: "set ?run \<subseteq> set (tree_slots P cm ns root)"
      using run rem [of t] by (metis Un_subset_iff filter_is_subset set_append)
    have keys: "tb_leaf_key leaf j = Ok (slot_key (leaf, j))" if "j \<in> set [i..<tb_nritems leaf]" for j
    proof -
      from that sub have "(leaf, j) \<in> set (tree_slots P cm ns root)" by auto
      with walker.slots_readable [OF inv] show ?thesis by (fastforce simp: tb_leaf_key_def)
    qed
    have last: "last ?run = (leaf, last [i..<tb_nritems leaf])" using i by (simp add: last_map)
    have "last ?run \<in> set ?run" by (rule last_in_set) (use i in simp)
    with sub have "last ?run \<in> set (tree_slots P cm ns root)" by blast
    with "1.prems"(3) obtain t' where t': "next_key_after (slot_key (last ?run)) = Some t'" by blast
    have rest: "walker.remaining ?T t' = rest"
      by (rule walker.remaining_next [OF inv run _ t']) (use i in simp)
    show ?thesis
    proof (cases "harvest_slots ?run cm")
      case (Ok cm1)
      have h: "harvest_leaf leaf [i..<tb_nritems leaf] cm None = Ok (cm1, Some (slot_key (last ?run)))"
        using harvest_leaf_slots [of "[i..<tb_nritems leaf]" leaf cm None] keys Ok i last by simp
      from harvest_leaf_extends [OF "1.prems"(1) h] have ext: "map_extends cm cm1" .
      note tree = map_extends_tree [OF "1.prems"(1) ext "1.prems"(2)]
      have "populate_loop P cm1 ns root t' =
          harvest_slots (filter (\<lambda>s. t' \<le> slot_key s) (tree_slots P cm1 ns root)) cm1"
        using ext tree "1.prems"(3)
        by (intro "1.IH" [OF hit refl refl h refl refl t']) (simp_all add: map_extends_def)
      with tree(2) rest rem [of t'] run rem [of t] Ok h t' show ?thesis
        by (simp add: populate_loop_hit [OF hit] harvest_slots_append)
    qed (use harvest_leaf_slots [of "[i..<tb_nritems leaf]" leaf cm None] keys run rem [of t] in
        \<open>simp_all add: populate_loop_hit [OF hit] harvest_slots_append\<close>)
  qed
qed

section \<open>A chunk tree of one leaf\<close>

text \<open>
  A boot map of one chunk covers the leaf, at logical address 0; the leaf holds one chunk item, for
  the range that starts at 1 MiB.
\<close>

definition example_chunk_item :: chunk_item where
  "example_chunk_item =
     \<lparr>ch_length = 0x10000, ch_owner = 2, ch_stripe_len = 0x10000, ch_ty = 1, ch_io_align = 0x1000,
      ch_io_width = 0x1000, ch_sector_size = 0x1000, ch_num_stripes = 1, ch_sub_stripes = 1,
      ch_stripes_offset = 48\<rparr>"

definition example_stripe :: stripe where
  "example_stripe = \<lparr>st_devid = 1, st_offset = 0x500000, st_dev_uuid = replicate 16 0\<rparr>"

definition example_chunk_leaf :: tree_block where
  "example_chunk_leaf = leaf_block (example_header 0 1 0)
     [\<lparr>li_key = DiskKey 256 228 0x100000, li_offset = 25, li_size = 80\<rparr>]
     (encode_chunk_item example_chunk_item @ encode_stripe example_stripe)"

definition example_chunk_platform :: platform where
  "example_chunk_platform = slice_platform (tb_body example_chunk_leaf) (\<lambda>_. 0) (\<lambda>_. True)"

definition example_mapping :: chunk_mapping where
  "example_mapping =
     \<lparr>cm_logical = 0x100000, cm_length = 0x10000, cm_ty = 1, cm_stripe_len = 0x10000,
      cm_num_stripes = 1, cm_sub_stripes = 1, cm_stripes = [example_stripe]\<rparr>"

lemma example_chunk_body: "length (tb_body example_chunk_leaf) = 206"
  by (simp add: example_chunk_leaf_def leaf_block_def length_encode_header encode_stripe_def
      example_stripe_def)

lemma example_chunk_read:
  "read_tree_block example_chunk_platform example_volume_map 206 0 = Ok example_chunk_leaf"
proof (rule read_tree_block_contiguous [OF example_resolve])
  show "reader_read example_chunk_platform
      (rs_physical \<lparr>rs_devid = 1, rs_physical = 0, rs_contiguous_bytes = 504 - 0\<rparr>) (unat (206 :: u32)) =
      Some (tb_body example_chunk_leaf)"
    unfolding example_chunk_platform_def
    by (subst reader_read_slice_platform) (simp_all add: example_chunk_body usize_max_def)
  show "tb_header example_chunk_leaf = header_of (tb_body example_chunk_leaf)"
    by (simp add: example_chunk_leaf_def leaf_block_def header_of_encoded)
  have "take 32 (tb_body example_chunk_leaf) = replicate 32 0"
    by (simp add: example_chunk_leaf_def leaf_block_def encode_header_def example_header_def)
  then show "verify_crc32c example_chunk_platform (drop 32 (tb_body example_chunk_leaf))
      (take 32 (tb_body example_chunk_leaf))"
    by (simp add: verify_crc32c_def crc32c_def example_chunk_platform_def slice_platform_def
        from_le_bytes_def)
qed (simp_all add: example_chunk_leaf_def validate_keys_strictly_ascending_def)

lemma example_chunk_slot_item:
  "tb_leaf_item example_chunk_leaf 0 = Ok \<lparr>li_key = DiskKey 256 228 0x100000, li_offset = 25, li_size = 80\<rparr>"
  unfolding example_chunk_leaf_def by (subst leaf_block_item) simp_all

lemma example_chunk_tree:
  "tree_ok example_chunk_platform example_volume_map 206 0"
  "tree_slots example_chunk_platform example_volume_map 206 0 = [(example_chunk_leaf, 0)]"
  "slot_key (example_chunk_leaf, 0) = DiskKey 256 228 0x100000"
proof -
  have head: "tb_header example_chunk_leaf = example_header 0 1 0" by (simp add: example_chunk_leaf_def)
  have "load_tree example_chunk_platform example_volume_map 206 (Suc 15) 0 = Some (DLeaf example_chunk_leaf)"
    unfolding load_tree.simps(2) using example_chunk_read by (simp add: head)
  then have "tree_of example_chunk_platform example_volume_map 206 0 = Some (DLeaf example_chunk_leaf)"
    by (simp add: tree_of_def MAX_TREE_DEPTH_def)
  then show "tree_ok example_chunk_platform example_volume_map 206 0"
    "tree_slots example_chunk_platform example_volume_map 206 0 = [(example_chunk_leaf, 0)]"
    using example_chunk_slot_item
    by (simp_all add: tree_ok_def tree_slots_def leaf_slots_def head)
  show "slot_key (example_chunk_leaf, 0) = DiskKey 256 228 0x100000"
    using example_chunk_slot_item by (simp add: slot_key_def tb_leaf_key_def)
qed

lemma example_map_wf: "chunk_map_wf example_volume_map"
  by (simp add: chunk_map_wf_def chunk_end_def example_volume_map_def)

lemma example_harvest:
  "harvest_slots [(example_chunk_leaf, 0)] example_volume_map =
   Ok (example_volume_map\<lparr>mappings := mappings example_volume_map @ [example_mapping]\<rparr>)"
proof -
  let ?data = "encode_chunk_item example_chunk_item @ encode_stripe example_stripe"
  have len: "length ?data = 80" by (simp add: encode_stripe_def example_stripe_def)
  have data: "tb_leaf_item_data example_chunk_leaf
      \<lparr>li_key = DiskKey 256 228 0x100000, li_offset = 25, li_size = 80\<rparr> = Ok ?data"
    using len
    by (simp add: tb_leaf_item_data_def example_chunk_leaf_def leaf_block_def slice_def layout
        as_usize_def usize_max_def usize_checked_add_def length_encode_header)
  have item: "chunk_item_parse ?data 0 = Ok (Some example_chunk_item)"
    using chunk_item_roundtrip [of example_chunk_item "[]" "encode_stripe example_stripe"]
    by (simp add: example_chunk_item_def)
  have "stripe_of ?data 48 = example_stripe"
    using stripe_of_encoded [of example_stripe "encode_chunk_item example_chunk_item" "[]"]
    by (simp add: example_stripe_def)
  then have stripes: "parse_stripes ?data 48 [0] [] = Ok [example_stripe]"
    using len by (subst parse_stripes_eq) simp_all
  have "harvest_chunk example_volume_map example_chunk_leaf
      \<lparr>li_key = DiskKey 256 228 0x100000, li_offset = 25, li_size = 80\<rparr> =
      chunk_map_insert example_volume_map example_mapping"
    using data item stripes len
    by (simp add: harvest_chunk_def example_chunk_item_def ChunkItem_total_size_eq layout as_usize_def
        usize_max_def chunk_map_contains_def example_volume_map_def example_mapping_def)
  also have "\<dots> = Ok (example_volume_map\<lparr>mappings := mappings example_volume_map @ [example_mapping]\<rparr>)"
    by (simp add: chunk_map_insert_def partition_point_def get_before_def get_at_def checked_add_def
        example_volume_map_def example_mapping_def)
  finally show ?thesis
    using example_chunk_slot_item by (simp add: harvest_item_def CHUNK_ITEM_KEY_def)
qed

section \<open>Properties\<close>

text \<open>
  C17. Walking a well-formed chunk tree is one pass over its items in key order, from the chunk tree
  object's first possible chunk key: each \<^verbatim>\<open>CHUNK_ITEM\<close> is decoded and inserted unless its address is already known, and the
  first error ends the walk. The map grows while the tree is read through it.
\<close>

theorem populate_is_one_pass:
  assumes "chunk_map_wf cm" and "tree_ok P cm nodesize chunk_root"
    and "\<forall>s \<in> set (tree_slots P cm nodesize chunk_root). key_offset (slot_key s) \<noteq> - 1"
  shows "populate_from_chunk_tree P cm nodesize chunk_root =
    harvest_slots (filter (\<lambda>s. DiskKey CHUNK_TREE_OBJECTID CHUNK_ITEM_KEY 0 \<le> slot_key s)
      (tree_slots P cm nodesize chunk_root)) cm"
proof -
  have "next_key_after k \<noteq> None" if "key_offset k \<noteq> - 1" for k
    using that word_order.not_eq_extremum [of "key_offset k"]
    by (auto simp: next_key_after_def checked_add_def word_less_nat_alt
        unsigned_minus_1_eq_mask mask_eq_exp_minus_1 split: option.splits)
  with assms show ?thesis
    unfolding populate_from_chunk_tree_def by (intro populate_loop_slots) auto
qed

theorem populate_is_one_pass_witness:
  "populate_from_chunk_tree example_chunk_platform example_volume_map 206 0 =
   Ok (example_volume_map\<lparr>mappings := mappings example_volume_map @ [example_mapping]\<rparr>)"
  using populate_is_one_pass [OF example_map_wf example_chunk_tree(1)] example_harvest
  by (simp add: example_chunk_tree(2,3) format_consts disk_key_le_iff)

text \<open>
  C18. On any device contents, the walk ends without a panic; when it succeeds the map is still sorted
  and disjoint, keeps every mapping it had, and translates every address it could translate to the
  same place.
\<close>

theorem populate_extends_map:
  assumes "chunk_map_wf cm"
  shows "populate_from_chunk_tree P cm nodesize chunk_root \<noteq> Panic \<and>
    (\<forall>cm'. populate_from_chunk_tree P cm nodesize chunk_root = Ok cm' \<longrightarrow>
       chunk_map_wf cm' \<and> set (mappings cm) \<subseteq> set (mappings cm') \<and>
       (\<forall>l r. chunk_map_resolve cm l = Ok r \<longrightarrow> chunk_map_resolve cm' l = Ok r))"
  using populate_loop_safe populate_loop_extends [OF assms] map_extends_resolve [OF assms]
  unfolding populate_from_chunk_tree_def by (auto simp: map_extends_def)

theorem populate_extends_map_witness:
  "\<exists>cm'. populate_from_chunk_tree example_chunk_platform example_volume_map 206 0 = Ok cm' \<and>
     chunk_map_wf cm' \<and> chunk_map_resolve cm' 100 =
       Ok \<lparr>rs_devid = 1, rs_physical = 100, rs_contiguous_bytes = 404\<rparr>"
proof -
  have "populate_from_chunk_tree example_chunk_platform example_volume_map 206 0 =
      Ok (example_volume_map\<lparr>mappings := mappings example_volume_map @ [example_mapping]\<rparr>)"
    using populate_loop_slots [OF example_map_wf example_chunk_tree(1)] example_harvest
    by (simp add: populate_from_chunk_tree_def example_chunk_tree(2,3) format_consts
        next_key_after_def checked_add_def disk_key_le_iff)
  moreover have "chunk_map_resolve example_volume_map 100 =
      Ok \<lparr>rs_devid = 1, rs_physical = 100, rs_contiguous_bytes = 404\<rparr>"
    by (subst example_resolve) simp_all
  ultimately show ?thesis
    using populate_extends_map [OF example_map_wf, of example_chunk_platform 206 0] by auto
qed

end
