(* ===== verification/Superblock.thy ===== *)
theory Superblock
  imports Repr Platform Checksum
begin

unbundle bit_operations_syntax

text \<open>
  The superblock loader of \<^verbatim>\<open>src/superblock.rs\<close>: every canonical copy inside the device is read and
  validated, and the first copy of the highest generation is chosen. The loop over the copies is
  compared with a reference that states the choice and the precedence of the errors directly.
\<close>

section \<open>One copy\<close>

datatype copy_outcome =
    CopyValid superblock
  | CopyBadMagic
  | CopyBadCsum
  | CopyUnsupportedCsumType string
  | CopyUnsupportedIncompat string
  | CopyBadGeometry
  | CopyIoError

text \<open>\<^verbatim>\<open>u32::is_power_of_two\<close>\<close>

definition is_power_of_two :: "u32 \<Rightarrow> bool" where
  "is_power_of_two x \<longleftrightarrow> list_ex (\<lambda>k. x = 2 ^ k) [0..<32]"

definition is_pow2_in_range :: "u32 \<Rightarrow> u32 \<Rightarrow> u32 \<Rightarrow> bool" where
  "is_pow2_in_range value low high \<longleftrightarrow> value \<ge> low \<and> value \<le> high \<and> is_power_of_two value"

definition try_load_one :: "platform \<Rightarrow> u64 \<Rightarrow> copy_outcome outcome" where
  "try_load_one P offset =
    (case reader_read P offset SUPERBLOCK_SIZE of
       None \<Rightarrow> Ok CopyIoError
     | Some buf \<Rightarrow>
     obind (superblock_parse buf) (\<lambda>parsed. case parsed of
       None \<Rightarrow> Ok CopyBadMagic
     | Some sb \<Rightarrow>
     if sb_magic sb \<noteq> BTRFS_MAGIC then Ok CopyBadMagic
     else if sb_csum_type sb = CSUM_TYPE_XXHASH then Ok (CopyUnsupportedCsumType ''csum_xxhash'')
     else if sb_csum_type sb = CSUM_TYPE_SHA256 then Ok (CopyUnsupportedCsumType ''csum_sha256'')
     else if sb_csum_type sb = CSUM_TYPE_BLAKE2 then Ok (CopyUnsupportedCsumType ''csum_blake2'')
     else if sb_csum_type sb \<noteq> CSUM_TYPE_CRC32C then Ok (CopyUnsupportedCsumType ''csum_unknown'')
     else
     obind (slice buf body_offset_for_csum (length buf)) (\<lambda>covered.
     if \<not> verify_crc32c P covered (sb_csum sb) then Ok CopyBadCsum
     else if sb_incompat_flags sb AND NOT IncompatFlags_all \<noteq> 0
     then Ok (CopyUnsupportedIncompat ''feat_unknown_incompat'')
     else
     let rejected = sb_incompat_flags sb AND IncompatFlags_rejected in
     if flags_contain rejected INCOMPAT_ZONED then Ok (CopyUnsupportedIncompat ''feat_zoned'')
     else if flags_contain rejected INCOMPAT_RAID_STRIPE_TREE
     then Ok (CopyUnsupportedIncompat ''feat_raid_stripe_tree'')
     else if flags_contain rejected INCOMPAT_REMAP_TREE
     then Ok (CopyUnsupportedIncompat ''feat_remap_tree'')
     else if \<not> is_pow2_in_range (sb_sectorsize sb) MIN_SECTOR_SIZE MAX_SECTOR_SIZE \<or>
             \<not> is_pow2_in_range (sb_nodesize sb) MIN_NODE_SIZE MAX_NODE_SIZE
     then Ok CopyBadGeometry
     else Ok (CopyValid sb))))"

section \<open>The loop over the copies\<close>

text \<open>\<^verbatim>\<open>Option::get_or_insert\<close>: the first value stays.\<close>

primrec get_or_insert :: "'a option \<Rightarrow> 'a \<Rightarrow> 'a option" where
  "get_or_insert None x = Some x"
| "get_or_insert (Some y) x = Some y"

fun load_loop ::
  "platform \<Rightarrow> u64 \<Rightarrow> u64 list \<Rightarrow> superblock_reason option \<Rightarrow> string option \<Rightarrow> superblock option
   \<Rightarrow> superblock outcome" where
  "load_loop P device_size_bytes [] last_specific_reason unsupported_csum best =
    (case best of
       Some sb \<Rightarrow> Ok sb
     | None \<Rightarrow> (case unsupported_csum of
         Some token \<Rightarrow> Err (UnsupportedChecksum token)
       | None \<Rightarrow> Err (BadSuperblock
           (case last_specific_reason of Some reason \<Rightarrow> reason | None \<Rightarrow> NoValidCopy))))"
| "load_loop P device_size_bytes (offset # offsets) last_specific_reason unsupported_csum best =
    (if offset \<ge> device_size_bytes
     then load_loop P device_size_bytes offsets last_specific_reason unsupported_csum best
     else
     obind (try_load_one P offset) (\<lambda>copy. case copy of
       CopyValid sb \<Rightarrow>
         load_loop P device_size_bytes offsets last_specific_reason unsupported_csum
           (case best of
              None \<Rightarrow> Some sb
            | Some current \<Rightarrow>
                if sb_generation sb > sb_generation current then Some sb else Some current)
     | CopyBadMagic \<Rightarrow>
         load_loop P device_size_bytes offsets (get_or_insert last_specific_reason BadMagic)
           unsupported_csum best
     | CopyBadCsum \<Rightarrow>
         load_loop P device_size_bytes offsets (get_or_insert last_specific_reason BadCsum)
           unsupported_csum best
     | CopyUnsupportedCsumType token \<Rightarrow>
         load_loop P device_size_bytes offsets last_specific_reason
           (get_or_insert unsupported_csum token) best
     | CopyUnsupportedIncompat token \<Rightarrow> Err (UnsupportedFeature token)
     | CopyBadGeometry \<Rightarrow>
         load_loop P device_size_bytes offsets (get_or_insert last_specific_reason BadGeometry)
           unsupported_csum best
     | CopyIoError \<Rightarrow>
         load_loop P device_size_bytes offsets last_specific_reason unsupported_csum best))"

definition superblock_load :: "platform \<Rightarrow> u64 \<Rightarrow> superblock outcome" where
  "superblock_load P device_size_bytes =
     load_loop P device_size_bytes SUPERBLOCK_OFFSETS None None None"

section \<open>What a valid copy guarantees\<close>

definition superblock_valid :: "platform \<Rightarrow> u8 list \<Rightarrow> superblock \<Rightarrow> bool" where
  "superblock_valid P buf sb \<longleftrightarrow>
     length buf = 4096 \<and> sb = superblock_of buf \<and> sb_magic sb = BTRFS_MAGIC \<and>
     sb_csum_type sb = CSUM_TYPE_CRC32C \<and> verify_crc32c P (drop 32 buf) (sb_csum sb) \<and>
     sb_incompat_flags sb AND NOT IncompatFlags_all = 0 \<and>
     sb_incompat_flags sb AND INCOMPAT_ZONED = 0 \<and>
     sb_incompat_flags sb AND INCOMPAT_RAID_STRIPE_TREE = 0 \<and>
     sb_incompat_flags sb AND INCOMPAT_REMAP_TREE = 0 \<and>
     sb_sectorsize sb \<in> {4096, 8192, 16384, 32768, 65536} \<and>
     sb_nodesize sb \<in> {4096, 8192, 16384, 32768, 65536}"

lemma pow2_range_values:
  assumes "is_pow2_in_range x 4096 65536"
  shows "x \<in> {4096, 8192, 16384, 32768, 65536}"
proof -
  have "[0..<32] = [0, 1, 2, 3, 4, 5, 6, 7, 8, 9, 10, 11, 12, 13, 14, 15, 16, 17, 18, 19, 20, 21, 22,
      23, 24, 25, 26, 27, 28, 29, 30, 31 :: nat]"
    by (simp add: upt_rec)
  with assms show ?thesis
    by (auto simp: is_pow2_in_range_def is_power_of_two_def word_le_nat_alt)
qed

lemma and_single_bit: "(w :: u64) AND 2 ^ n = (if bit w n then 2 ^ n else 0)"
  by (auto intro!: bit_word_eqI simp: bit_simps)

lemma flag_clear:
  assumes "\<not> flags_contain (w AND IncompatFlags_rejected) f"
    and "f \<in> {INCOMPAT_ZONED, INCOMPAT_RAID_STRIPE_TREE, INCOMPAT_REMAP_TREE}"
  shows "w AND f = 0"
proof -
  from assms(2) have "f = 2 ^ 12 \<or> f = 2 ^ 14 \<or> f = 2 ^ 17" by (auto simp: format_consts)
  then obtain n where f: "f = 2 ^ n" by blast
  from assms(2) have "IncompatFlags_rejected AND f = f" by (auto simp: format_consts)
  then have "w AND f \<noteq> f"
    using assms(1) by (simp add: flags_contain_def and.assoc)
  then show ?thesis unfolding f by (simp add: and_single_bit split: if_splits)
qed

lemma try_load_one_valid:
  assumes "try_load_one P offset = Ok (CopyValid sb)"
  obtains buf where "reader_read P offset 4096 = Some buf" "superblock_valid P buf sb"
proof -
  from assms obtain buf where buf: "reader_read P offset 4096 = Some buf"
    by (auto simp: try_load_one_def format_consts split: option.splits)
  then have "length buf = 4096" by (rule reader_read_length)
  with assms buf have "superblock_valid P buf sb"
    using pow2_range_values [of "sb_sectorsize sb"] pow2_range_values [of "sb_nodesize sb"]
      flag_clear [of "sb_incompat_flags sb"]
    by (auto simp: try_load_one_def superblock_parse_eq superblock_valid_def Let_def slice_def
        SUPERBLOCK_SIZE_def CSUM_LEN_def body_offset_for_csum_def MIN_SECTOR_SIZE_def MAX_SECTOR_SIZE_def
        MIN_NODE_SIZE_def MAX_NODE_SIZE_def split: if_splits)
  with buf that show ?thesis by blast
qed

lemma try_load_one_safe [outcome_safe]: "\<exists>c. try_load_one P offset = Ok c"
proof (cases "reader_read P offset SUPERBLOCK_SIZE")
  case (Some buf)
  then have "length buf = 4096" using reader_read_length by (simp add: SUPERBLOCK_SIZE_def)
  with Some show ?thesis
    by (simp add: try_load_one_def superblock_parse_eq Let_def slice_def CSUM_LEN_def body_offset_for_csum_def)
qed (simp add: try_load_one_def)

section \<open>The choice, stated directly\<close>

text \<open>The outcomes of the copies that lie inside the device, in the order they are probed.\<close>

definition copies :: "platform \<Rightarrow> u64 \<Rightarrow> u64 list \<Rightarrow> copy_outcome list" where
  "copies P device_size offsets =
     map (\<lambda>off. case try_load_one P off of Ok c \<Rightarrow> c | _ \<Rightarrow> CopyIoError)
       (filter (\<lambda>off. off < device_size) offsets)"

fun copy_valid :: "copy_outcome \<Rightarrow> superblock option" where
  "copy_valid (CopyValid sb) = Some sb"
| "copy_valid _ = None"

fun copy_incompat :: "copy_outcome \<Rightarrow> string option" where
  "copy_incompat (CopyUnsupportedIncompat token) = Some token"
| "copy_incompat _ = None"

fun copy_csum :: "copy_outcome \<Rightarrow> string option" where
  "copy_csum (CopyUnsupportedCsumType token) = Some token"
| "copy_csum _ = None"

fun copy_reason :: "copy_outcome \<Rightarrow> superblock_reason option" where
  "copy_reason CopyBadMagic = Some BadMagic"
| "copy_reason CopyBadCsum = Some BadCsum"
| "copy_reason CopyBadGeometry = Some BadGeometry"
| "copy_reason _ = None"

primrec first_some :: "('a \<Rightarrow> 'b option) \<Rightarrow> 'a list \<Rightarrow> 'b option" where
  "first_some f [] = None"
| "first_some f (x # xs) = (case f x of Some y \<Rightarrow> Some y | None \<Rightarrow> first_some f xs)"

text \<open>The first superblock whose generation no other exceeds.\<close>

definition newest :: "superblock list \<Rightarrow> superblock option" where
  "newest sbs = find (\<lambda>sb. list_all (\<lambda>sb'. sb_generation sb' \<le> sb_generation sb) sbs) sbs"

definition load_reference :: "copy_outcome list \<Rightarrow> superblock outcome" where
  "load_reference cs =
    (case first_some copy_incompat cs of
       Some token \<Rightarrow> Err (UnsupportedFeature token)
     | None \<Rightarrow>
    (case newest (List.map_filter copy_valid cs) of
       Some sb \<Rightarrow> Ok sb
     | None \<Rightarrow>
    (case first_some copy_csum cs of
       Some token \<Rightarrow> Err (UnsupportedChecksum token)
     | None \<Rightarrow> Err (BadSuperblock
         (case first_some copy_reason cs of Some r \<Rightarrow> r | None \<Rightarrow> NoValidCopy)))))"

definition pick_newer :: "superblock option \<Rightarrow> superblock \<Rightarrow> superblock option" where
  "pick_newer best sb =
     (case best of
        None \<Rightarrow> Some sb
      | Some current \<Rightarrow>
          if sb_generation sb > sb_generation current then Some sb else Some current)"

lemma newest_Cons_Cons:
  "newest (c # x # xs) = newest ((if sb_generation x > sb_generation c then x else c) # xs)"
proof (cases "sb_generation x > sb_generation c")
  case True
  then have all: "list_all (\<lambda>s'. sb_generation s' \<le> sb_generation s) (c # x # xs) \<longleftrightarrow>
      list_all (\<lambda>s'. sb_generation s' \<le> sb_generation s) (x # xs)" for s
    by auto
  from True show ?thesis unfolding newest_def all by (auto dest: leD)
next
  case False
  then have all: "list_all (\<lambda>s'. sb_generation s' \<le> sb_generation s) (c # x # xs) \<longleftrightarrow>
      list_all (\<lambda>s'. sb_generation s' \<le> sb_generation s) (c # xs)" for s
    by auto
  show ?thesis
  proof (cases "list_all (\<lambda>s'. sb_generation s' \<le> sb_generation c) (c # xs)")
    case True
    with False show ?thesis unfolding newest_def all by simp
  next
    case not_max: False
    with False have "\<not> list_all (\<lambda>s'. sb_generation s' \<le> sb_generation x) (c # xs)"
      by (auto simp: list_all_iff)
    with False not_max show ?thesis unfolding newest_def all by (simp only: find.simps if_False)
  qed
qed

lemma foldl_pick_newer: "foldl pick_newer (Some c) sbs = newest (c # sbs)"
proof (induction sbs arbitrary: c)
  case (Cons x xs)
  have "foldl pick_newer (Some c) (x # xs) =
      foldl pick_newer (Some (if sb_generation x > sb_generation c then x else c)) xs"
    by (simp add: pick_newer_def)
  then show ?case unfolding Cons.IH newest_Cons_Cons .
qed (simp add: newest_def)

lemma foldl_pick_newest: "foldl pick_newer None sbs = newest sbs"
  by (cases sbs) (simp_all add: pick_newer_def foldl_pick_newer newest_def)

lemma load_loop_eq:
  "load_loop P D offs r u best =
    (case first_some copy_incompat (copies P D offs) of
       Some token \<Rightarrow> Err (UnsupportedFeature token)
     | None \<Rightarrow>
    (case foldl pick_newer best (List.map_filter copy_valid (copies P D offs)) of
       Some sb \<Rightarrow> Ok sb
     | None \<Rightarrow>
    (case (case u of Some t \<Rightarrow> Some t | None \<Rightarrow> first_some copy_csum (copies P D offs)) of
       Some token \<Rightarrow> Err (UnsupportedChecksum token)
     | None \<Rightarrow> Err (BadSuperblock
         (case (case r of Some x \<Rightarrow> Some x | None \<Rightarrow> first_some copy_reason (copies P D offs)) of
            Some x \<Rightarrow> x | None \<Rightarrow> NoValidCopy)))))"
proof (induction offs arbitrary: r u best)
  case Nil
  then show ?case by (auto simp: copies_def List.map_filter_def split: option.splits)
next
  case (Cons off offs)
  obtain c where c: "try_load_one P off = Ok c" using try_load_one_safe by blast
  show ?case
  proof (cases "off < D")
    case False
    then have "D \<le> off" "copies P D (off # offs) = copies P D offs" by (auto simp: copies_def)
    then show ?thesis by (simp only: load_loop.simps if_True Cons.IH)
  next
    case True
    with c have "copies P D (off # offs) = c # copies P D offs" by (simp add: copies_def)
    moreover from True have "\<not> D \<le> off" by simp
    ultimately show ?thesis
      using c by (cases c; cases r; cases u)
        (simp_all add: Cons.IH List.map_filter_simps pick_newer_def cong: option.case_cong)
  qed
qed

section \<open>Properties\<close>

text \<open>
  C19. The loader returns the first copy of the highest generation among the valid copies inside the
  device; an incompatible feature in any copy is fatal; failing both, the first unsupported checksum
  type is reported, then the first specific reason, then that there is no valid copy.
\<close>

theorem superblock_load_chooses_newest:
  "superblock_load P device_size = load_reference (copies P device_size SUPERBLOCK_OFFSETS)"
  by (simp add: superblock_load_def load_loop_eq load_reference_def foldl_pick_newest
      split: option.splits)

lemma newest_mem: "newest sbs = Some sb \<Longrightarrow> sb \<in> set sbs"
  by (auto simp: newest_def find_Some_iff)

lemma copies_valid_origin:
  assumes "sb \<in> set (List.map_filter copy_valid (copies P D offs))"
  shows "\<exists>off \<in> set offs. off < D \<and> try_load_one P off = Ok (CopyValid sb)"
proof -
  from assms obtain off where off: "off \<in> set offs" "off < D"
    and v: "copy_valid (case try_load_one P off of Ok c \<Rightarrow> c | _ \<Rightarrow> CopyIoError) = Some sb"
    by (auto simp: List.map_filter_def copies_def)
  from try_load_one_safe obtain c where "try_load_one P off = Ok c" by blast
  with off v show ?thesis by (intro bexI [of _ off]) (cases c; simp)+
qed

lemma superblock_load_origin:
  assumes "superblock_load P device_size = Ok sb"
  shows "\<exists>off \<in> set SUPERBLOCK_OFFSETS. \<exists>buf. off < device_size \<and>
    reader_read P off SUPERBLOCK_SIZE = Some buf \<and> superblock_valid P buf sb"
proof -
  have "newest (List.map_filter copy_valid (copies P device_size SUPERBLOCK_OFFSETS)) = Some sb"
    using assms
    by (auto simp: superblock_load_def load_loop_eq foldl_pick_newest split: option.splits)
  with newest_mem copies_valid_origin obtain off where off: "off \<in> set SUPERBLOCK_OFFSETS"
    "off < device_size" "try_load_one P off = Ok (CopyValid sb)" by blast
  from off(3) obtain buf where "reader_read P off SUPERBLOCK_SIZE = Some buf" "superblock_valid P buf sb"
    unfolding SUPERBLOCK_SIZE_def by (rule try_load_one_valid)
  with off(1,2) show ?thesis by blast
qed

text \<open>
  A loaded superblock was read from a canonical offset inside the device and passes every check:
  magic, CRC32C checksum over the bytes after the checksum field, no unknown or refused feature, and
  power-of-two sector and node sizes between 4 KiB and 64 KiB.
\<close>

lemma superblock_load_validated:
  assumes "superblock_load P device_size = Ok sb"
  shows "\<exists>off \<in> set SUPERBLOCK_OFFSETS. \<exists>buf. off < device_size \<and>
    reader_read P off SUPERBLOCK_SIZE = Some buf \<and> superblock_valid P buf sb"
  by (rule superblock_load_origin [OF assms])

text \<open>A minimal superblock, as the repository's own test builds it, at the primary offset.\<close>

definition example_superblock :: "u8 list" where
  "example_superblock =
     replicate 64 0 @ le_bytes BTRFS_MAGIC @ le_bytes (1 :: u64) @ replicate 64 0
     @ le_bytes (4096 :: u32) @ le_bytes (16384 :: u32) @ replicate 3944 0"

definition example_sb_platform :: platform where
  "example_sb_platform =
     \<lparr>pf_read_at = (\<lambda>off n. if off = 0x10000 then Some example_superblock else None),
      pf_crc32c = (\<lambda>_. 0), pf_alloc = (\<lambda>_. True)\<rparr>"

lemma example_superblock_length: "length example_superblock = 4096"
  by (simp add: example_superblock_def)

lemma example_superblock_fields:
  "sb_magic (superblock_of example_superblock) = BTRFS_MAGIC"
  "sb_csum_type (superblock_of example_superblock) = 0"
  "sb_incompat_flags (superblock_of example_superblock) = 0"
  "sb_sectorsize (superblock_of example_superblock) = 4096"
  "sb_nodesize (superblock_of example_superblock) = 16384"
  "sb_csum (superblock_of example_superblock) = replicate 32 0"
  by (simp_all add: superblock_of_def example_superblock_def le_field_def from_le_bytes_le_bytes
      layout CSUM_LEN_def)

lemma example_superblock_loads:
  "superblock_load example_sb_platform 0x20000 = Ok (superblock_of example_superblock)"
proof -
  have "is_pow2_in_range 4096 4096 65536" "is_pow2_in_range 16384 4096 65536"
    by (simp_all add: is_pow2_in_range_def is_power_of_two_def upt_rec)
  then have "try_load_one example_sb_platform 0x10000 = Ok (CopyValid (superblock_of example_superblock))"
    using example_superblock_length example_superblock_fields
    by (simp add: try_load_one_def reader_read_def example_sb_platform_def superblock_parse_eq slice_def
        verify_crc32c_def crc32c_def flags_contain_def Let_def from_le_bytes_def layout format_consts)
  then show ?thesis by (simp add: superblock_load_def SUPERBLOCK_OFFSETS_def)
qed

lemma superblock_load_safe [outcome_safe]: "superblock_load P device_size \<noteq> Panic"
  by (auto simp: superblock_load_def load_loop_eq split: option.splits)

end
