(* ===== verification/Leaf_Volume.thy ===== *)
theory Leaf_Volume
  imports Block_Image
begin

text \<open>
  A volume whose one tree is a single leaf, written from a list of keys and item bytes. Reading it
  back gives the keys and the bytes: the write side of the format as the walker understands it, and
  the volume on which the readers of the higher layers are exercised.
\<close>

section \<open>Writing a leaf\<close>

type_synonym kv = "disk_key \<times> u8 list"

definition kv_item :: "kv list \<Rightarrow> nat \<Rightarrow> leaf_item" where
  "kv_item kvs i =
     \<lparr>li_key = fst (kvs ! i),
      li_offset = word_of_nat (25 * length kvs + length (concat (map snd (take i kvs)))),
      li_size = word_of_nat (length (snd (kvs ! i)))\<rparr>"

definition kv_leaf :: "kv list \<Rightarrow> tree_block" where
  "kv_leaf kvs =
     leaf_block (example_header 0 (word_of_nat (length kvs)) 0)
       (map (kv_item kvs) [0..<length kvs]) (concat (map snd kvs))"

definition kv_size :: "kv list \<Rightarrow> nat" where
  "kv_size kvs = 101 + 25 * length kvs + length (concat (map snd kvs))"

definition kv_nodesize :: "kv list \<Rightarrow> u32" where
  "kv_nodesize kvs = word_of_nat (kv_size kvs)"

definition kv_platform :: "kv list \<Rightarrow> platform" where
  "kv_platform kvs = slice_platform (tb_body (kv_leaf kvs)) (\<lambda>_. 0) (\<lambda>_. True)"

definition flat_map :: chunk_map where
  "flat_map =
     \<lparr>mappings =
        [\<lparr>cm_logical = 0, cm_length = 0x10000, cm_ty = 0, cm_stripe_len = 0x10000, cm_num_stripes = 1,
          cm_sub_stripes = 1,
          cm_stripes = [\<lparr>st_devid = 1, st_offset = 0, st_dev_uuid = replicate 16 0\<rparr>]\<rparr>],
      local_devid = Some 1\<rparr>"

definition kv_ok :: "kv list \<Rightarrow> bool" where
  "kv_ok kvs \<longleftrightarrow> kv_size kvs < 0x10000 \<and> sorted_wrt (<) (map fst kvs)"

section \<open>Reading it back\<close>

lemma flat_resolve:
  "unat a < 0x10000 \<Longrightarrow> chunk_map_resolve flat_map a =
   Ok \<lparr>rs_devid = 1, rs_physical = a, rs_contiguous_bytes = 0x10000 - a\<rparr>"
  by (simp add: chunk_map_resolve_def flat_map_def partition_point_def get_before_def
      pick_stripe_def chunk_profile_def format_consts checked_add_def plain_sub_def word_le_nat_alt
      Let_def)

lemma flat_map_wf: "chunk_map_wf flat_map"
  by (simp add: chunk_map_wf_def chunk_end_def flat_map_def)

lemma kv_header [simp]: "tb_header (kv_leaf kvs) = example_header 0 (word_of_nat (length kvs)) 0"
  by (simp add: kv_leaf_def)

lemma kv_nritems: "kv_ok kvs \<Longrightarrow> tb_nritems (kv_leaf kvs) = length kvs"
  by (simp add: kv_ok_def kv_size_def unat_word_of_nat_small)

lemma length_kv_items: "length (concat (map encode_leaf_item (map f [0..<n]))) = 25 * n"
  by (induction n) simp_all

lemma kv_body_length: "length (tb_body (kv_leaf kvs)) = kv_size kvs"
  using length_kv_items [of "kv_item kvs" "length kvs"]
  by (simp add: kv_leaf_def leaf_block_def length_encode_header kv_size_def)

lemma kv_item_read:
  assumes "kv_ok kvs" and "i < length kvs"
  shows "tb_leaf_item (kv_leaf kvs) i = Ok (kv_item kvs i)"
  unfolding kv_leaf_def
  using assms kv_nritems [OF assms(1)] by (subst leaf_block_item) simp_all

lemma concat_map_split:
  "i < length xs \<Longrightarrow>
   concat (map f xs) = concat (map f (take i xs)) @ f (xs ! i) @ concat (map f (drop (i + 1) xs))"
  using id_take_nth_drop [of i xs]
  by (metis Suc_eq_plus1 concat.simps(2) concat_append list.simps(9) map_append)

lemma kv_data_read:
  assumes "kv_ok kvs" and i: "i < length kvs"
  shows "tb_leaf_item_data (kv_leaf kvs) (kv_item kvs i) = Ok (snd (kvs ! i))"
proof -
  let ?D = "concat (map snd kvs)" and ?pre = "length (concat (map snd (take i kvs)))"
  let ?len = "length (snd (kvs ! i))"
  note sp = concat_map_split [OF i, of snd]
  have tk: "take ?len (drop ?pre ?D) = snd (kvs ! i)" by (subst sp) simp
  have fit: "?pre + ?len \<le> length ?D" 
    using arg_cong [OF sp, of length] by (simp only: length_append)
  have small: "25 * length kvs + ?pre < 2 ^ 32" "?len < 2 ^ 32"
    using assms(1) fit by (auto simp: kv_ok_def kv_size_def)
  let ?start = "101 + (25 * length kvs + ?pre)"
  have un: "unat (li_offset (kv_item kvs i)) = 25 * length kvs + ?pre"
    "unat (li_size (kv_item kvs i)) = ?len"
    using small unfolding kv_item_def leaf_item.simps by (subst unat_word_of_nat_small; simp)+
  have body: "drop ?start (tb_body (kv_leaf kvs)) = drop ?pre ?D"
    using length_kv_items [of "kv_item kvs" "length kvs"]
    by (simp add: kv_leaf_def leaf_block_def length_encode_header)
  have len: "?start + ?len \<le> length (tb_body (kv_leaf kvs))"
    using fit by (simp add: kv_body_length kv_size_def)
  have "as_usize (li_offset (kv_item kvs i)) = 25 * length kvs + ?pre"
    "as_usize (li_size (kv_item kvs i)) = ?len"
    using small un by (simp_all add: as_usize_def usize_max_def)
  moreover have "?start + ?len \<le> usize_max"
    using len assms(1) by (simp add: kv_ok_def kv_body_length usize_max_def)
  ultimately show ?thesis
    using len tk body
    by (simp add: tb_leaf_item_data_def Header_SIZE_def layout usize_checked_add_def slice_def)
qed

lemma kv_key_read:
  "kv_ok kvs \<Longrightarrow> i < length kvs \<Longrightarrow> tb_leaf_key (kv_leaf kvs) i = Ok (fst (kvs ! i))"
  by (simp add: tb_leaf_key_def kv_item_read) (simp add: kv_item_def)

lemma check_ascending_sorted:
  "(\<And>i. i \<in> set is \<Longrightarrow> key i = Ok (f i)) \<Longrightarrow> sorted_wrt (<) (prev # map f is) \<Longrightarrow>
   check_ascending key l prev is = Ok ()"
  by (induction "is" arbitrary: prev) (auto simp: not_le)

lemma kv_valid:
  assumes "kv_ok kvs"
  shows "validate_keys_strictly_ascending (kv_leaf kvs) = Ok ()"
proof (cases "length kvs < 2")
  case True
  then show ?thesis
    using kv_nritems [OF assms] by (simp add: validate_keys_strictly_ascending_def Let_def)
next
  case False
  have "map fst kvs = map (\<lambda>i. fst (kvs ! i)) [0..<length kvs]"
    by (rule nth_equalityI) simp_all
  also have "[0..<length kvs] = 0 # [1..<length kvs]" using False upt_conv_Cons [of 0 "length kvs"] by fastforce
  finally have "sorted_wrt (<) (fst (kvs ! 0) # map (\<lambda>i. fst (kvs ! i)) [1..<length kvs])"
    using assms by (simp add: kv_ok_def)
  then have "check_ascending (tb_leaf_key (kv_leaf kvs)) 0 (fst (kvs ! 0)) [1..<length kvs] = Ok ()"
    by (intro check_ascending_sorted) (auto simp: kv_key_read [OF assms])
  moreover have "tb_leaf_key (kv_leaf kvs) 0 = Ok (fst (kvs ! 0))"
    by (rule kv_key_read [OF assms]) (use False in linarith)
  ultimately show ?thesis
    using False kv_nritems [OF assms]
    by (simp add: validate_keys_strictly_ascending_def Let_def)
qed

text \<open>A device that serves the leaf at address 0, under a checksum the leaf carries.\<close>

definition serves_leaf :: "platform \<Rightarrow> kv list \<Rightarrow> bool" where
  "serves_leaf P kvs \<longleftrightarrow>
     reader_read P 0 (kv_size kvs) = Some (tb_body (kv_leaf kvs)) \<and> pf_crc32c P = (\<lambda>_. 0)"

lemma kv_platform_serves: "kv_ok kvs \<Longrightarrow> serves_leaf (kv_platform kvs) kvs"
  unfolding serves_leaf_def kv_platform_def
  by (subst reader_read_slice_platform) (simp_all add: kv_ok_def kv_body_length usize_max_def slice_platform_def)

lemma kv_read:
  assumes "kv_ok kvs" and "serves_leaf P kvs"
  shows "read_tree_block P flat_map (kv_nodesize kvs) 0 = Ok (kv_leaf kvs)"
proof (rule read_tree_block_contiguous [OF flat_resolve])
  have small: "kv_size kvs < 0x10000" using assms by (simp add: kv_ok_def)
  then have un: "unat (kv_nodesize kvs) = kv_size kvs"
    by (simp add: kv_nodesize_def unat_word_of_nat_small)
  show "ucast (kv_nodesize kvs) \<le> rs_contiguous_bytes
      \<lparr>rs_devid = 1, rs_physical = 0, rs_contiguous_bytes = 0x10000 - 0\<rparr>"
    using small by (simp add: word_le_nat_alt unat_ucast_u32_u64 un)
  show "101 \<le> unat (kv_nodesize kvs)" using un by (simp add: kv_size_def)
  show "reader_read P (rs_physical \<lparr>rs_devid = 1, rs_physical = 0, rs_contiguous_bytes = 0x10000 - 0\<rparr>)
      (unat (kv_nodesize kvs)) = Some (tb_body (kv_leaf kvs))"
    using assms(2) by (simp add: un serves_leaf_def)
  show "tb_header (kv_leaf kvs) = header_of (tb_body (kv_leaf kvs))"
    by (simp add: kv_leaf_def leaf_block_def header_of_encoded)
  have "take 32 (tb_body (kv_leaf kvs)) = replicate 32 0"
    by (simp add: kv_leaf_def leaf_block_def encode_header_def example_header_def)
  then show "verify_crc32c P (drop 32 (tb_body (kv_leaf kvs))) (take 32 (tb_body (kv_leaf kvs)))"
    using assms(2) by (simp add: verify_crc32c_def crc32c_def serves_leaf_def from_le_bytes_def)
qed (simp_all add: kv_valid [OF assms(1)])

lemma kv_tree_on:
  assumes "kv_ok kvs" and "serves_leaf P kvs"
  shows "tree_ok P flat_map (kv_nodesize kvs) 0"
    and "tree_slots P flat_map (kv_nodesize kvs) 0 = map (Pair (kv_leaf kvs)) [0..<length kvs]"
proof -
  have "load_tree P flat_map (kv_nodesize kvs) (Suc 15) 0 = Some (DLeaf (kv_leaf kvs))"
    unfolding load_tree.simps(2) using kv_read [OF assms] by simp
  then have "tree_of P flat_map (kv_nodesize kvs) 0 = Some (DLeaf (kv_leaf kvs))"
    by (simp add: tree_of_def MAX_TREE_DEPTH_def)
  then show "tree_ok P flat_map (kv_nodesize kvs) 0"
    and "tree_slots P flat_map (kv_nodesize kvs) 0 = map (Pair (kv_leaf kvs)) [0..<length kvs]"
    using kv_nritems [OF assms(1)] kv_item_read [OF assms(1)]
    by (simp_all add: tree_ok_def tree_slots_def leaf_slots_def list_all_iff)
qed

lemma kv_tree:
  assumes "kv_ok kvs"
  shows "tree_ok (kv_platform kvs) flat_map (kv_nodesize kvs) 0"
    and "tree_slots (kv_platform kvs) flat_map (kv_nodesize kvs) 0 = map (Pair (kv_leaf kvs)) [0..<length kvs]"
  using kv_tree_on [OF assms kv_platform_serves [OF assms]] by blast+

lemma kv_slot:
  assumes "kv_ok kvs" and "i < length kvs"
  shows "slot_key (kv_leaf kvs, i) = fst (kvs ! i)" and "slot_data (kv_leaf kvs, i) = Ok (snd (kvs ! i))"
  using kv_key_read [OF assms] kv_item_read [OF assms] kv_data_read [OF assms]
  by (simp_all add: slot_key_def slot_data_def)

lemma find_kv_slots:
  assumes "kv_ok kvs"
  shows "find Q (tree_slots (kv_platform kvs) flat_map (kv_nodesize kvs) 0) =
    map_option (Pair (kv_leaf kvs)) (find (\<lambda>i. Q (kv_leaf kvs, i)) [0..<length kvs])"
proof -
  have "find Q (map (Pair l) xs) = map_option (Pair l) (find (\<lambda>i. Q (l, i)) xs)" for l :: tree_block and xs
    by (induction xs) auto
  then show ?thesis by (simp add: kv_tree(2) [OF assms])
qed

section \<open>Properties\<close>

lemma find_upt_key:
  assumes "sorted_wrt (<) (map fst kvs)"
  shows "find (\<lambda>i. fst (kvs ! i) = (k :: disk_key)) [0..<length kvs] = Some j \<longleftrightarrow>
    j < length kvs \<and> fst (kvs ! j) = k"
proof
  assume "find (\<lambda>i. fst (kvs ! i) = k) [0..<length kvs] = Some j"
  then show "j < length kvs \<and> fst (kvs ! j) = k" by (auto simp: find_Some_iff)
next
  assume j: "j < length kvs \<and> fst (kvs ! j) = k"
  have "fst (kvs ! i) \<noteq> k" if "i < j" for i
    using sorted_wrt_nth_less [OF assms that] j that by (auto simp: nth_map)
  with j show "find (\<lambda>i. fst (kvs ! i) = k) [0..<length kvs] = Some j"
    by (auto simp: find_Some_iff intro!: exI [of _ j])
qed

text \<open>
  A leaf written from items in strictly ascending key order is read back item by item: looking a
  key up returns the slot of its item, whose data are the bytes written for it, and returns nothing
  for a key that was not written.
\<close>

lemma leaf_write_lookup_roundtrip:
  assumes "kv_size kvs < 0x10000" and "sorted_wrt (<) (map fst kvs)"
  shows "(\<forall>i < length kvs.
      find_exact (kv_platform kvs) flat_map (kv_nodesize kvs) 0 (fst (kvs ! i)) = Ok (Some (kv_leaf kvs, i)) \<and>
      slot_data (kv_leaf kvs, i) = Ok (snd (kvs ! i))) \<and>
    (\<forall>k. k \<notin> fst ` set kvs \<longrightarrow>
      find_exact (kv_platform kvs) flat_map (kv_nodesize kvs) 0 k = Ok None)"
proof -
  have ok: "kv_ok kvs" using assms by (simp add: kv_ok_def)
  have eq: "find_exact (kv_platform kvs) flat_map (kv_nodesize kvs) 0 k =
      Ok (map_option (Pair (kv_leaf kvs)) (find (\<lambda>i. fst (kvs ! i) = k) [0..<length kvs]))" for k
  proof -
    have "find (\<lambda>i. slot_key (kv_leaf kvs, i) = k) [0..<length kvs] =
        find (\<lambda>i. fst (kvs ! i) = k) [0..<length kvs]"
      by (rule find_cong) (auto simp: kv_slot(1) [OF ok])
    then show ?thesis by (simp add: find_exact_eq [OF kv_tree(1) [OF ok]] find_kv_slots [OF ok])
  qed
  have "find (\<lambda>i. fst (kvs ! i) = k) [0..<length kvs] = None" if "k \<notin> fst ` set kvs" for k
    using that by (auto simp: find_None_iff)
  with eq kv_slot(2) [OF ok] find_upt_key [OF assms(2)] show ?thesis by simp
qed

end
