(* ===== verification/Inode.thy ===== *)
theory Inode
  imports Prelude
begin

unbundle bit_operations_syntax

text \<open>Inode handles and metadata (\<^verbatim>\<open>src/inode.rs\<close>).\<close>

record inode =
  ino_subvol :: u64
  ino_tree_root :: u64
  ino_objectid :: u64

definition inode_objectid :: "inode \<Rightarrow> u64" where
  "inode_objectid i = ino_objectid i"

definition inode_subvolume :: "inode \<Rightarrow> u64" where
  "inode_subvolume i = ino_subvol i"

record metadata =
  md_size :: u64
  md_nbytes :: u64
  md_nlink :: u32
  md_mode :: u32
  md_uid :: u32
  md_gid :: u32
  md_generation :: u64

text \<open>The mode masks: octal 170000, 100000, 040000 and 120000.\<close>

definition is_file :: "metadata \<Rightarrow> bool" where
  "is_file m \<longleftrightarrow> md_mode m AND 0xF000 = 0x8000"

definition is_dir :: "metadata \<Rightarrow> bool" where
  "is_dir m \<longleftrightarrow> md_mode m AND 0xF000 = 0x4000"

definition is_symlink :: "metadata \<Rightarrow> bool" where
  "is_symlink m \<longleftrightarrow> md_mode m AND 0xF000 = 0xA000"

lemma kinds_exclusive:
  "is_file m \<Longrightarrow> \<not> is_dir m" "is_file m \<Longrightarrow> \<not> is_symlink m" "is_dir m \<Longrightarrow> \<not> is_symlink m"
  by (simp_all add: is_file_def is_dir_def is_symlink_def)

end
