(* ===== verification/Root_Tree.thy ===== *)
theory Root_Tree
  imports Leaf_Volume Inode
begin

text \<open>
  The root tree (\<^verbatim>\<open>src/root_tree.rs\<close>): the default subvolume, the root directory of a subvolume and
  the links between subvolumes. Directory items pack several entries whose names share a hash; the
  theory relates the unpacking loops to the list of entries that was packed.
\<close>

section \<open>Name hash and the default entry\<close>

definition name_hash :: "u8 list \<Rightarrow> u64" where
  "name_hash name = ucast (crc32c_with_seed NAME_HASH_SEED name)"

text \<open>The bytes of \<^verbatim>\<open>b"default"\<close>.\<close>

definition default_name :: "u8 list" where
  "default_name = [0x64, 0x65, 0x66, 0x61, 0x75, 0x6C, 0x74]"

function default_entry_loop :: "u64 \<Rightarrow> u8 list \<Rightarrow> nat \<Rightarrow> u64 option outcome" where
  "default_entry_loop bytenr data p =
    (if \<not> p < length data then Ok None
     else
     obind (dir_entry_parse data p) (\<lambda>parsed. case parsed of
       None \<Rightarrow> Err (CorruptBtree ''dir_entry_short'' bytenr)
     | Some (entry, next_p) \<Rightarrow>
         if de_name entry = default_name then Ok (Some (key_objectid (de_location entry)))
         else default_entry_loop bytenr data next_p))"
  by pat_completeness auto
termination
  by (relation "measure (\<lambda>(bytenr, data, p). length data - p)")
    (auto simp: dir_entry_parse_eq diff_less_mono2 dir_entry_end_gt split: if_splits)

declare default_entry_loop.simps [simp del]

definition lookup_default_dir_item :: "platform \<Rightarrow> chunk_map \<Rightarrow> u32 \<Rightarrow> u64 \<Rightarrow> u64 option outcome" where
  "lookup_default_dir_item P cm nodesize root_tree_root =
    (let target = DiskKey ROOT_TREE_DIR_OBJECTID DIR_ITEM_KEY (name_hash default_name) in
     obind (find_exact P cm nodesize root_tree_root target) (\<lambda>location. case location of
       None \<Rightarrow> Ok None
     | Some (leaf, idx) \<Rightarrow>
     obind (tb_leaf_item leaf idx) (\<lambda>item.
     obind (tb_leaf_item_data leaf item) (\<lambda>data.
     default_entry_loop (tb_bytenr leaf) data 0))))"

section \<open>Subvolume roots\<close>

definition lookup_root_item ::
  "platform \<Rightarrow> chunk_map \<Rightarrow> u32 \<Rightarrow> u64 \<Rightarrow> u64 \<Rightarrow> root_item option outcome" where
  "lookup_root_item P cm nodesize root_tree_root subvol_objectid =
     obind (find_first_ge P cm nodesize root_tree_root (DiskKey subvol_objectid ROOT_ITEM_KEY 0))
       (\<lambda>location. case location of
       None \<Rightarrow> Ok None
     | Some (leaf, idx) \<Rightarrow>
     obind (tb_leaf_item leaf idx) (\<lambda>item.
     if key_objectid (li_key item) \<noteq> subvol_objectid \<or> key_item_type (li_key item) \<noteq> ROOT_ITEM_KEY
     then Ok None
     else
     obind (tb_leaf_item_data leaf item) (\<lambda>data.
     obind (root_item_parse data 0) (\<lambda>parsed.
     obind (ok_or parsed (CorruptBtree ''root_item_short'' (tb_bytenr leaf))) (\<lambda>parsed.
     Ok (Some parsed))))))"

definition subvol_root :: "platform \<Rightarrow> chunk_map \<Rightarrow> u32 \<Rightarrow> u64 \<Rightarrow> u64 \<Rightarrow> inode outcome" where
  "subvol_root P cm nodesize root_tree_root sid =
     obind (lookup_root_item P cm nodesize root_tree_root sid) (\<lambda>found.
     obind (ok_or found NotFound) (\<lambda>root_item.
     if ri_refs root_item = 0 then Err NotFound
     else Ok \<lparr>ino_subvol = sid, ino_tree_root = ri_bytenr root_item,
              ino_objectid = FIRST_FREE_OBJECTID\<rparr>))"

definition resolve_default_subvol ::
  "platform \<Rightarrow> chunk_map \<Rightarrow> u32 \<Rightarrow> u64 \<Rightarrow> u64 \<Rightarrow> inode outcome" where
  "resolve_default_subvol P cm nodesize root_tree_root superblock_default_objectid =
     obind (lookup_default_dir_item P cm nodesize root_tree_root) (\<lambda>found.
     let subvol_objectid = (case found of
           Some oid \<Rightarrow> oid
         | None \<Rightarrow>
             if superblock_default_objectid = 0 \<or> superblock_default_objectid = 6
             then FS_TREE_OBJECTID else superblock_default_objectid) in
     case subvol_root P cm nodesize root_tree_root subvol_objectid of
       Err e \<Rightarrow>
         if e = NotFound then Err (CorruptBtree ''subvol_root_missing'' root_tree_root) else Err e
     | other \<Rightarrow> other)"

section \<open>Subvolume links\<close>

record subvol_link =
  sl_parent :: u64
  sl_dirid :: u64
  sl_name :: "u8 list"
  sl_child :: u64

definition ROOT_REF_HEADER :: nat where
  "ROOT_REF_HEADER = 18"

text \<open>\<^verbatim>\<open>slice::get\<close> with a range.\<close>

definition slice_get :: "'a list \<Rightarrow> nat \<Rightarrow> nat \<Rightarrow> 'a list option" where
  "slice_get xs start stop =
     (if start \<le> stop \<and> stop \<le> length xs then Some (take (stop - start) (drop start xs)) else None)"

definition root_ref_links ::
  "platform \<Rightarrow> chunk_map \<Rightarrow> u32 \<Rightarrow> u64 \<Rightarrow> subvol_link \<Rightarrow> bool outcome" where
  "root_ref_links P cm nodesize root_tree_root link =
    (let target = DiskKey (sl_parent link) ROOT_REF_KEY (sl_child link) in
     obind (find_exact P cm nodesize root_tree_root target) (\<lambda>location. case location of
       None \<Rightarrow> Ok False
     | Some (leaf, idx) \<Rightarrow>
     obind (tb_leaf_item leaf idx) (\<lambda>item.
     obind (tb_leaf_item_data leaf item) (\<lambda>data.
     let short = CorruptBtree ''root_ref_short'' (tb_bytenr leaf) in
     if length data < ROOT_REF_HEADER then Err short
     else
     obind (read_le_u64 data 0) (\<lambda>dirid.
     obind (read_le_u16 data 16) (\<lambda>name_len.
     obind (ok_or (slice_get data ROOT_REF_HEADER (ROOT_REF_HEADER + unat name_len)) short) (\<lambda>name.
     Ok (dirid = sl_dirid link \<and> name = sl_name link))))))))"

section \<open>Panic freedom\<close>

lemma default_entry_loop_safe: "default_entry_loop bytenr data p \<noteq> Panic"
proof (induction bytenr data p rule: default_entry_loop.induct)
  case (1 bytenr data p)
  then show ?case
    by (subst default_entry_loop.simps)
      (auto simp: outcome_simps dir_entry_parse_eq split: option.splits if_splits)
qed

lemma lookup_default_dir_item_safe [outcome_safe]: "lookup_default_dir_item P cm ns root \<noteq> Panic"
  by (auto simp: lookup_default_dir_item_def Let_def outcome_simps find_exact_safe tb_leaf_item_safe
      tb_leaf_item_data_safe default_entry_loop_safe split: option.splits)

lemma lookup_root_item_safe [outcome_safe]: "lookup_root_item P cm ns root sid \<noteq> Panic"
  by (auto simp: lookup_root_item_def outcome_simps find_first_ge_safe tb_leaf_item_safe
      tb_leaf_item_data_safe root_item_parse_eq split: option.splits if_splits)

lemma subvol_root_safe [outcome_safe]: "subvol_root P cm ns root sid \<noteq> Panic"
  by (auto simp: subvol_root_def outcome_simps lookup_root_item_safe split: if_splits)

lemma resolve_default_subvol_safe [outcome_safe]: "resolve_default_subvol P cm ns root hint \<noteq> Panic"
  using subvol_root_safe [of P cm ns root]
  by (auto simp: resolve_default_subvol_def outcome_simps Let_def lookup_default_dir_item_safe
      split: outcome.splits if_splits)

lemma root_ref_links_safe [outcome_safe]: "root_ref_links P cm ns root link \<noteq> Panic"
  by (auto simp: root_ref_links_def Let_def outcome_simps find_exact_safe tb_leaf_item_safe
      tb_leaf_item_data_safe read_le_defs ROOT_REF_HEADER_def split: option.splits if_splits)

section \<open>Packed directory entries\<close>

type_synonym packed_entry = "dir_entry \<times> u8 list"

definition entry_ok :: "packed_entry \<Rightarrow> bool" where
  "entry_ok e \<longleftrightarrow> length (de_name (fst e)) = unat (de_name_len (fst e)) \<and>
     length (snd e) = unat (de_data_len (fst e))"

definition encode_packed :: "packed_entry list \<Rightarrow> u8 list" where
  "encode_packed es = concat (map (\<lambda>(e, d). encode_dir_entry e d) es)"

lemma packed_parse:
  assumes "entry_ok (e, d)"
  shows "dir_entry_parse (pre @ encode_packed ((e, d) # es)) (length pre) =
    Ok (Some (e, length (pre @ encode_dir_entry e d)))"
  using dir_entry_roundtrip [of e d pre "encode_packed es"] assms
  by (simp add: entry_ok_def encode_packed_def)

lemma encode_dir_entry_pos: "0 < length (encode_dir_entry e d)"
  by (simp add: encode_defs)

lemma default_entry_loop_packed:
  "list_all entry_ok es \<Longrightarrow>
   default_entry_loop bytenr (pre @ encode_packed es) (length pre) =
     Ok (map_option (key_objectid \<circ> de_location) (find (\<lambda>e. de_name e = default_name) (map fst es)))"
proof (induction es arbitrary: pre)
  case Nil
  then show ?case by (simp add: default_entry_loop.simps encode_packed_def)
next
  case (Cons ed es)
  obtain e d where ed: "ed = (e, d)" by (cases ed)
  let ?buf = "pre @ encode_packed (ed # es)"
  have buf: "?buf = (pre @ encode_dir_entry e d) @ encode_packed es"
    by (simp add: ed encode_packed_def)
  have "length pre < length ?buf" using encode_dir_entry_pos [of e d] by (simp add: buf)
  moreover have "dir_entry_parse ?buf (length pre) = Ok (Some (e, length (pre @ encode_dir_entry e d)))"
    unfolding ed using Cons.prems by (intro packed_parse) (simp add: ed)
  moreover have "default_entry_loop bytenr ?buf (length (pre @ encode_dir_entry e d)) =
      Ok (map_option (key_objectid \<circ> de_location) (find (\<lambda>e. de_name e = default_name) (map fst es)))"
    unfolding buf using Cons.prems by (intro Cons.IH) simp
  ultimately show ?case
    by (subst default_entry_loop.simps) (simp add: ed)
qed

section \<open>Lookups in a well-formed root tree\<close>

abbreviation item_slot :: "platform \<Rightarrow> chunk_map \<Rightarrow> u32 \<Rightarrow> u64 \<Rightarrow> u64 \<Rightarrow> u8 \<Rightarrow> slot option" where
  "item_slot P cm ns root objectid item_type \<equiv>
     find (of_object objectid item_type) (tree_slots P cm ns root)"

lemma seek_item:
  assumes "tree_ok P cm ns root"
  obtains r where "find_first_ge P cm ns root (DiskKey objectid item_type 0) = Ok r"
    "item_slot P cm ns root objectid item_type =
       (case r of Some s \<Rightarrow> if of_object objectid item_type s then Some s else None | None \<Rightarrow> None)"
    "\<And>s. r = Some s \<Longrightarrow> \<exists>it. tb_leaf_item (fst s) (snd s) = Ok it \<and> li_key it = slot_key s"
proof -
  let ?T = "(P, cm, ns, root)"
  have inv: "case ?T of (P, cm, ns, root) \<Rightarrow> tree_ok P cm ns root" using assms by simp
  from walker.seek_object [OF inv, of objectid item_type] obtain r where
    r: "find_first_ge P cm ns root (DiskKey objectid item_type 0) = Ok r"
    "item_slot P cm ns root objectid item_type =
       (case r of Some s \<Rightarrow> if of_object objectid item_type s then Some s else None | None \<Rightarrow> None)"
    by auto
  have "\<exists>it. tb_leaf_item (fst s) (snd s) = Ok it \<and> li_key it = slot_key s" if "r = Some s" for s
  proof -
    from that r(1) walker.seek_first [OF inv, of "DiskKey objectid item_type 0"]
    have "find (\<lambda>s. DiskKey objectid item_type 0 \<le> slot_key s) (tree_slots P cm ns root) = Some s" by simp
    then have "s \<in> set (tree_slots P cm ns root)" by (auto simp: find_Some_iff)
    with walker.slots_readable [OF inv, of "fst s" "snd s"] show ?thesis by simp
  qed
  with that r show ?thesis by blast
qed

lemma lookup_root_item_eq:
  assumes "tree_ok P cm ns root"
  shows "lookup_root_item P cm ns root sid =
    (case item_slot P cm ns root sid ROOT_ITEM_KEY of
       None \<Rightarrow> Ok None
     | Some s \<Rightarrow> obind (slot_data s) (\<lambda>data.
         if length data < 239 then Err (CorruptBtree ''root_item_short'' (tb_bytenr (fst s)))
         else Ok (Some (root_item_of data 0))))"
proof -
  from assms obtain r where r: "find_first_ge P cm ns root (DiskKey sid ROOT_ITEM_KEY 0) = Ok r"
    and slot: "item_slot P cm ns root sid ROOT_ITEM_KEY =
       (case r of Some s \<Rightarrow> if of_object sid ROOT_ITEM_KEY s then Some s else None | None \<Rightarrow> None)"
    and it: "\<And>s. r = Some s \<Longrightarrow> \<exists>it. tb_leaf_item (fst s) (snd s) = Ok it \<and> li_key it = slot_key s"
    by (rule seek_item) blast
  show ?thesis
  proof (cases r)
    case None
    with r slot show ?thesis by (simp add: lookup_root_item_def)
  next
    case (Some s)
    with it obtain item where "tb_leaf_item (fst s) (snd s) = Ok item" "li_key item = slot_key s" by blast
    with Some r slot show ?thesis
      by (cases s) (auto simp: lookup_root_item_def of_object_def slot_data_def root_item_parse_eq
          intro!: obind_cong)
  qed
qed

lemma RootItem_MIN_SIZE_eq: "RootItem_MIN_SIZE = 239"
  by (simp add: layout)

text \<open>
  The subvolume the default entry selects: the first entry named \<^verbatim>\<open>default\<close> of the directory item,
  else the superblock's hint, where 0 and 6 stand for the top level.
\<close>

definition default_objectid :: "u64 \<Rightarrow> packed_entry list \<Rightarrow> u64" where
  "default_objectid hint es =
     (case find (\<lambda>e. de_name e = default_name) (map fst es) of
        Some e \<Rightarrow> key_objectid (de_location e)
      | None \<Rightarrow> if hint = 0 \<or> hint = 6 then 5 else hint)"

section \<open>A volume with one subvolume and one file\<close>

text \<open>
  One leaf serves as the root tree and as the tree of subvolume 5, whose root item points back to
  it; a link entry names it as \<^verbatim>\<open>s\<close> in its own root directory. The directory holds the entry \<^verbatim>\<open>a\<close>, inode 257, a file with an inline extent of two bytes.
\<close>

definition example_entry :: "u8 list \<Rightarrow> disk_key \<Rightarrow> packed_entry" where
  "example_entry name location =
     (\<lparr>de_location = location, de_transid = 1, de_data_len = 0, de_name_len = word_of_nat (length name),
       de_ty = 1, de_name = name\<rparr>, [])"

definition example_root_item :: "u8 list" where
  "example_root_item = replicate 216 0 @ le_bytes (1 :: u32) @ replicate 19 0"

definition example_fs :: "kv list" where
  "example_fs =
     [(DiskKey 5 132 0, example_root_item),
      (DiskKey 5 156 5, le_bytes (256 :: u64) @ le_bytes (3 :: u64) @ le_bytes (1 :: u16) @ [0x73]),
      (DiskKey 6 84 (name_hash default_name),
       encode_packed [example_entry default_name (DiskKey 5 132 0)]),
      (DiskKey 256 84 (name_hash [0x61]), encode_packed [example_entry [0x61] (DiskKey 257 1 0)]),
      (DiskKey 256 96 2, encode_packed [example_entry [0x61] (DiskKey 257 1 0)]),
      (DiskKey 257 1 0,
       replicate 16 0 @ le_bytes (2 :: u64) @ replicate 16 0 @ le_bytes (1 :: u32)
       @ le_bytes (0 :: u32) @ le_bytes (0 :: u32) @ le_bytes (0x81A4 :: u32) @ replicate 104 0),
      (DiskKey 257 108 0, replicate 8 0 @ le_bytes (2 :: u64) @ replicate 5 0 @ [0x68, 0x69])]"

lemma example_fs_ok: "kv_ok example_fs"
  by (simp add: kv_ok_def kv_size_def example_fs_def disk_key_less_iff example_entry_def encode_packed_def
      encode_defs default_name_def example_root_item_def)

abbreviation fsP :: platform where "fsP \<equiv> kv_platform example_fs"
abbreviation fsN :: u32 where "fsN \<equiv> kv_nodesize example_fs"

lemmas example_fs_tree = kv_tree(1) [OF example_fs_ok]

lemma length_example_fs: "length example_fs = 7"
  by (simp add: example_fs_def)

lemma example_fs_upt: "[0..<length example_fs] = [0, 1, 2, 3, 4, 5, 6]"
  by (simp add: length_example_fs upt_rec)

lemma example_fs_keys:
  "slot_key (kv_leaf example_fs, 0) = DiskKey 5 132 0"
  "slot_key (kv_leaf example_fs, Suc 0) = DiskKey 5 156 5"
  "slot_key (kv_leaf example_fs, 2) = DiskKey 6 84 (name_hash default_name)"
  "slot_key (kv_leaf example_fs, 3) = DiskKey 256 84 (name_hash [0x61])"
  "slot_key (kv_leaf example_fs, 4) = DiskKey 256 96 2"
  "slot_key (kv_leaf example_fs, 5) = DiskKey 257 1 0"
  "slot_key (kv_leaf example_fs, 6) = DiskKey 257 108 0"
  by (subst kv_slot(1) [OF example_fs_ok]; simp add: example_fs_def)+

lemma example_fs_find:
  "find Q (tree_slots fsP flat_map fsN 0) =
   map_option (Pair (kv_leaf example_fs)) (find (\<lambda>i. Q (kv_leaf example_fs, i)) [0, 1, 2, 3, 4, 5, 6])"
  unfolding find_kv_slots [OF example_fs_ok] example_fs_upt ..

lemma example_fs_data:
  "slot_data (kv_leaf example_fs, 0) = Ok example_root_item"
  "slot_data (kv_leaf example_fs, Suc 0) =
     Ok (le_bytes (256 :: u64) @ le_bytes (3 :: u64) @ le_bytes (1 :: u16) @ [0x73])"
  "slot_data (kv_leaf example_fs, 2) = Ok (encode_packed [example_entry default_name (DiskKey 5 132 0)])"
  "slot_data (kv_leaf example_fs, 3) = Ok (encode_packed [example_entry [0x61] (DiskKey 257 1 0)])"
  "slot_data (kv_leaf example_fs, 4) = Ok (encode_packed [example_entry [0x61] (DiskKey 257 1 0)])"
  by (subst kv_slot(2) [OF example_fs_ok]; simp add: example_fs_def)+

lemma example_root_item_fields:
  "length example_root_item = 239" "ri_refs (root_item_of example_root_item 0) = 1"
  "ri_bytenr (root_item_of example_root_item 0) = 0"
  by (simp_all add: example_root_item_def root_item_of_def le_field_def from_le_bytes_le_bytes)

lemma example_entry_ok: "length name < 2 ^ 16 \<Longrightarrow> entry_ok (example_entry name location)"
  by (simp add: entry_ok_def example_entry_def unat_word_of_nat_small)

section \<open>Properties\<close>

text \<open>
  C29. In a well-formed root tree, the root directory of a subvolume is found exactly when the tree has
  a \<^verbatim>\<open>ROOT_ITEM\<close> for the id and its first one is live; it is inode 256 of the tree that item points to.
\<close>

theorem subvol_root_spec:
  assumes "tree_ok P cm nodesize root_tree_root"
  shows "subvol_root P cm nodesize root_tree_root sid = Ok ino \<longleftrightarrow>
    (\<exists>s data. find (of_object sid ROOT_ITEM_KEY) (tree_slots P cm nodesize root_tree_root) = Some s \<and>
       slot_data s = Ok data \<and> RootItem_MIN_SIZE \<le> length data \<and> ri_refs (root_item_of data 0) \<noteq> 0 \<and>
       ino = \<lparr>ino_subvol = sid, ino_tree_root = ri_bytenr (root_item_of data 0), ino_objectid = 256\<rparr>)"
proof (cases "find (of_object sid ROOT_ITEM_KEY) (tree_slots P cm nodesize root_tree_root)")
  case None
  then show ?thesis by (simp add: subvol_root_def lookup_root_item_eq [OF assms])
next
  case (Some s)
  then show ?thesis
    by (cases "slot_data s")
      (auto simp: subvol_root_def lookup_root_item_eq [OF assms] RootItem_MIN_SIZE_eq
        FIRST_FREE_OBJECTID_def)
qed

lemma example_subvol_root:
  "subvol_root fsP flat_map fsN 0 5 = Ok \<lparr>ino_subvol = 5, ino_tree_root = 0, ino_objectid = 256\<rparr>"
  by (simp add: subvol_root_def lookup_root_item_eq [OF example_fs_tree] example_fs_find of_object_def
      example_fs_keys example_fs_data example_root_item_fields format_consts)

theorem subvol_root_spec_witness:
  "tree_ok fsP flat_map fsN 0 \<and>
   subvol_root fsP flat_map fsN 0 5 = Ok \<lparr>ino_subvol = 5, ino_tree_root = 0, ino_objectid = 256\<rparr>"
  using subvol_root_spec [OF example_fs_tree, of 5 "\<lparr>ino_subvol = 5, ino_tree_root = 0, ino_objectid = 256\<rparr>"]
    example_fs_tree
  by (simp add: example_fs_find of_object_def example_fs_keys example_fs_data example_root_item_fields
      RootItem_MIN_SIZE_eq ROOT_ITEM_KEY_def)

text \<open>
  In a well-formed root tree, opening at the default subvolume opens the subvolume that the
  directory item at \<^verbatim>\<open>(6, DIR_ITEM, hash of "default")\<close> names, picking the entry by its exact name among
  those packed together; without such an entry the superblock's hint decides. A default that does
  not exist is corruption, not a missing file.
\<close>

lemma default_subvol_spec:
  assumes "tree_ok P cm nodesize root_tree_root" and "list_all entry_ok es"
    and "case find (\<lambda>s. slot_key s = DiskKey 6 84 (name_hash default_name))
           (tree_slots P cm nodesize root_tree_root) of
         None \<Rightarrow> es = [] | Some s \<Rightarrow> slot_data s = Ok (encode_packed es)"
  shows "resolve_default_subvol P cm nodesize root_tree_root hint =
    (case subvol_root P cm nodesize root_tree_root (default_objectid hint es) of
       Err e \<Rightarrow> Err (if e = NotFound then CorruptBtree ''subvol_root_missing'' root_tree_root else e)
     | r \<Rightarrow> r)"
proof -
  let ?k = "DiskKey 6 84 (name_hash default_name)"
  have "lookup_default_dir_item P cm nodesize root_tree_root =
      Ok (map_option (key_objectid \<circ> de_location) (find (\<lambda>e. de_name e = default_name) (map fst es)))"
  proof (cases "find (\<lambda>s. slot_key s = ?k) (tree_slots P cm nodesize root_tree_root)")
    case None
    with assms show ?thesis
      by (simp add: lookup_default_dir_item_def find_exact_eq Let_def format_consts)
  next
    case (Some s)
    with assms(3) have "slot_data s = Ok (encode_packed es)" by simp
    with Some assms(1,2) default_entry_loop_packed [of es "tb_bytenr (fst s)" "[]"] show ?thesis
      by (cases s) (auto simp: lookup_default_dir_item_def find_exact_eq Let_def format_consts
          slot_data_def outcome_simps)
  qed
  then show ?thesis
    by (cases "find (\<lambda>e. de_name e = default_name) (map fst es)")
      (auto simp: resolve_default_subvol_def default_objectid_def Let_def FS_TREE_OBJECTID_def
        split: outcome.splits)
qed

end
