(* ===== verification/Path.thy ===== *)
theory Path
  imports Prelude
begin

text \<open>
  Paths and their components (\<^verbatim>\<open>src/path.rs\<close>). The iterator is modelled call by call; collecting it is
  shown to be the filtered split of the bytes at the slashes.
\<close>

section \<open>The path type\<close>

record path =
  path_bytes :: "u8 list"

abbreviation slash :: u8 where "slash \<equiv> 0x2F"
abbreviation dot :: u8 where "dot \<equiv> 0x2E"

definition path_new :: "u8 list \<Rightarrow> path option" where
  "path_new bs = (if bs = [] \<or> hd bs \<noteq> slash then None else Some \<lparr>path_bytes = bs\<rparr>)"


text \<open>\<^verbatim>\<open>From<&str>\<close>: the bytes of the string, unchecked.\<close>

definition path_from :: "u8 list \<Rightarrow> path" where
  "path_from s = \<lparr>path_bytes = s\<rparr>"

section \<open>The component iterator\<close>

declare dropWhile_eq_Nil_conv [simp del]

record components =
  cs_bytes :: "u8 list"

definition components :: "path \<Rightarrow> components" where
  "components p = \<lparr>cs_bytes = path_bytes p\<rparr>"

text \<open>
  \<^verbatim>\<open>Components::next\<close>: the component returned and the iterator after the call. \<^verbatim>\<open>position(|b| *b == b'/')\<close>
  with its default cuts at the first slash or at the end.
\<close>

function components_next :: "components \<Rightarrow> u8 list option \<times> components" where
  "components_next cs =
    (let bs = dropWhile (\<lambda>b. b = slash) (cs_bytes cs) in
     if bs = [] then (None, cs\<lparr>cs_bytes := bs\<rparr>)
     else
       let component = takeWhile (\<lambda>b. b \<noteq> slash) bs;
           cs' = cs\<lparr>cs_bytes := dropWhile (\<lambda>b. b \<noteq> slash) bs\<rparr> in
       if component = [dot] then components_next cs' else (Some component, cs'))"
  by pat_completeness auto

text \<open>Each call consumes bytes: past the slashes there is at least one byte of a component.\<close>

lemma dropWhile_component_shorter:
  assumes "dropWhile (\<lambda>b. b = slash) bs \<noteq> []"
  shows "length (dropWhile (\<lambda>b. b \<noteq> slash) (dropWhile (\<lambda>b. b = slash) bs)) < length bs"
proof -
  let ?r = "dropWhile (\<lambda>b. b = slash) bs"
  from assms obtain c rest where r: "?r = c # rest" by (cases ?r) auto
  moreover from r have "c \<noteq> slash" using hd_dropWhile [of "\<lambda>b. b = slash" bs] by auto
  ultimately have "length (dropWhile (\<lambda>b. b \<noteq> slash) ?r) \<le> length rest"
    by (simp add: length_dropWhile_le)
  also have "length rest < length bs"
    using length_dropWhile_le [of "\<lambda>b. b = slash" bs] r by simp
  finally show ?thesis .
qed

termination components_next
  by (relation "measure (length \<circ> cs_bytes)") (auto intro: dropWhile_component_shorter)

declare components_next.simps [simp del]

text \<open>What the iterator does on the next component.\<close>

lemma components_next_cases:
  fixes cs :: components
  defines "r \<equiv> dropWhile (\<lambda>b. b = slash) (cs_bytes cs)"
  shows "components_next cs =
    (if r = [] then (None, \<lparr>cs_bytes = []\<rparr>)
     else if takeWhile (\<lambda>b. b \<noteq> slash) r = [dot]
     then components_next \<lparr>cs_bytes = dropWhile (\<lambda>b. b \<noteq> slash) r\<rparr>
     else (Some (takeWhile (\<lambda>b. b \<noteq> slash) r), \<lparr>cs_bytes = dropWhile (\<lambda>b. b \<noteq> slash) r\<rparr>))"
  unfolding r_def by (subst components_next.simps) (cases cs; simp add: Let_def)

lemma components_next_shorter:
  "components_next cs = (Some c, cs') \<Longrightarrow> length (cs_bytes cs') < length (cs_bytes cs)"
proof (induction "length (cs_bytes cs)" arbitrary: cs rule: less_induct)
  case less
  let ?r = "dropWhile (\<lambda>b. b = slash) (cs_bytes cs)"
  let ?rest = "\<lparr>cs_bytes = dropWhile (\<lambda>b. b \<noteq> slash) ?r\<rparr> :: components"
  from less.prems have ne: "?r \<noteq> []" by (auto simp: components_next_cases [of cs] split: if_splits)
  then have lt: "length (cs_bytes ?rest) < length (cs_bytes cs)"
    by (simp add: dropWhile_component_shorter)
  show ?case
  proof (cases "takeWhile (\<lambda>b. b \<noteq> slash) ?r = [dot]")
    case True
    with less.prems ne have "components_next ?rest = (Some c, cs')"
      by (simp add: components_next_cases [of cs])
    from less.hyps [OF lt this] lt show ?thesis by simp
  next
    case False
    with less.prems ne have "cs' = ?rest" by (simp add: components_next_cases [of cs])
    with lt show ?thesis by simp
  qed
qed

text \<open>The \<^verbatim>\<open>for\<close> loop and \<^verbatim>\<open>collect\<close> run the iterator until it returns \<^verbatim>\<open>None\<close>.\<close>

function collect_components :: "components \<Rightarrow> u8 list list" where
  "collect_components cs =
    (case components_next cs of
       (None, _) \<Rightarrow> []
     | (Some c, cs') \<Rightarrow> c # collect_components cs')"
  by pat_completeness auto
termination
  by (relation "measure (length \<circ> cs_bytes)") (auto intro: components_next_shorter [OF sym])

declare collect_components.simps [simp del]

definition path_components :: "path \<Rightarrow> u8 list list" where
  "path_components p = collect_components (components p)"

section \<open>Splitting at the slashes\<close>

fun split_slash :: "u8 list \<Rightarrow> u8 list list" where
  "split_slash [] = [[]]"
| "split_slash (b # bs) =
     (if b = slash then [] # split_slash bs
      else case split_slash bs of [] \<Rightarrow> [[b]] | c # cs \<Rightarrow> (b # c) # cs)"

definition real_component :: "u8 list \<Rightarrow> bool" where
  "real_component c \<longleftrightarrow> c \<noteq> [] \<and> c \<noteq> [dot]"

definition components_reference :: "u8 list \<Rightarrow> u8 list list" where
  "components_reference bs = filter real_component (split_slash bs)"

lemma split_slash_unfold:
  "split_slash bs = takeWhile (\<lambda>b. b \<noteq> slash) bs #
     (case dropWhile (\<lambda>b. b \<noteq> slash) bs of [] \<Rightarrow> [] | _ # r \<Rightarrow> split_slash r)"
  by (induction bs) auto

lemma reference_skip_slashes:
  "components_reference (dropWhile (\<lambda>b. b = slash) bs) = components_reference bs"
  by (induction bs) (auto simp: components_reference_def real_component_def)

lemma reference_component:
  "components_reference bs = filter real_component [takeWhile (\<lambda>b. b \<noteq> slash) bs] @
     components_reference (dropWhile (\<lambda>b. b \<noteq> slash) bs)"
proof -
  let ?r = "dropWhile (\<lambda>b. b \<noteq> slash) bs"
  have "components_reference ?r = (case ?r of [] \<Rightarrow> [] | _ # r \<Rightarrow> components_reference r)"
  proof (cases ?r)
    case (Cons c r)
    then have "c = slash" using hd_dropWhile [of "\<lambda>b. b \<noteq> slash" bs] by auto
    with Cons show ?thesis by (simp add: components_reference_def real_component_def)
  qed (simp add: components_reference_def real_component_def)
  then show ?thesis
    by (subst components_reference_def, subst split_slash_unfold)
      (simp add: components_reference_def split: list.splits)
qed

lemma takeWhile_component_ne:
  "dropWhile (\<lambda>b. b = slash) bs \<noteq> [] \<Longrightarrow>
   takeWhile (\<lambda>b. b \<noteq> slash) (dropWhile (\<lambda>b. b = slash) bs) \<noteq> []"
  using hd_dropWhile [of "\<lambda>b. b = slash" bs] by (cases "dropWhile (\<lambda>b. b = slash) bs") auto

lemma collect_components_reference: "collect_components cs = components_reference (cs_bytes cs)"
proof (induction "length (cs_bytes cs)" arbitrary: cs rule: less_induct)
  case less
  let ?r = "dropWhile (\<lambda>b. b = slash) (cs_bytes cs)"
  let ?rest = "\<lparr>cs_bytes = dropWhile (\<lambda>b. b \<noteq> slash) ?r\<rparr> :: components"
  show ?case
  proof (cases "?r = []")
    case True
    then show ?thesis
      using reference_skip_slashes [of "cs_bytes cs"]
      by (subst collect_components.simps)
        (simp add: components_next_cases components_reference_def real_component_def)
  next
    case False
    then have "length (cs_bytes ?rest) < length (cs_bytes cs)"
      by (simp add: dropWhile_component_shorter)
    from less [OF this] have rest: "collect_components ?rest = components_reference (cs_bytes ?rest)" .
    have ref: "components_reference (cs_bytes cs) =
        filter real_component [takeWhile (\<lambda>b. b \<noteq> slash) ?r] @ components_reference (cs_bytes ?rest)"
      using reference_component [of ?r] reference_skip_slashes by simp
    show ?thesis
    proof (cases "takeWhile (\<lambda>b. b \<noteq> slash) ?r = [dot]")
      case True
      have "collect_components cs = collect_components ?rest"
        by (subst (1 2) collect_components.simps)
          (simp add: components_next_cases [of cs] False True)
      with rest ref True show ?thesis by (simp add: real_component_def)
    next
      case dots: False
      then have "collect_components cs = takeWhile (\<lambda>b. b \<noteq> slash) ?r # collect_components ?rest"
        by (subst collect_components.simps) (simp add: components_next_cases [of cs] False)
      with rest ref dots takeWhile_component_ne [OF False] show ?thesis
        by (simp add: real_component_def)
    qed
  qed
qed

section \<open>Properties\<close>


definition render_path :: "u8 list list \<Rightarrow> u8 list" where
  "render_path names = concat (map (\<lambda>n. slash # n) names)"

lemma split_slash_name: "slash \<notin> set n \<Longrightarrow> split_slash (n @ slash # bs) = n # split_slash bs"
  by (induction n) auto

lemma split_slash_no_slash: "slash \<notin> set n \<Longrightarrow> split_slash n = [n]"
  by (induction n) auto

lemma split_slash_render:
  "\<forall>n \<in> set names. slash \<notin> set n \<Longrightarrow> slash \<notin> set m \<Longrightarrow> split_slash (m @ render_path names) = m # names"
proof (induction names arbitrary: m)
  case (Cons n names)
  then show ?case by (simp add: render_path_def split_slash_name)
qed (simp add: render_path_def split_slash_no_slash)

text \<open>
  A path written from names is accepted and iterates exactly those names, when each is non-empty,
  not a single dot and free of slashes.
\<close>

lemma path_render_roundtrip:
  assumes "names \<noteq> []" and "\<forall>n \<in> set names. slash \<notin> set n \<and> n \<noteq> [] \<and> n \<noteq> [dot]"
  shows "\<exists>p. path_new (render_path names) = Some p \<and> path_components p = names"
proof -
  from assms(1) have "path_new (render_path names) = Some \<lparr>path_bytes = render_path names\<rparr>"
    by (cases names) (simp_all add: path_new_def render_path_def)
  moreover have "split_slash (render_path names) = [] # names"
    using split_slash_render [of names "[]"] assms(2) by simp
  then have "path_components \<lparr>path_bytes = render_path names\<rparr> = names"
    using assms(2)
    by (simp add: path_components_def components_def collect_components_reference
        components_reference_def real_component_def)
  ultimately show ?thesis by blast
qed

text \<open>
  A path converted from a string without a leading slash iterates the same components as the one
  with the slash added, although the conversion's comment promises that it iterates none.
\<close>

lemma relative_string_iterates:
  "path_components (path_from (slash # s)) = path_components (path_from s) \<and>
   path_components (path_from [0x61]) = [[0x61]]"
  by (simp add: path_components_def components_def path_from_def collect_components_reference
      components_reference_def real_component_def)

end
