(* ===== verification/Resolve.thy ===== *)
theory Resolve
  imports Root_Tree Path
begin

unbundle bit_operations_syntax

text \<open>
  Path resolution (\<^verbatim>\<open>src/resolve.rs\<close>): one directory lookup per component, by name hash and then by
  name among the entries packed under that hash, crossing into a subvolume where the root tree links
  it to the entry.
\<close>

section \<open>The model\<close>

record trees =
  tr_chunk_map :: chunk_map
  tr_nodesize :: u32
  tr_root_tree_root :: u64

definition entry_target ::
  "platform \<Rightarrow> trees \<Rightarrow> inode \<Rightarrow> u8 list \<Rightarrow> disk_key \<Rightarrow> u64 \<Rightarrow> inode outcome" where
  "entry_target P T dir name location leaf_bytenr =
    (if key_item_type location = INODE_ITEM_KEY then Ok (dir\<lparr>ino_objectid := key_objectid location\<rparr>)
     else if key_item_type location = ROOT_ITEM_KEY then
       let link = \<lparr>sl_parent = ino_subvol dir, sl_dirid = ino_objectid dir, sl_name = name,
                   sl_child = key_objectid location\<rparr> in
       obind (root_ref_links P (tr_chunk_map T) (tr_nodesize T) (tr_root_tree_root T) link) (\<lambda>linked.
       if linked
       then subvol_root P (tr_chunk_map T) (tr_nodesize T) (tr_root_tree_root T) (key_objectid location)
       else Ok (dir\<lparr>ino_objectid := EMPTY_SUBVOL_DIR_OBJECTID\<rparr>))
     else Err (CorruptBtree ''dir_entry_location'' leaf_bytenr))"

function lookup_entry_loop ::
  "platform \<Rightarrow> trees \<Rightarrow> inode \<Rightarrow> u8 list \<Rightarrow> u64 \<Rightarrow> u8 list \<Rightarrow> nat \<Rightarrow> inode outcome" where
  "lookup_entry_loop P T dir name bytenr data p =
    (if \<not> p < length data then Err NotFound
     else
     obind (dir_entry_parse data p) (\<lambda>parsed. case parsed of
       None \<Rightarrow> Err (CorruptBtree ''dir_entry_short'' bytenr)
     | Some (entry, next_p) \<Rightarrow>
         if de_ty entry AND FT_ENCRYPTED \<noteq> 0 then Err (UnsupportedFeature ''feat_encryption'')
         else if de_name entry = name then entry_target P T dir name (de_location entry) bytenr
         else lookup_entry_loop P T dir name bytenr data next_p))"
  by pat_completeness auto
termination
  by (relation "measure (\<lambda>(P, T, dir, name, bytenr, data, p). length data - p)")
    (auto simp: dir_entry_parse_eq diff_less_mono2 dir_entry_end_gt split: if_splits)

declare lookup_entry_loop.simps [simp del]

definition lookup_in_dir :: "platform \<Rightarrow> trees \<Rightarrow> inode \<Rightarrow> u8 list \<Rightarrow> inode outcome" where
  "lookup_in_dir P T dir name =
    (let target = DiskKey (ino_objectid dir) DIR_ITEM_KEY (name_hash name) in
     obind (find_exact P (tr_chunk_map T) (tr_nodesize T) (ino_tree_root dir) target) (\<lambda>location.
     case location of
       None \<Rightarrow> Err NotFound
     | Some (leaf, idx) \<Rightarrow>
     obind (tb_leaf_item leaf idx) (\<lambda>item.
     obind (tb_leaf_item_data leaf item) (\<lambda>data.
     lookup_entry_loop P T dir name (tb_bytenr leaf) data 0))))"

primrec resolve_components :: "platform \<Rightarrow> trees \<Rightarrow> inode \<Rightarrow> u8 list list \<Rightarrow> inode outcome" where
  "resolve_components P T current [] = Ok current"
| "resolve_components P T current (component # rest) =
     obind (lookup_in_dir P T current component) (\<lambda>current. resolve_components P T current rest)"

definition resolve_path :: "platform \<Rightarrow> trees \<Rightarrow> inode \<Rightarrow> path \<Rightarrow> inode outcome" where
  "resolve_path P T start path = resolve_components P T start (path_components path)"

section \<open>Panic freedom\<close>

lemma entry_target_safe [outcome_safe]: "entry_target P T dir name location b \<noteq> Panic"
  by (auto simp: entry_target_def Let_def outcome_simps root_ref_links_safe subvol_root_safe
      split: if_splits)

lemma lookup_entry_loop_safe [outcome_safe]: "lookup_entry_loop P T dir name b data p \<noteq> Panic"
proof (induction P T dir name b data p rule: lookup_entry_loop.induct)
  case (1 P T dir name b data p)
  then show ?case
    by (subst lookup_entry_loop.simps)
      (auto simp: outcome_simps dir_entry_parse_eq entry_target_safe split: option.splits if_splits)
qed

lemma lookup_in_dir_safe [outcome_safe]: "lookup_in_dir P T dir name \<noteq> Panic"
  by (auto simp: lookup_in_dir_def Let_def outcome_simps find_exact_safe tb_leaf_item_safe
      tb_leaf_item_data_safe lookup_entry_loop_safe split: option.splits)

lemma resolve_path_safe [outcome_safe]: "resolve_path P T start path \<noteq> Panic"
proof -
  have "resolve_components P T cur cs \<noteq> Panic" for cur cs
    by (induction cs arbitrary: cur) (auto simp: outcome_simps lookup_in_dir_safe)
  then show ?thesis by (simp add: resolve_path_def)
qed

section \<open>Lookup among packed entries\<close>

definition entry_encrypted :: "dir_entry \<Rightarrow> bool" where
  "entry_encrypted e \<longleftrightarrow> de_ty e AND FT_ENCRYPTED \<noteq> 0"

definition choose_entry ::
  "platform \<Rightarrow> trees \<Rightarrow> inode \<Rightarrow> u8 list \<Rightarrow> u64 \<Rightarrow> dir_entry list \<Rightarrow> inode outcome" where
  "choose_entry P T dir name bytenr es =
    (case find (\<lambda>e. entry_encrypted e \<or> de_name e = name) es of
       None \<Rightarrow> Err NotFound
     | Some e \<Rightarrow>
         if entry_encrypted e then Err (UnsupportedFeature ''feat_encryption'')
         else entry_target P T dir name (de_location e) bytenr)"

lemma lookup_entry_loop_packed:
  "list_all entry_ok es \<Longrightarrow>
   lookup_entry_loop P T dir name bytenr (pre @ encode_packed es) (length pre) =
     choose_entry P T dir name bytenr (map fst es)"
proof (induction es arbitrary: pre)
  case Nil
  then show ?case by (simp add: lookup_entry_loop.simps encode_packed_def choose_entry_def)
next
  case (Cons ed es)
  obtain e d where ed: "ed = (e, d)" by (cases ed)
  let ?buf = "pre @ encode_packed (ed # es)"
  have buf: "?buf = (pre @ encode_dir_entry e d) @ encode_packed es"
    by (simp add: ed encode_packed_def)
  have "length pre < length ?buf" using encode_dir_entry_pos [of e d] by (simp add: buf)
  moreover have "dir_entry_parse ?buf (length pre) = Ok (Some (e, length (pre @ encode_dir_entry e d)))"
    unfolding ed using Cons.prems by (intro packed_parse) (simp add: ed)
  moreover have "lookup_entry_loop P T dir name bytenr ?buf (length (pre @ encode_dir_entry e d)) =
      choose_entry P T dir name bytenr (map fst es)"
    unfolding buf using Cons.prems by (intro Cons.IH) simp
  ultimately show ?case
    by (subst lookup_entry_loop.simps) (simp add: ed choose_entry_def entry_encrypted_def)
qed

section \<open>Properties\<close>

text \<open>
  C13. Looking a name up in a directory of a well-formed tree takes the directory item under the
  name's hash and, among the entries packed there, the first whose name is exactly the one asked for;
  other names that share the hash are skipped, an encrypted entry met before it is refused, and no
  such entry means not found.
\<close>

theorem lookup_in_dir_spec:
  assumes "tree_ok P (tr_chunk_map T) (tr_nodesize T) (ino_tree_root dir)" and "list_all entry_ok es"
    and "find (\<lambda>s. slot_key s = DiskKey (ino_objectid dir) DIR_ITEM_KEY (name_hash name))
           (tree_slots P (tr_chunk_map T) (tr_nodesize T) (ino_tree_root dir)) = Some s"
    and "slot_data s = Ok (encode_packed es)"
  shows "lookup_in_dir P T dir name =
    (case find (\<lambda>e. entry_encrypted e \<or> de_name e = name) (map fst es) of
       None \<Rightarrow> Err NotFound
     | Some e \<Rightarrow>
         if entry_encrypted e then Err (UnsupportedFeature ''feat_encryption'')
         else entry_target P T dir name (de_location e) (tb_bytenr (fst s)))"
  using assms lookup_entry_loop_packed [of es P T dir name "tb_bytenr (fst s)" "[]"]
  by (cases s) (auto simp: lookup_in_dir_def find_exact_eq Let_def slot_data_def outcome_simps
      choose_entry_def split: option.splits)

theorem lookup_in_dir_spec_witness:
  "lookup_in_dir fsP \<lparr>tr_chunk_map = flat_map, tr_nodesize = fsN, tr_root_tree_root = 0\<rparr>
     \<lparr>ino_subvol = 5, ino_tree_root = 0, ino_objectid = 256\<rparr> [0x61] =
   Ok \<lparr>ino_subvol = 5, ino_tree_root = 0, ino_objectid = 257\<rparr>"
  using lookup_in_dir_spec [of fsP "\<lparr>tr_chunk_map = flat_map, tr_nodesize = fsN, tr_root_tree_root = 0\<rparr>"
      "\<lparr>ino_subvol = 5, ino_tree_root = 0, ino_objectid = 256\<rparr>"
      "[example_entry [0x61] (DiskKey 257 1 0)]" "[0x61]" "(kv_leaf example_fs, 3)"]
  by (simp add: example_fs_tree example_fs_find example_fs_keys example_fs_data entry_ok_def
      example_entry_def entry_encrypted_def entry_target_def format_consts)

text \<open>
  C14. An entry that names a subvolume leads to that subvolume's root directory exactly when the root
  tree holds a link from the enclosing subvolume to it with this directory and this name; otherwise
  it is the empty placeholder directory of the enclosing subvolume.
\<close>

theorem subvol_entry_crossing:
  assumes "tree_ok P (tr_chunk_map T) (tr_nodesize T) (tr_root_tree_root T)"
    and "key_item_type location = ROOT_ITEM_KEY"
    and "length link_name < 2 ^ 16"
    and "find (\<lambda>s. slot_key s = DiskKey (ino_subvol dir) ROOT_REF_KEY (key_objectid location))
           (tree_slots P (tr_chunk_map T) (tr_nodesize T) (tr_root_tree_root T)) = ref"
    and "case ref of None \<Rightarrow> True | Some s \<Rightarrow>
      slot_data s = Ok (le_bytes (link_dirid :: u64) @ le_bytes (sequence :: u64)
        @ le_bytes (word_of_nat (length link_name) :: u16) @ link_name)"
  shows "entry_target P T dir name location bytenr =
    (if ref \<noteq> None \<and> link_dirid = ino_objectid dir \<and> link_name = name
     then subvol_root P (tr_chunk_map T) (tr_nodesize T) (tr_root_tree_root T) (key_objectid location)
     else Ok (dir\<lparr>ino_objectid := EMPTY_SUBVOL_DIR_OBJECTID\<rparr>))"
proof -
  let ?link = "\<lparr>sl_parent = ino_subvol dir, sl_dirid = ino_objectid dir, sl_name = name,
                sl_child = key_objectid location\<rparr>"
  have "root_ref_links P (tr_chunk_map T) (tr_nodesize T) (tr_root_tree_root T) ?link =
      Ok (ref \<noteq> None \<and> link_dirid = ino_objectid dir \<and> link_name = name)"
  proof (cases ref)
    case None
    with assms show ?thesis by (simp add: root_ref_links_def find_exact_eq Let_def)
  next
    case (Some s)
    let ?data = "le_bytes link_dirid @ le_bytes sequence @ le_bytes (word_of_nat (length link_name) :: u16)
      @ link_name"
    from Some assms(5) have "slot_data s = Ok ?data" by simp
    then obtain it where "tb_leaf_item (fst s) (snd s) = Ok it" "tb_leaf_item_data (fst s) it = Ok ?data"
      by (auto simp: slot_data_def outcome_simps)
    moreover have "read_le_u64 ?data 0 = Ok link_dirid"
      using read_le_encoded(3) [of "[]" 0 link_dirid] by simp
    moreover have "read_le_u16 ?data 16 = Ok (word_of_nat (length link_name))"
      using read_le_encoded(1) [of "le_bytes link_dirid @ le_bytes sequence" 16] by simp
    moreover have "slice_get ?data 18 (18 + length link_name) = Some link_name"
      by (simp add: slice_get_def)
    ultimately show ?thesis
      using assms(1,3,4) Some
      by (cases s) (simp add: root_ref_links_def find_exact_eq Let_def ROOT_REF_HEADER_def
          unat_word_of_nat_small)
  qed
  with assms(2) show ?thesis by (simp add: entry_target_def Let_def format_consts)
qed

theorem subvol_entry_crossing_witness:
  "entry_target fsP \<lparr>tr_chunk_map = flat_map, tr_nodesize = fsN, tr_root_tree_root = 0\<rparr>
     \<lparr>ino_subvol = 5, ino_tree_root = 0, ino_objectid = 256\<rparr> [0x73] (DiskKey 5 132 0) 0 =
     Ok \<lparr>ino_subvol = 5, ino_tree_root = 0, ino_objectid = 256\<rparr> \<and>
   entry_target fsP \<lparr>tr_chunk_map = flat_map, tr_nodesize = fsN, tr_root_tree_root = 0\<rparr>
     \<lparr>ino_subvol = 5, ino_tree_root = 0, ino_objectid = 256\<rparr> [0x74] (DiskKey 5 132 0) 0 =
     Ok \<lparr>ino_subvol = 5, ino_tree_root = 0, ino_objectid = 2\<rparr>"
  using subvol_entry_crossing [of fsP "\<lparr>tr_chunk_map = flat_map, tr_nodesize = fsN, tr_root_tree_root = 0\<rparr>"
      "DiskKey 5 132 0" "[0x73]" "\<lparr>ino_subvol = 5, ino_tree_root = 0, ino_objectid = 256\<rparr>"
      "Some (kv_leaf example_fs, 1)" 256 3]
  by (simp add: example_fs_tree example_fs_find example_fs_keys example_fs_data example_subvol_root
      format_consts)

text \<open>
  Resolving a path ends with an inode or an error on any device contents, and resolving the
  concatenation of two paths is resolving the second from where the first leads.
\<close>

lemma resolve_path_composes:
  assumes "path_components p = path_components p1 @ path_components p2"
  shows "resolve_path P T start p \<noteq> Panic \<and>
    resolve_path P T start p = obind (resolve_path P T start p1) (\<lambda>ino. resolve_path P T ino p2)"
proof -
  have "resolve_components P T cur (xs @ ys) =
      obind (resolve_components P T cur xs) (\<lambda>ino. resolve_components P T ino ys)" for cur xs ys
    by (induction xs arbitrary: cur) (simp_all add: obind_assoc)
  with assms have "resolve_path P T start p =
      obind (resolve_path P T start p1) (\<lambda>ino. resolve_path P T ino p2)"
    by (simp add: resolve_path_def)
  with resolve_path_safe [of P T start p] show ?thesis by simp
qed

end
