(* ===== verification/Dir.thy ===== *)
theory Dir
  imports Resolve
begin

unbundle bit_operations_syntax

text \<open>
  Directory listing (\<^verbatim>\<open>src/dir.rs\<close>): a scan of the directory's \<^verbatim>\<open>DIR_INDEX\<close> items, leaf by leaf. On a
  well-formed tree the listing holds one entry per item, in key order, whatever the leaves they are
  spread over.
\<close>

section \<open>The model\<close>

record dir_list_entry =
  dl_name :: "u8 list"
  dl_inode_number :: u64
  dl_kind_byte :: u8
  dl_inode :: inode

definition read_dir_entry ::
  "platform \<Rightarrow> trees \<Rightarrow> inode \<Rightarrow> tree_block \<Rightarrow> leaf_item \<Rightarrow> dir_list_entry outcome" where
  "read_dir_entry P T dir leaf item =
     obind (tb_leaf_item_data leaf item) (\<lambda>data.
     obind (dir_entry_parse data 0) (\<lambda>parsed.
     obind (ok_or parsed (CorruptBtree ''dir_index_short'' (tb_bytenr leaf))) (\<lambda>(entry, _).
     if de_ty entry AND FT_ENCRYPTED \<noteq> 0 then Err (UnsupportedFeature ''feat_encryption'')
     else
     obind (entry_target P T dir (de_name entry) (de_location entry) (tb_bytenr leaf)) (\<lambda>inode.
     Ok \<lparr>dl_name = de_name entry, dl_inode_number = key_objectid (de_location entry),
         dl_kind_byte = de_ty entry, dl_inode = inode\<rparr>))))"

primrec read_dir_leaf ::
  "platform \<Rightarrow> trees \<Rightarrow> inode \<Rightarrow> tree_block \<Rightarrow> nat list \<Rightarrow> dir_list_entry list \<Rightarrow> disk_key option
   \<Rightarrow> dir_list_entry list leaf_scan outcome" where
  "read_dir_leaf P T dir leaf [] out last_seen = Ok (Continue out last_seen)"
| "read_dir_leaf P T dir leaf (idx # idxs) out last_seen =
     obind (tb_leaf_item leaf idx) (\<lambda>item.
     if key_objectid (li_key item) \<noteq> ino_objectid dir \<or> key_item_type (li_key item) \<noteq> DIR_INDEX_KEY
     then Ok (Finished out)
     else
     obind (read_dir_entry P T dir leaf item) (\<lambda>entry.
     read_dir_leaf P T dir leaf idxs (out @ [entry]) (Some (li_key item))))"

lemma read_dir_leaf_last:
  "read_dir_leaf P T dir leaf idxs out lk = Ok (Continue out' (Some k)) \<Longrightarrow> idxs \<noteq> [] \<Longrightarrow>
   \<exists>it. tb_leaf_item leaf (last idxs) = Ok it \<and> li_key it = k"
proof (induction idxs arbitrary: out lk)
  case (Cons i idxs)
  then show ?case
    by (cases "idxs = []") (auto simp: outcome_simps split: if_splits)
qed simp

function read_dir_loop ::
  "platform \<Rightarrow> trees \<Rightarrow> inode \<Rightarrow> disk_key \<Rightarrow> dir_list_entry list \<Rightarrow> dir_list_entry list outcome" where
  "read_dir_loop P T dir next_target out =
     obind (find_first_ge P (tr_chunk_map T) (tr_nodesize T) (ino_tree_root dir) next_target)
       (\<lambda>location. case location of
       None \<Rightarrow> Ok out
     | Some (leaf, idx) \<Rightarrow>
     obind (read_dir_leaf P T dir leaf [idx..<tb_nritems leaf] out None) (\<lambda>scan. case scan of
       Finished out \<Rightarrow> Ok out
     | Continue out last_seen \<Rightarrow>
     (case last_seen of
        None \<Rightarrow> Ok out
      | Some last_key \<Rightarrow>
      (case next_key_after last_key of
         None \<Rightarrow> Ok out
       | Some next_target \<Rightarrow> read_dir_loop P T dir next_target out))))"
  by pat_completeness auto
termination
proof (relation "measure (\<lambda>(P, T, dir, next_target, out). scan_measure next_target)", goal_cases)
  case (2 P T dir t out loc s leaf idx scan out' lk k t')
  then have hit: "find_first_ge P (tr_chunk_map T) (tr_nodesize T) (ino_tree_root dir) t =
      Ok (Some (leaf, idx))"
    and h: "read_dir_leaf P T dir leaf [idx..<tb_nritems leaf] out None = Ok (Continue out' (Some k))"
    and nx: "next_key_after k = Some t'" by simp_all
  from h have ne: "[idx..<tb_nritems leaf] \<noteq> []" by (cases "[idx..<tb_nritems leaf]") auto
  from read_dir_leaf_last [OF h ne] obtain it where
    it: "tb_leaf_item leaf (last [idx..<tb_nritems leaf]) = Ok it" "li_key it = k" by blast
  have "idx \<le> last [idx..<tb_nritems leaf]" using last_in_set [OF ne] by (simp del: last_upt)
  from scan_progress [OF hit this it(1), of t'] it(2) nx show ?case by simp
qed simp

declare read_dir_loop.simps [simp del]

definition read_dir :: "platform \<Rightarrow> trees \<Rightarrow> inode \<Rightarrow> dir_list_entry list outcome" where
  "read_dir P T dir = read_dir_loop P T dir (DiskKey (ino_objectid dir) DIR_INDEX_KEY 0) []"

section \<open>Panic freedom\<close>

lemma read_dir_entry_safe: "read_dir_entry P T dir leaf item \<noteq> Panic"
  by (auto simp: read_dir_entry_def outcome_simps tb_leaf_item_data_safe dir_entry_parse_eq
      entry_target_safe split: if_splits)

lemma read_dir_leaf_safe: "read_dir_leaf P T dir leaf idxs out lk \<noteq> Panic"
  by (induction idxs arbitrary: out lk)
    (auto simp: outcome_simps tb_leaf_item_safe read_dir_entry_safe split: if_splits)

lemma read_dir_loop_safe: "read_dir_loop P T dir t out \<noteq> Panic"
proof (induction P T dir t out rule: read_dir_loop.induct)
  case (1 P T dir t out)
  show ?case
    unfolding read_dir_loop.simps [of P T dir t out]
    using "1.IH"
    by (auto simp: outcome_simps find_first_ge_safe read_dir_leaf_safe
        split: option.splits leaf_scan.splits)
qed

lemma read_dir_safe [outcome_safe]: "read_dir P T dir \<noteq> Panic"
  by (simp add: read_dir_def read_dir_loop_safe)

section \<open>The listing as a pass over the index items\<close>

definition slot_entry :: "platform \<Rightarrow> trees \<Rightarrow> inode \<Rightarrow> slot \<Rightarrow> dir_list_entry outcome" where
  "slot_entry P T dir s = obind (tb_leaf_item (fst s) (snd s)) (read_dir_entry P T dir (fst s))"

primrec list_slots ::
  "platform \<Rightarrow> trees \<Rightarrow> inode \<Rightarrow> slot list \<Rightarrow> dir_list_entry list \<Rightarrow> dir_list_entry list outcome" where
  "list_slots P T dir [] out = Ok out"
| "list_slots P T dir (s # ss) out =
     obind (slot_entry P T dir s) (\<lambda>e. list_slots P T dir ss (out @ [e]))"

lemma list_slots_append:
  "list_slots P T dir (xs @ ys) out = obind (list_slots P T dir xs out) (list_slots P T dir ys)"
  by (induction xs arbitrary: out) (auto simp: obind_assoc intro!: obind_cong)

abbreviation index_slot :: "inode \<Rightarrow> slot \<Rightarrow> bool" where
  "index_slot dir \<equiv> of_object (ino_objectid dir) DIR_INDEX_KEY"

lemma read_dir_leaf_slots:
  assumes "\<forall>i \<in> set idxs. \<exists>it. tb_leaf_item leaf i = Ok it \<and> li_key it = slot_key (leaf, i)"
  shows "read_dir_leaf P T dir leaf idxs out lk =
    obind (list_slots P T dir (takeWhile (index_slot dir) (map (Pair leaf) idxs)) out) (\<lambda>out'.
      Ok (if list_all (index_slot dir) (map (Pair leaf) idxs)
          then Continue out' (if idxs = [] then lk else Some (slot_key (leaf, last idxs)))
          else Finished out'))"
  using assms
proof (induction idxs arbitrary: out lk)
  case (Cons i idxs)
  from Cons.prems obtain it where it: "tb_leaf_item leaf i = Ok it" "li_key it = slot_key (leaf, i)"
    by auto
  have key: "index_slot dir (leaf, i) \<longleftrightarrow>
      \<not> (key_objectid (li_key it) \<noteq> ino_objectid dir \<or> key_item_type (li_key it) \<noteq> DIR_INDEX_KEY)"
    by (simp add: of_object_def it(2))
  show ?case
  proof (cases "index_slot dir (leaf, i)")
    case False
    with key it(1) show ?thesis by simp
  next
    case True
    then have entry: "slot_entry P T dir (leaf, i) = read_dir_entry P T dir leaf it"
      by (simp add: slot_entry_def it(1))
    show ?thesis
    proof (cases "read_dir_entry P T dir leaf it")
      case (Ok e)
      with True key it Cons.IH [of "out @ [e]" "Some (slot_key (leaf, i))"] Cons.prems entry
      show ?thesis by (cases "idxs = []") (simp_all cong: if_cong)
    qed (use True key it entry in simp_all)
  qed
qed simp

lemma read_dir_loop_hit:
  assumes "find_first_ge P (tr_chunk_map T) (tr_nodesize T) (ino_tree_root dir) t = Ok (Some (leaf, i))"
  shows "read_dir_loop P T dir t out =
    obind (read_dir_leaf P T dir leaf [i..<tb_nritems leaf] out None) (\<lambda>scan. case scan of
      Finished out \<Rightarrow> Ok out
    | Continue out lk \<Rightarrow> (case Option.bind lk next_key_after of
        None \<Rightarrow> Ok out | Some t' \<Rightarrow> read_dir_loop P T dir t' out))"
  using assms
  by (subst read_dir_loop.simps) (auto intro!: obind_cong split: leaf_scan.splits option.splits)

lemma read_dir_loop_slots:
  assumes "tree_ok P (tr_chunk_map T) (tr_nodesize T) (ino_tree_root dir)"
  shows "read_dir_loop P T dir (DiskKey (ino_objectid dir) DIR_INDEX_KEY off) out =
    list_slots P T dir (filter (index_slot dir)
      (walker.remaining (P, tr_chunk_map T, tr_nodesize T, ino_tree_root dir)
        (DiskKey (ino_objectid dir) DIR_INDEX_KEY off))) out"
proof (induction "scan_measure (DiskKey (ino_objectid dir) DIR_INDEX_KEY off)" arbitrary: off out
    rule: less_induct)
  case less
  let ?T = "(P, tr_chunk_map T, tr_nodesize T, ino_tree_root dir)"
  let ?t = "DiskKey (ino_objectid dir) DIR_INDEX_KEY off" and ?m = "index_slot dir"
  have inv: "case ?T of (P, cm, ns, root) \<Rightarrow> tree_ok P cm ns root" using assms by simp
  note seek = walker.seek_remaining [OF inv, of ?t, simplified prod.case]
  note prefix = walker.remaining_object_prefix [OF inv, of "ino_objectid dir" DIR_INDEX_KEY]
  show ?case
  proof (cases "walker.remaining ?T ?t")
    case Nil
    with seek show ?thesis by (simp add: read_dir_loop.simps)
  next
    case (Cons s ss)
    obtain leaf i where s: "s = (leaf, i)" by (cases s)
    with Cons seek have hit: "find_first_ge P (tr_chunk_map T) (tr_nodesize T) (ino_tree_root dir) ?t =
        Ok (Some (leaf, i))" by simp
    let ?idxs = "[i..<tb_nritems leaf]" and ?run = "map (Pair leaf) [i..<tb_nritems leaf]"
    from walker.remaining_run [OF inv Cons [unfolded s]] obtain rest where
      run: "walker.remaining ?T ?t = ?run @ rest" and i: "i < tb_nritems leaf" by blast
    have read: "\<forall>j \<in> set ?idxs. \<exists>it. tb_leaf_item leaf j = Ok it \<and> li_key it = slot_key (leaf, j)"
    proof
      fix j assume "j \<in> set ?idxs"
      with run have "(leaf, j) \<in> set (walker.remaining ?T ?t)" by auto
      then have "(leaf, j) \<in> set (case ?T of (P, cm, ns, root) \<Rightarrow> tree_slots P cm ns root)"
        by (simp add: walker.remaining_def)
      from walker.slots_readable [OF inv this]
      show "\<exists>it. tb_leaf_item leaf j = Ok it \<and> li_key it = slot_key (leaf, j)" .
    qed
    note leaf_scan = read_dir_leaf_slots [OF read, of P T dir out None]
    have last: "last ?run = (leaf, last ?idxs)" using i by (simp add: last_map)
    have mem: "last ?idxs \<in> set ?idxs" using i by (intro last_in_set) simp
    show ?thesis
    proof (cases "list_all ?m ?run")
      case False
      then have "takeWhile ?m (?run @ rest) = takeWhile ?m ?run"
        by (metis takeWhile_append1 list_all_iff)
      then have "filter ?m (walker.remaining ?T ?t) = takeWhile ?m ?run"
        using prefix [of off] run by simp
      with False show ?thesis
        by (simp add: read_dir_loop_hit [OF hit] leaf_scan obind_assoc)
    next
      case True
      have lastm: "?m (leaf, last ?idxs)"
        using True mem unfolding list_all_iff set_map by blast
      show ?thesis
      proof (cases "next_key_after (slot_key (last ?run))")
        case None
        have "filter ?m rest = []"
          using walker.remaining_end [OF inv run _ None] i lastm last
          by (auto simp: filter_empty_conv of_object_def)
        with True None run last i show ?thesis
          by (simp add: read_dir_loop_hit [OF hit] leaf_scan obind_assoc list_all_iff
              takeWhile_eq_all_conv [THEN iffD2] del: last_upt)
      next
        case (Some t')
        have rest: "walker.remaining ?T t' = rest"
          by (rule walker.remaining_next [OF inv run _ Some]) (use i in simp)
        from Some lastm last obtain off' where t': "t' = DiskKey (ino_objectid dir) DIR_INDEX_KEY off'"
          by (auto simp: next_key_after_def of_object_def split: option.splits)
        have "scan_measure t' < scan_measure ?t"
        proof -
          from read mem obtain it where it: "tb_leaf_item leaf (last ?idxs) = Ok it"
            "li_key it = slot_key (leaf, last ?idxs)" by blast
          from mem have "i \<le> last ?idxs" by (simp del: last_upt)
          from scan_progress [OF hit this it(1), of t'] it(2) Some last show ?thesis by simp
        qed
        from less [OF this [unfolded t'], of] True Some t' rest run last i show ?thesis
          by (simp add: read_dir_loop_hit [OF hit] leaf_scan obind_assoc list_slots_append list_all_iff
              takeWhile_eq_all_conv [THEN iffD2] filter_True del: last_upt)
      qed
    qed
  qed
qed

lemma read_dir_slots:
  assumes "tree_ok P (tr_chunk_map T) (tr_nodesize T) (ino_tree_root dir)"
  shows "read_dir P T dir =
    list_slots P T dir
      (filter (index_slot dir) (tree_slots P (tr_chunk_map T) (tr_nodesize T) (ino_tree_root dir))) []"
  using read_dir_loop_slots [OF assms, of 0 "[]"]
    walker.remaining_object_all [of "ino_objectid dir" DIR_INDEX_KEY
      "(P, tr_chunk_map T, tr_nodesize T, ino_tree_root dir)"]
  by (simp add: read_dir_def)

section \<open>Properties\<close>

text \<open>
  Listing a directory of a well-formed tree visits every \<^verbatim>\<open>DIR_INDEX\<close> item of the directory exactly
  once and in key order, across leaf boundaries, and nothing else; the first entry that cannot be
  decoded ends the listing with its error.
\<close>

lemma read_dir_lists_index_items:
  assumes "tree_ok P (tr_chunk_map T) (tr_nodesize T) (ino_tree_root dir)"
  shows "read_dir P T dir =
    list_slots P T dir
      (filter (of_object (ino_objectid dir) DIR_INDEX_KEY)
        (tree_slots P (tr_chunk_map T) (tr_nodesize T) (ino_tree_root dir))) []"
  using assms by (rule read_dir_slots)

lemma slot_entry_packed:
  assumes "slot_data s = Ok (encode_packed [(e, d)])" and "entry_ok (e, d)"
  shows "slot_entry P T dir s =
    (if entry_encrypted e then Err (UnsupportedFeature ''feat_encryption'')
     else obind (entry_target P T dir (de_name e) (de_location e) (tb_bytenr (fst s))) (\<lambda>inode.
       Ok \<lparr>dl_name = de_name e, dl_inode_number = key_objectid (de_location e), dl_kind_byte = de_ty e,
           dl_inode = inode\<rparr>))"
proof -
  from assms(1) obtain it where it: "tb_leaf_item (fst s) (snd s) = Ok it"
    "tb_leaf_item_data (fst s) it = Ok (encode_packed [(e, d)])"
    by (auto simp: slot_data_def outcome_simps)
  moreover have "dir_entry_parse (encode_packed [(e, d)]) 0 = Ok (Some (e, length (encode_dir_entry e d)))"
    using packed_parse [OF assms(2), of "[]" "[]"] by simp
  ultimately show ?thesis
    by (simp add: slot_entry_def read_dir_entry_def entry_encrypted_def)
qed

abbreviation example_trees :: trees where
  "example_trees \<equiv> \<lparr>tr_chunk_map = flat_map, tr_nodesize = fsN, tr_root_tree_root = 0\<rparr>"

abbreviation example_dir :: inode where
  "example_dir \<equiv> \<lparr>ino_subvol = 5, ino_tree_root = 0, ino_objectid = 256\<rparr>"

lemma example_listing:
  "filter (of_object 256 DIR_INDEX_KEY) (tree_slots fsP flat_map fsN 0) = [(kv_leaf example_fs, 4)]"
  "slot_entry fsP example_trees example_dir (kv_leaf example_fs, 4) =
    Ok \<lparr>dl_name = [0x61], dl_inode_number = 257, dl_kind_byte = 1,
        dl_inode = \<lparr>ino_subvol = 5, ino_tree_root = 0, ino_objectid = 257\<rparr>\<rparr>"
proof -
  show "filter (of_object 256 DIR_INDEX_KEY) (tree_slots fsP flat_map fsN 0) = [(kv_leaf example_fs, 4)]"
    unfolding kv_tree(2) [OF example_fs_ok] example_fs_upt
    by (simp add: of_object_def example_fs_keys format_consts)
  show "slot_entry fsP example_trees example_dir (kv_leaf example_fs, 4) =
      Ok \<lparr>dl_name = [0x61], dl_inode_number = 257, dl_kind_byte = 1,
        dl_inode = \<lparr>ino_subvol = 5, ino_tree_root = 0, ino_objectid = 257\<rparr>\<rparr>"
    using slot_entry_packed [of "(kv_leaf example_fs, 4)" "fst (example_entry [0x61] (DiskKey 257 1 0))" "[]"
        fsP example_trees example_dir] example_fs_data(5)
    by (simp add: example_entry_def entry_ok_def entry_encrypted_def entry_target_def format_consts)
qed

end
