(* ===== verification/Extent_Scan.thy ===== *)
theory Extent_Scan
  imports Tree_Lookup
begin

text \<open>
  The loop that \<^verbatim>\<open>read_file\<close> and \<^verbatim>\<open>read_file_at\<close> of \<^verbatim>\<open>src/file.rs\<close> share: seek the next \<^verbatim>\<open>EXTENT_DATA\<close> item
  of an inode, walk the rest of its leaf item by item, and seek again after the last item seen. The
  two functions differ in what they do with an item (\<open>body\<close>) and in when they have enough (\<open>full\<close>),
  which are parameters here. On a well-formed tree the loop is one pass over the inode's items.
\<close>

section \<open>The loop\<close>

text \<open>What one item does: leave the loops at once, or go on after it.\<close>

datatype 's item_step = Leave 's | Next 's

primrec extent_leaf_scan ::
  "(tree_block \<Rightarrow> leaf_item \<Rightarrow> 's \<Rightarrow> 's item_step outcome) \<Rightarrow> ('s \<Rightarrow> bool) \<Rightarrow> u64 \<Rightarrow> tree_block
   \<Rightarrow> nat list \<Rightarrow> 's \<Rightarrow> disk_key option \<Rightarrow> 's leaf_scan outcome" where
  "extent_leaf_scan body full objectid leaf [] st next_target = Ok (Continue st next_target)"
| "extent_leaf_scan body full objectid leaf (idx # idxs) st next_target =
     obind (tb_leaf_item leaf idx) (\<lambda>item.
     if key_objectid (li_key item) \<noteq> objectid \<or> key_item_type (li_key item) \<noteq> EXTENT_DATA_KEY
     then Ok (Finished st)
     else
     obind (body leaf item st) (\<lambda>r. case r of
       Leave st \<Rightarrow> Ok (Finished st)
     | Next st \<Rightarrow>
     obind (plain_add (key_offset (li_key item)) 1) (\<lambda>off.
     let next_target = Some (DiskKey objectid EXTENT_DATA_KEY off) in
     if full st then Ok (Continue st next_target)
     else extent_leaf_scan body full objectid leaf idxs st next_target)))"

lemma extent_leaf_scan_last:
  "extent_leaf_scan body full oid leaf idxs st nt = Ok (Continue st' (Some t)) \<Longrightarrow>
   nt = Some t \<and> idxs = [] \<or>
   (\<exists>i \<in> set idxs. \<exists>it. tb_leaf_item leaf i = Ok it \<and> next_key_after (li_key it) = Some t)"
proof (induction idxs arbitrary: st nt)
  case (Cons i idxs)
  then obtain it r where it: "tb_leaf_item leaf i = Ok it"
      "key_objectid (li_key it) = oid" "key_item_type (li_key it) = EXTENT_DATA_KEY"
    and r: "body leaf it st = Ok r"
    by (auto simp: outcome_simps split: if_splits)
  with Cons.prems obtain st1 where "r = Next st1" by (cases r) auto
  with Cons.prems it r obtain off where off: "plain_add (key_offset (li_key it)) 1 = Ok off"
    and rest: "full st1 \<and> t = DiskKey oid EXTENT_DATA_KEY off \<or>
      extent_leaf_scan body full oid leaf idxs st1 (Some (DiskKey oid EXTENT_DATA_KEY off)) =
        Ok (Continue st' (Some t))"
    by (auto simp: outcome_simps Let_def split: if_splits)
  have "next_key_after (li_key it) = Some (DiskKey oid EXTENT_DATA_KEY off)"
    using it off by (auto simp: next_key_after_def plain_add_def checked_add_def split: if_splits)
  with it rest Cons.IH [of st1 "Some (DiskKey oid EXTENT_DATA_KEY off)"] show ?case by auto
qed auto

lemma extent_leaf_scan_progress:
  assumes "find_first_ge P cm ns root t = Ok (Some (leaf, idx))"
    and "extent_leaf_scan body full oid leaf [idx..<tb_nritems leaf] st None = Ok (Continue st' (Some t'))"
  shows "scan_measure t' < scan_measure t"
proof -
  from extent_leaf_scan_last [OF assms(2)] obtain i it where i: "i \<in> set [idx..<tb_nritems leaf]"
    and it: "tb_leaf_item leaf i = Ok it" "next_key_after (li_key it) = Some t'" by auto
  from i have "idx \<le> i" by simp
  from scan_progress [OF assms(1) this it] show ?thesis .
qed

function extent_scan_loop ::
  "platform \<Rightarrow> chunk_map \<Rightarrow> u32 \<Rightarrow> u64 \<Rightarrow> (tree_block \<Rightarrow> leaf_item \<Rightarrow> 's \<Rightarrow> 's item_step outcome)
   \<Rightarrow> ('s \<Rightarrow> bool) \<Rightarrow> u64 \<Rightarrow> disk_key \<Rightarrow> 's \<Rightarrow> 's outcome" where
  "extent_scan_loop P cm nodesize root body full objectid next_target st =
    (if full st then Ok st
     else
     obind (find_first_ge P cm nodesize root next_target) (\<lambda>location. case location of
       None \<Rightarrow> Ok st
     | Some (leaf, idx) \<Rightarrow>
     obind (extent_leaf_scan body full objectid leaf [idx..<tb_nritems leaf] st None) (\<lambda>scan. case scan of
       Finished st \<Rightarrow> Ok st
     | Continue st advanced \<Rightarrow>
     (case advanced of
        None \<Rightarrow> Ok st
      | Some next_target \<Rightarrow>
          extent_scan_loop P cm nodesize root body full objectid next_target st))))"
  by pat_completeness auto
termination
proof (relation "measure (\<lambda>(P, cm, ns, root, body, full, oid, t, st). scan_measure t)", goal_cases)
  case (2 P cm ns root body full oid t st loc s leaf idx scan st' adv t')
  then show ?case using extent_leaf_scan_progress [of P cm ns root t leaf idx body full oid st st' t'] by simp
qed simp

declare extent_scan_loop.simps [simp del]

definition extent_scan ::
  "platform \<Rightarrow> chunk_map \<Rightarrow> u32 \<Rightarrow> u64 \<Rightarrow> (tree_block \<Rightarrow> leaf_item \<Rightarrow> 's \<Rightarrow> 's item_step outcome)
   \<Rightarrow> ('s \<Rightarrow> bool) \<Rightarrow> u64 \<Rightarrow> 's \<Rightarrow> 's outcome" where
  "extent_scan P cm nodesize root body full objectid st =
     extent_scan_loop P cm nodesize root body full objectid (DiskKey objectid EXTENT_DATA_KEY 0) st"

section \<open>Panic freedom\<close>

text \<open>
  The loop panics only if the body does, or if an item of offset \<^verbatim>\<open>u64::MAX\<close> is passed: bodies that
  reject such items or leave at them make it safe.
\<close>

definition item_safe ::
  "(tree_block \<Rightarrow> leaf_item \<Rightarrow> 's \<Rightarrow> 's item_step outcome) \<Rightarrow> ('s \<Rightarrow> bool) \<Rightarrow> ('s \<Rightarrow> bool)
   \<Rightarrow> tree_block \<Rightarrow> leaf_item \<Rightarrow> bool" where
  "item_safe body full keep leaf item \<longleftrightarrow>
     (\<forall>st. \<not> full st \<longrightarrow> keep st \<longrightarrow> body leaf item st \<noteq> Panic \<and>
        (\<forall>st'. body leaf item st = Ok (Next st') \<longrightarrow> keep st' \<and> key_offset (li_key item) \<noteq> - 1))"

lemma plain_add_one: "x \<noteq> - 1 \<Longrightarrow> plain_add x 1 = Ok (x + 1)" for x :: u64
proof -
  assume "x \<noteq> - 1"
  then have "unat x \<noteq> unat (- 1 :: u64)" by (simp only: word_unat_eq_iff [symmetric] not_False_eq_True)
  moreover have "unat (- 1 :: u64) = 18446744073709551615" by (simp add: unsigned_minus_1_eq_mask mask_eq_exp_minus_1)
  ultimately have "unat x < 18446744073709551615" using unat_u64_less [of x] by linarith
  then show ?thesis by (simp add: plain_add_def)
qed

lemma extent_leaf_scan_safe:
  assumes "\<forall>i \<in> set idxs. \<forall>it. tb_leaf_item leaf i = Ok it \<longrightarrow> key_objectid (li_key it) = oid \<longrightarrow>
      key_item_type (li_key it) = EXTENT_DATA_KEY \<longrightarrow> item_safe body full keep leaf it" and "keep st" and "\<not> full st"
  shows "extent_leaf_scan body full oid leaf idxs st nt \<noteq> Panic \<and>
    (\<forall>st' t. extent_leaf_scan body full oid leaf idxs st nt = Ok (Continue st' t) \<longrightarrow> keep st')"
  using assms
proof (induction idxs arbitrary: st nt)
  case (Cons i idxs)
  show ?case
  proof (cases "tb_leaf_item leaf i")
    case (Ok it)
    show ?thesis
    proof (cases "key_objectid (li_key it) = oid \<and> key_item_type (li_key it) = EXTENT_DATA_KEY")
      case True
      with Cons.prems Ok have safe: "item_safe body full keep leaf it" by simp
      show ?thesis
      proof (cases "body leaf it st")
        case r: (Ok r)
        show ?thesis
        proof (cases r)
          case (Next st1)
          with safe r Cons.prems(2,3) have "keep st1" "plain_add (key_offset (li_key it)) 1 = Ok (key_offset (li_key it) + 1)"
            unfolding item_safe_def by (blast intro: plain_add_one)+
          with Cons.IH [of st1] Cons.prems(1) True Ok r Next show ?thesis
            by (cases "full st1") (simp_all add: Let_def)
        qed (use True Ok r in simp)
      qed (use True Ok safe Cons.prems(2,3) in \<open>simp_all add: item_safe_def\<close>)
    qed (use Ok in auto)
  qed (use tb_leaf_item_safe [of leaf i] in simp_all)
qed simp

lemma extent_scan_loop_safe:
  assumes "\<And>t leaf i j item. find_first_ge P cm ns root t = Ok (Some (leaf, i)) \<Longrightarrow> i \<le> j \<Longrightarrow>
      tb_leaf_item leaf j = Ok item \<Longrightarrow> key_objectid (li_key item) = oid \<Longrightarrow>
      key_item_type (li_key item) = EXTENT_DATA_KEY \<Longrightarrow> item_safe body full keep leaf item" and "keep st"
  shows "extent_scan_loop P cm ns root body full oid t st \<noteq> Panic"
  using assms(2)
proof (induction "scan_measure t" arbitrary: t st rule: less_induct)
  case less
  show ?case
  proof (cases "full st")
    case True
    then show ?thesis by (simp add: extent_scan_loop.simps)
  next
    case nf: False
    show ?thesis
    proof (cases "find_first_ge P cm ns root t")
      case (Ok loc)
      show ?thesis
      proof (cases loc)
        case None
        with Ok nf show ?thesis by (simp add: extent_scan_loop.simps)
      next
        case (Some s)
        obtain leaf idx where s: "s = (leaf, idx)" by (cases s)
        note hit = Ok [unfolded Some s]
        have leaf: "extent_leaf_scan body full oid leaf [idx..<tb_nritems leaf] st None \<noteq> Panic \<and>
          (\<forall>st' t. extent_leaf_scan body full oid leaf [idx..<tb_nritems leaf] st None = Ok (Continue st' t)
             \<longrightarrow> keep st')"
          using assms(1) [OF hit] less.prems nf by (intro extent_leaf_scan_safe) auto
        have more: "extent_scan_loop P cm ns root body full oid t' st' \<noteq> Panic"
          if c: "extent_leaf_scan body full oid leaf [idx..<tb_nritems leaf] st None = Ok (Continue st' (Some t'))"
          for t' st'
          using less.hyps [OF extent_leaf_scan_progress [OF hit c]] leaf c by blast
        show ?thesis
          using hit nf leaf more
          by (subst extent_scan_loop.simps) (auto simp: outcome_simps split: leaf_scan.splits option.splits)
      qed
    qed (use nf find_first_ge_safe [of P cm ns root t] in \<open>simp_all add: extent_scan_loop.simps\<close>)
  qed
qed

section \<open>One pass over the items\<close>

primrec pass_slots ::
  "(tree_block \<Rightarrow> leaf_item \<Rightarrow> 's \<Rightarrow> 's item_step outcome) \<Rightarrow> ('s \<Rightarrow> bool) \<Rightarrow> slot list \<Rightarrow> 's \<Rightarrow> 's outcome" where
  "pass_slots body full [] st = Ok st"
| "pass_slots body full (s # ss) st =
    (if full st then Ok st
     else
     obind (tb_leaf_item (fst s) (snd s)) (\<lambda>item.
     obind (body (fst s) item st) (\<lambda>r. case r of
       Leave st \<Rightarrow> Ok st
     | Next st \<Rightarrow> obind (plain_add (key_offset (slot_key s)) 1) (\<lambda>_. pass_slots body full ss st))))"

lemma pass_slots_full: "full st \<Longrightarrow> pass_slots body full ss st = Ok st"
  by (cases ss) simp_all

text \<open>A scan with items left to visit only uses the key it started from if there are none.\<close>

lemma extent_leaf_scan_target:
  "idxs \<noteq> [] \<Longrightarrow> extent_leaf_scan body full oid leaf idxs st nt = extent_leaf_scan body full oid leaf idxs st nt'"
  by (cases idxs) simp_all

text \<open>
  One turn: the first remaining item is processed, and the loop behaves from there as if it had sought
  the next key anew, whether or not the leaf is exhausted.
\<close>

lemma extent_scan_loop_turn:
  assumes ok: "tree_ok P cm ns root" and nf: "\<not> full st"
    and rem: "walker.remaining (P, cm, ns, root) t = s # ss"
  shows "extent_scan_loop P cm ns root body full oid t st =
    (if of_object oid EXTENT_DATA_KEY s then
       obind (tb_leaf_item (fst s) (snd s)) (\<lambda>item.
       obind (body (fst s) item st) (\<lambda>r. case r of
         Leave st \<Rightarrow> Ok st
       | Next st \<Rightarrow> obind (plain_add (key_offset (slot_key s)) 1) (\<lambda>off.
           extent_scan_loop P cm ns root body full oid (DiskKey oid EXTENT_DATA_KEY off) st)))
     else Ok st)"
proof -
  let ?T = "(P, cm, ns, root)"
  have inv: "case ?T of (P, cm, ns, root) \<Rightarrow> tree_ok P cm ns root" using ok by simp
  obtain leaf i where s: "s = (leaf, i)" by (cases s)
  define tail where "tail = [i + 1..<tb_nritems leaf]"
  have hit: "find_first_ge P cm ns root t = Ok (Some (leaf, i))"
    using walker.seek_remaining [OF inv, of t, simplified prod.case] rem s by simp
  from walker.remaining_run [OF inv rem [unfolded s]] obtain rest where
    run: "walker.remaining ?T t = map (Pair leaf) [i..<tb_nritems leaf] @ rest"
    and i: "i < tb_nritems leaf" by blast
  from i have idxs: "[i..<tb_nritems leaf] = i # tail" by (simp add: tail_def upt_conv_Cons)
  have "(leaf, i) \<in> set (case ?T of (P, cm, ns, root) \<Rightarrow> tree_slots P cm ns root)"
  proof -
    have "s \<in> set (walker.remaining ?T t)" using rem by simp
    then show ?thesis by (simp add: walker.remaining_def s)
  qed
  from walker.slots_readable [OF inv this] obtain it where
    it: "tb_leaf_item leaf i = Ok it" "li_key it = slot_key s" by (auto simp: s)
  define K where "K = (\<lambda>scan. case scan of
      Finished st \<Rightarrow> Ok st
    | Continue st advanced \<Rightarrow> (case advanced of None \<Rightarrow> Ok st
      | Some t \<Rightarrow> extent_scan_loop P cm ns root body full oid t st))"
  have loop: "extent_scan_loop P cm ns root body full oid t' st' =
      obind (extent_leaf_scan body full oid leaf [j..<tb_nritems leaf] st' None) K"
    if "\<not> full st'" "find_first_ge P cm ns root t' = Ok (Some (leaf, j))" for t' st' j
    using that by (subst extent_scan_loop.simps) (simp add: K_def)
  have again: "obind (if full st' then Ok (Continue st' (Some t'))
        else extent_leaf_scan body full oid leaf tail st' (Some t')) K =
      extent_scan_loop P cm ns root body full oid t' st'"
    if nx: "next_key_after (slot_key s) = Some t'" for t' st'
  proof (cases "full st' \<or> tail = []")
    case True
    then show ?thesis by (auto simp: K_def extent_scan_loop.simps)
  next
    case False
    have "walker.remaining ?T t' = map (Pair leaf) tail @ rest"
      by (rule walker.remaining_next [OF inv, of t "[s]"]) (use run idxs s nx in simp_all)
    moreover from False have "tail = (i + 1) # [i + 2..<tb_nritems leaf]"
      by (simp add: tail_def upt_conv_Cons)
    ultimately have "find_first_ge P cm ns root t' = Ok (Some (leaf, i + 1))"
      using walker.seek_remaining [OF inv, of t', simplified prod.case] by simp
    with False loop show ?thesis
      using extent_leaf_scan_target [of tail body full oid leaf st' "Some t'" None] by (simp add: tail_def)
  qed
  have K_Finished: "K (Finished st') = Ok st'" for st' by (simp add: K_def)
  show ?thesis
  proof (cases "of_object oid EXTENT_DATA_KEY s")
    case False
    then show ?thesis
      unfolding loop [OF nf hit] idxs using it by (auto simp: of_object_def K_Finished)
  next
    case True
    then have key: "key_objectid (slot_key s) = oid" "key_item_type (slot_key s) = EXTENT_DATA_KEY"
      by (simp_all add: of_object_def)
    have nx: "next_key_after (slot_key s) = Some (DiskKey oid EXTENT_DATA_KEY off)"
      if "plain_add (key_offset (slot_key s)) 1 = Ok off" for off
      using that key by (auto simp: next_key_after_def plain_add_def checked_add_def split: if_splits)
    show ?thesis
    proof (cases "body leaf it st")
      case (Ok r)
      with it key True s show ?thesis
        unfolding loop [OF nf hit] idxs
        by (cases r; cases "plain_add (key_offset (slot_key s)) 1")
          (simp_all add: K_Finished Let_def again [OF nx])
    qed (use it key True s in \<open>simp_all add: loop [OF nf hit] idxs\<close>)
  qed
qed

lemma extent_scan_loop_pass:
  assumes ok: "tree_ok P cm ns root"
  shows "extent_scan_loop P cm ns root body full oid (DiskKey oid EXTENT_DATA_KEY off) st =
    pass_slots body full (filter (of_object oid EXTENT_DATA_KEY)
      (walker.remaining (P, cm, ns, root) (DiskKey oid EXTENT_DATA_KEY off))) st"
proof (induction "walker.remaining (P, cm, ns, root) (DiskKey oid EXTENT_DATA_KEY off)" arbitrary: off st)
  case Nil
  have inv: "case (P, cm, ns, root) of (P, cm, ns, root) \<Rightarrow> tree_ok P cm ns root" using ok by simp
  show ?case
    using walker.seek_remaining [OF inv, of "DiskKey oid EXTENT_DATA_KEY off", simplified prod.case]
    unfolding Nil [symmetric] by (simp add: extent_scan_loop.simps)
next
  case (Cons s ss)
  let ?T = "(P, cm, ns, root)" and ?t = "DiskKey oid EXTENT_DATA_KEY off"
  have inv: "case ?T of (P, cm, ns, root) \<Rightarrow> tree_ok P cm ns root" using ok by simp
  note rem = Cons.hyps(2) [symmetric]
  show ?case
  proof (cases "full st")
    case True
    then show ?thesis by (simp add: extent_scan_loop.simps pass_slots_full)
  next
    case nf: False
    note turn = extent_scan_loop_turn [where body = body and full = full and oid = oid, OF ok nf rem]
    show ?thesis
    proof (cases "of_object oid EXTENT_DATA_KEY s")
      case False
      then have "filter (of_object oid EXTENT_DATA_KEY) (s # ss) = []"
        using walker.remaining_object_prefix [OF inv, of oid EXTENT_DATA_KEY off] unfolding rem by simp
      with False show ?thesis unfolding turn rem by simp
    next
      case True
      have more: "extent_scan_loop P cm ns root body full oid (DiskKey oid EXTENT_DATA_KEY off') st' =
          pass_slots body full (filter (of_object oid EXTENT_DATA_KEY) ss) st'"
        if "plain_add (key_offset (slot_key s)) 1 = Ok off'" for off' st'
      proof -
        have nx: "next_key_after (slot_key (last [s])) = Some (DiskKey oid EXTENT_DATA_KEY off')"
          using that True
          by (auto simp: of_object_def next_key_after_def plain_add_def checked_add_def split: if_splits)
        have "walker.remaining ?T (DiskKey oid EXTENT_DATA_KEY off') = ss"
          by (rule walker.remaining_next [OF inv _ _ nx, of ?t]) (simp_all add: rem)
        with Cons.hyps(1) [of off' st'] show ?thesis by simp
      qed
      show ?thesis
        unfolding turn rem using True nf more
        by (simp cong: obind_cong item_step.case_cong)
    qed
  qed
qed

lemma extent_scan_pass:
  assumes "tree_ok P cm ns root"
  shows "extent_scan P cm ns root body full oid st =
    pass_slots body full (filter (of_object oid EXTENT_DATA_KEY) (tree_slots P cm ns root)) st"
  using extent_scan_loop_pass [OF assms, of body full oid 0 st]
    walker.remaining_object_all [of oid EXTENT_DATA_KEY "(P, cm, ns, root)"]
  by (simp add: extent_scan_def)

end
