(* ===== verification/Extent_Read.thy ===== *)
theory Extent_Read
  imports Chunk_Map Platform
begin

text \<open>
  Reading a logical byte range through the chunk map (\<^verbatim>\<open>read_through_chunks\<close> of \<^verbatim>\<open>src/file.rs\<close>). The loop
  reads as many bytes at a time as the chunk map reports contiguous; on a device that serves a volume
  image its result is the same as translating and fetching every byte on its own.
\<close>

section \<open>The model\<close>

text \<open>
  \<open>acc\<close> is the part of the buffer already filled (\<^verbatim>\<open>written\<close> is its length) and \<open>rest\<close> the part still to
  fill, so that \<^verbatim>\<open>buf[written..written + take]\<close> is the first \<^verbatim>\<open>take\<close> bytes of \<open>rest\<close>.
\<close>

function read_chunks_from ::
  "platform \<Rightarrow> chunk_map \<Rightarrow> u64 \<Rightarrow> u8 list \<Rightarrow> u8 list \<Rightarrow> u8 list outcome" where
  "read_chunks_from P cm cursor acc rest =
    (if rest = [] then Ok acc
     else
     obind (chunk_map_resolve cm cursor) (\<lambda>resolved.
     let n = min (length rest) (as_usize (rs_contiguous_bytes resolved)) in
     obind (ok_or (reader_read_into P (rs_physical resolved) (take n rest))
              (Io ''extent_read'' (rs_physical resolved))) (\<lambda>bytes.
     obind (plain_add cursor (word_of_nat n)) (\<lambda>cursor.
     read_chunks_from P cm cursor (acc @ bytes) (drop n rest)))))"
  by pat_completeness auto
termination
proof (relation "measure (\<lambda>(P, cm, cursor, acc, rest). length rest)", goal_cases)
  case (2 P cm cursor acc rest r n bytes cursor')
  then show ?case using chunks.step_progress [of cm cursor r "length rest"] by simp
qed simp

declare read_chunks_from.simps [simp del]

definition read_through_chunks :: "platform \<Rightarrow> chunk_map \<Rightarrow> u64 \<Rightarrow> u8 list \<Rightarrow> u8 list outcome" where
  "read_through_chunks P cm logical_start buf = read_chunks_from P cm logical_start [] buf"

lemma read_chunks_from_step:
  assumes "rest \<noteq> []" and "chunk_map_resolve cm cursor = Ok r"
    and "n = min (length rest) (unat (rs_contiguous_bytes r))"
  shows "read_chunks_from P cm cursor acc rest =
    (case reader_read_into P (rs_physical r) (take n rest) of
       None \<Rightarrow> Err (Io ''extent_read'' (rs_physical r))
     | Some bytes \<Rightarrow> read_chunks_from P cm (cursor + word_of_nat n) (acc @ bytes) (drop n rest))"
proof -
  have "plain_add cursor (word_of_nat n) = Ok (cursor + word_of_nat n)"
    using assms(3) by (intro chunks.cursor_step_safe(1) [OF assms(2)]) simp
  with assms show ?thesis
    by (subst read_chunks_from.simps) (auto simp: Let_def split: option.split)
qed

section \<open>Panic freedom and length\<close>

lemma read_chunks_from_shape:
  "read_chunks_from P cm cursor acc rest \<noteq> Panic \<and>
   (\<forall>bs. read_chunks_from P cm cursor acc rest = Ok bs \<longrightarrow> length bs = length acc + length rest)"
proof (induction "length rest" arbitrary: cursor acc rest rule: less_induct)
  case less
  show ?case
  proof (cases "rest = []")
    case True
    then show ?thesis by (simp add: read_chunks_from.simps)
  next
    case ne: False
    show ?thesis
    proof (cases "chunk_map_resolve cm cursor")
      case (Err e)
      with ne have "read_chunks_from P cm cursor acc rest = Err e" by (simp add: read_chunks_from.simps)
      then show ?thesis by simp
    next
      case Panic
      with chunk_map_resolve_safe show ?thesis by blast
    next
      case (Ok r)
      define n where "n = min (length rest) (unat (rs_contiguous_bytes r))"
      note step = read_chunks_from_step [OF ne Ok n_def, of P acc]
      have "length (drop n rest) < length rest"
        using chunks.step_progress [OF Ok, of "length rest"] ne by (simp add: n_def)
      note IH = less [OF this]
      show ?thesis
      proof (cases "reader_read_into P (rs_physical r) (take n rest)")
        case None
        with step show ?thesis by simp
      next
        case (Some bytes)
        from reader_read_into_length [OF Some] have len: "length (acc @ bytes) + length (drop n rest) =
            length acc + length rest" by (simp add: n_def)
        from step Some have eq: "read_chunks_from P cm cursor acc rest =
            read_chunks_from P cm (cursor + word_of_nat n) (acc @ bytes) (drop n rest)" by simp
        from IH [of "cursor + word_of_nat n" "acc @ bytes"] show ?thesis unfolding eq len .
      qed
    qed
  qed
qed

lemma read_through_chunks_safe [outcome_safe]: "read_through_chunks P cm l buf \<noteq> Panic"
  by (simp add: read_through_chunks_def read_chunks_from_shape)

lemma read_through_chunks_length: "read_through_chunks P cm l buf = Ok bs \<Longrightarrow> length bs = length buf"
  using read_chunks_from_shape [of P cm l "[]" buf] by (simp add: read_through_chunks_def)

section \<open>Byte by byte\<close>

text \<open>The byte at a logical address: translate the address, then fetch one byte of the image.\<close>

definition logical_byte :: "u8 list \<Rightarrow> chunk_map \<Rightarrow> u64 \<Rightarrow> u8 option" where
  "logical_byte img cm a =
     (case chunk_map_resolve cm a of
        Ok r \<Rightarrow> if unat (rs_physical r) < length img then Some (img ! unat (rs_physical r)) else None
      | _ \<Rightarrow> None)"

text \<open>Within a contiguous run the bytes are those at successive physical addresses.\<close>

lemma logical_byte_run:
  assumes wf: "chunk_map_wf cm" and r: "chunk_map_resolve cm a = Ok r" and img: "length img \<le> usize_max"
    and n: "n \<le> unat (rs_contiguous_bytes r)"
  shows "(\<forall>k < n. logical_byte img cm (a + word_of_nat k) \<noteq> None) \<longleftrightarrow> n = 0 \<or> unat (rs_physical r) + n \<le> length img"
    and "unat (rs_physical r) + n \<le> length img \<Longrightarrow> k < n \<Longrightarrow>
      logical_byte img cm (a + word_of_nat k) = Some (img ! (unat (rs_physical r) + k))"
proof -
  let ?p = "unat (rs_physical r)"
  have at: "logical_byte img cm (a + word_of_nat k) = (if ?p + k < length img then Some (img ! (?p + k)) else None)"
    if "k < n" "?p + k < 2 ^ 64" for k
  proof -
    have "unat (word_of_nat k :: u64) = k" using that(2) by (intro unat_word_of_nat_small) simp
    then have "unat (rs_physical r + word_of_nat k) = ?p + k"
      using that(2) by (simp add: unat_plus_no_wrap)
    with chunks.resolve_linear [OF wf r _ that(2)] that(1) n show ?thesis
      by (simp add: logical_byte_def)
  qed
  show run: "logical_byte img cm (a + word_of_nat k) = Some (img ! (?p + k))"
    if "?p + n \<le> length img" "k < n" for k
    using that img at [of k] by (simp add: usize_max_def)
  show "(\<forall>k < n. logical_byte img cm (a + word_of_nat k) \<noteq> None) \<longleftrightarrow> n = 0 \<or> ?p + n \<le> length img"
  proof
    assume all: "\<forall>k < n. logical_byte img cm (a + word_of_nat k) \<noteq> None"
    have "?p + k < length img" if "k < n" for k
      using that
    proof (induction k)
      case 0
      with all at [of 0] show ?case by (auto split: if_splits)
    next
      case (Suc k)
      then have "?p + Suc k < 2 ^ 64" using img by (simp add: usize_max_def)
      with all at [OF Suc.prems] Suc.prems show ?case by (auto split: if_splits)
    qed
    from this [of "n - 1"] show "n = 0 \<or> ?p + n \<le> length img" by (cases n) auto
  qed (use run in auto)
qed
text \<open>A range of logical bytes, fetched one at a time.\<close>

primrec logical_bytes :: "u8 list \<Rightarrow> chunk_map \<Rightarrow> u64 \<Rightarrow> nat \<Rightarrow> u8 list option" where
  "logical_bytes img cm a 0 = Some []"
| "logical_bytes img cm a (Suc n) =
     (case logical_byte img cm a of
        None \<Rightarrow> None
      | Some b \<Rightarrow> map_option ((#) b) (logical_bytes img cm (a + 1) n))"

lemma logical_bytes_iff:
  "logical_bytes img cm a n = Some ys \<longleftrightarrow>
   length ys = n \<and> (\<forall>k < n. logical_byte img cm (a + word_of_nat k) = Some (ys ! k))"
proof (induction n arbitrary: a ys)
  case (Suc n)
  have step: "a + word_of_nat (Suc k) = a + 1 + (word_of_nat k :: u64)" for k
    by (simp add: add.assoc)
  show ?case
    by (cases ys) (auto simp: Suc.IH All_less_Suc2 step simp del: of_nat_Suc split: option.split)
qed auto

lemma logical_bytes_add:
  "logical_bytes img cm a (n + m) =
   Option.bind (logical_bytes img cm a n) (\<lambda>xs.
     map_option ((@) xs) (logical_bytes img cm (a + word_of_nat n) m))"
proof (induction n arbitrary: a)
  case 0
  show ?case by (cases "logical_bytes img cm a m") simp_all
next
  case (Suc n)
  then show ?case
    by (cases "logical_byte img cm a"; cases "logical_bytes img cm (a + 1) n";
        cases "logical_bytes img cm (a + (1 + word_of_nat n)) m") (simp_all add: add.assoc)
qed

lemma logical_bytes_run:
  assumes "chunk_map_wf cm" and "chunk_map_resolve cm a = Ok r" and "length img \<le> usize_max"
    and "n \<le> unat (rs_contiguous_bytes r)" and "0 < n"
  shows "logical_bytes img cm a n =
    (if unat (rs_physical r) + n \<le> length img then Some (take n (drop (unat (rs_physical r)) img)) else None)"
proof (cases "unat (rs_physical r) + n \<le> length img")
  case True
  then show ?thesis
    using logical_byte_run(2) [OF assms(1-4)] by (simp add: logical_bytes_iff)
next
  case False
  then obtain k where k: "k < n" "logical_byte img cm (a + word_of_nat k) = None"
    using logical_byte_run(1) [OF assms(1-4)] assms(5) by blast
  have "logical_bytes img cm a n \<noteq> Some ys" for ys
    using k by (auto simp: logical_bytes_iff)
  then have "logical_bytes img cm a n = None" by (cases "logical_bytes img cm a n") blast+
  with False show ?thesis by simp
qed

lemma logical_bytes_unresolved:
  "0 < n \<Longrightarrow> \<not> is_ok (chunk_map_resolve cm a) \<Longrightarrow> logical_bytes img cm a n = None"
  by (cases n; cases "chunk_map_resolve cm a") (simp_all add: logical_byte_def)

primrec ok_value :: "'a outcome \<Rightarrow> 'a option" where
  "ok_value (Ok x) = Some x"
| "ok_value (Err e) = None"
| "ok_value Panic = None"

lemma ok_value_Some_iff [simp]: "ok_value m = Some x \<longleftrightarrow> m = Ok x"
  by (cases m) auto

lemma read_chunks_from_bytes:
  assumes "chunk_map_wf cm" and "reads_volume P img"
  shows "ok_value (read_chunks_from P cm a acc rest) =
    map_option ((@) acc) (logical_bytes img cm a (length rest))"
proof (induction "length rest" arbitrary: a acc rest rule: less_induct)
  case less
  show ?case
  proof (cases "rest = [] \<or> \<not> is_ok (chunk_map_resolve cm a)")
    case True
    moreover have "ok_value (read_chunks_from P cm a acc rest) = None" if "rest \<noteq> []"
      using True that by (cases "chunk_map_resolve cm a") (simp_all add: read_chunks_from.simps)
    ultimately show ?thesis
      by (cases "rest = []") (simp_all add: logical_bytes_unresolved read_chunks_from.simps)
  next
    case False
    then obtain r where r: "chunk_map_resolve cm a = Ok r" and ne: "rest \<noteq> []"
      by (cases "chunk_map_resolve cm a") auto
    define n where "n = min (length rest) (unat (rs_contiguous_bytes r))"
    have n: "n \<le> unat (rs_contiguous_bytes r)" "0 < n" "n + length (drop n rest) = length rest"
      using chunks.resolve_progress [OF r] ne by (auto simp: n_def)
    from assms(2) have "length img \<le> usize_max" by (simp add: reads_volume_def)
    note run = logical_bytes_run [OF assms(1) r this n(1,2)]
    have "length (drop n rest) < length rest" using n by simp
    note IH = less [OF this]
    have len: "length (take n rest) = n" by (simp add: n_def)
    note rd = reader_read_into_volume [OF assms(2), of "rs_physical r" "take n rest", unfolded len]
    show ?thesis
      unfolding read_chunks_from_step [OF ne r n_def] rd n(3) [symmetric] logical_bytes_add run
      by (cases "logical_bytes img cm (a + word_of_nat n) (length (drop n rest))") (simp_all add: IH)
  qed
qed

section \<open>Properties\<close>

text \<open>
  C21. Reading a file range through the chunk map, however many chunks it spans, succeeds exactly when
  every byte of the range translates to an address inside the volume, and then every byte of the
  buffer is the byte at that address; it never panics.
\<close>

theorem read_through_chunks_bytes:
  assumes "chunk_map_wf cm" and "reads_volume P img"
  shows "read_through_chunks P cm l buf \<noteq> Panic \<and>
    (read_through_chunks P cm l buf = Ok bs \<longleftrightarrow>
      length bs = length buf \<and>
      (\<forall>k < length buf. logical_byte img cm (l + word_of_nat k) = Some (bs ! k)))"
proof -
  have "ok_value (read_through_chunks P cm l buf) = logical_bytes img cm l (length buf)"
    unfolding read_through_chunks_def read_chunks_from_bytes [OF assms]
    by (cases "logical_bytes img cm l (length buf)") simp_all
  then have "read_through_chunks P cm l buf = Ok bs \<longleftrightarrow> logical_bytes img cm l (length buf) = Some bs"
    by (metis ok_value_Some_iff)
  then show ?thesis by (simp add: logical_bytes_iff read_through_chunks_safe)
qed

text \<open>Two chunks of two bytes, stored in the opposite order.\<close>

definition two_chunks :: chunk_map where
  "two_chunks =
     \<lparr>mappings =
        [\<lparr>cm_logical = 0, cm_length = 2, cm_ty = 0, cm_stripe_len = 2, cm_num_stripes = 1, cm_sub_stripes = 1,
          cm_stripes = [\<lparr>st_devid = 1, st_offset = 4, st_dev_uuid = replicate 16 0\<rparr>]\<rparr>,
         \<lparr>cm_logical = 2, cm_length = 2, cm_ty = 0, cm_stripe_len = 2, cm_num_stripes = 1, cm_sub_stripes = 1,
          cm_stripes = [\<lparr>st_devid = 1, st_offset = 0, st_dev_uuid = replicate 16 0\<rparr>]\<rparr>],
      local_devid = Some 1\<rparr>"

theorem read_through_chunks_bytes_witness:
  "read_through_chunks (slice_platform [1, 2, 3, 4, 5, 6] (\<lambda>_. 0) (\<lambda>_. True)) two_chunks 0 [0, 0, 0, 0] =
   Ok [5, 6, 1, 2]"
proof -
  have wf: "chunk_map_wf two_chunks"
    by (simp add: chunk_map_wf_def chunk_end_def two_chunks_def)
  have vol: "reads_volume (slice_platform [1, 2, 3, 4, 5, 6] (\<lambda>_. 0) (\<lambda>_. True)) [1, 2, 3, 4, 5, 6]"
    by (rule slice_platform_reads_volume) (simp add: usize_max_def)
  have bytes: "logical_byte [1, 2, 3, 4, 5, 6] two_chunks 0 = Some 5"
    "logical_byte [1, 2, 3, 4, 5, 6] two_chunks 1 = Some 6"
    "logical_byte [1, 2, 3, 4, 5, 6] two_chunks 2 = Some 1"
    "logical_byte [1, 2, 3, 4, 5, 6] two_chunks 3 = Some 2"
    by (simp_all add: logical_byte_def chunk_map_resolve_def two_chunks_def partition_point_def
        get_before_def pick_stripe_def chunk_profile_def format_consts checked_add_def plain_sub_def Let_def
        word_le_nat_alt)
  show ?thesis
    using read_through_chunks_bytes [OF wf vol, of 0 "[0, 0, 0, 0]" "[5, 6, 1, 2]"] bytes
    by (simp add: All_less_Suc)
qed

end
