(* ===== verification/Compression.thy ===== *)
theory Compression
  imports Repr
begin

text \<open>
  Decompression (\<^verbatim>\<open>src/compression\<close>): the dispatch, the LZO framing of btrfs, the zlib wrapper and the
  loop over zstd frames. The third-party decoders are parameters, in the record \<open>codecs\<close>, with the
  documented behaviour the code relies on in \<open>codecs_ok\<close>.
\<close>

section \<open>The third-party decoders\<close>

text \<open>
  \<^verbatim>\<open>lzokay\<close> decodes a segment into a scratch buffer and returns how many bytes it wrote;
  \<^verbatim>\<open>miniz_oxide\<close> inflates into a fresh vector of at most a given length. A \<^verbatim>\<open>ruzstd\<close> decoder is opened on
  the input (\<open>cd_zstd_new\<close>), its successive reads fill a buffer (\<open>cd_zstd_read input k\<close> is the \<open>k\<close>th one),
  and when it is dropped the input has advanced past the frame magic and \<open>cd_zstd_consumed\<close> more bytes.
  The three flags are the Cargo features.
\<close>

record codecs =
  cd_has_zlib :: bool
  cd_has_lzo :: bool
  cd_has_zstd :: bool
  cd_lzokay :: "u8 list \<Rightarrow> u8 list \<Rightarrow> (nat \<times> u8 list) option"
  cd_inflate :: "u8 list \<Rightarrow> nat \<Rightarrow> u8 list option"
  cd_zstd_new :: "u8 list \<Rightarrow> bool"
  cd_zstd_read :: "u8 list \<Rightarrow> nat \<Rightarrow> u8 list option"
  cd_zstd_consumed :: "u8 list \<Rightarrow> nat"

definition codecs_ok :: "codecs \<Rightarrow> bool" where
  "codecs_ok C \<longleftrightarrow>
     (\<forall>src scratch n scratch'. cd_lzokay C src scratch = Some (n, scratch') \<longrightarrow>
        n \<le> length scratch' \<and> length scratch' = length scratch) \<and>
     (\<forall>src limit bs. cd_inflate C src limit = Some bs \<longrightarrow> length bs \<le> limit) \<and>
     (\<forall>src k bs. cd_zstd_read C src k = Some bs \<longrightarrow> length bs \<le> 4096)"

lemma codecs_ok_lzokay:
  "codecs_ok C \<Longrightarrow> cd_lzokay C src scratch = Some (n, scratch') \<Longrightarrow>
   n \<le> length scratch' \<and> length scratch' = length scratch"
  unfolding codecs_ok_def by blast

section \<open>LZO (src/compression/lzo.rs)\<close>

definition SEGMENT_HEADER :: nat where
  "SEGMENT_HEADER = 4"

abbreviation lzo_bad :: error where
  "lzo_bad \<equiv> BadCompression ''comp_lzo''"

function lzo_loop ::
  "codecs \<Rightarrow> u8 list \<Rightarrow> nat \<Rightarrow> nat \<Rightarrow> nat \<Rightarrow> u8 list \<Rightarrow> u8 list \<Rightarrow> u8 list outcome" where
  "lzo_loop C src total_compressed sectorsize p scratch dst =
    (if \<not> p < total_compressed then Ok dst
     else if sectorsize = 0 then Panic
     else
     let left_in_sector = sectorsize - p mod sectorsize;
         q = (if left_in_sector < SEGMENT_HEADER then p + left_in_sector else p) in
     if left_in_sector < SEGMENT_HEADER \<and> q \<ge> total_compressed then Ok dst
     else if q + SEGMENT_HEADER > total_compressed then Err lzo_bad
     else
     obind (read_le_u32 src q) (\<lambda>len_word.
     let segment_len = as_usize len_word; start = q + SEGMENT_HEADER in
     if segment_len = 0 then Ok dst
     else
     obind (ok_or (usize_checked_add start segment_len) lzo_bad) (\<lambda>stop.
     if stop > total_compressed then Err lzo_bad
     else
     obind (slice src start stop) (\<lambda>segment.
     if length dst + sectorsize > MAX_DECOMPRESSED_EXTENT_BYTES then Err lzo_bad
     else
     obind (ok_or (cd_lzokay C segment scratch) lzo_bad) (\<lambda>(n, scratch).
     obind (slice scratch 0 n) (\<lambda>plain.
     lzo_loop C src total_compressed sectorsize stop scratch (dst @ plain)))))))"
  by pat_completeness auto
termination
proof (relation "measure (\<lambda>(C, src, total, ss, p, scratch, dst). total - p)", goal_cases)
  case (2 C src total ss p scratch dst left q len_word n start stop seg y n' scratch' plain)
  then have q: "q = (if left < SEGMENT_HEADER then p + left else p)" "start = q + SEGMENT_HEADER"
    by simp_all
  then have "p < start" by (simp add: SEGMENT_HEADER_def split: if_splits)
  moreover from 2 have "p < total" "start \<le> stop" "stop \<le> total"
    by (simp_all add: outcome_simps usize_checked_add_def split: if_splits)
  ultimately show ?case by simp
qed simp

declare lzo_loop.simps [simp del]

definition lzo_decode :: "codecs \<Rightarrow> u8 list \<Rightarrow> u8 list \<Rightarrow> nat \<Rightarrow> u8 list outcome" where
  "lzo_decode C src dst sectorsize =
    (if length src < 4 then Err lzo_bad
     else
     obind (read_le_u32 src 0) (\<lambda>total_word.
     let total_compressed = as_usize total_word in
     if total_compressed > length src \<or> total_compressed < 4 then Err lzo_bad
     else lzo_loop C src total_compressed sectorsize 4 (replicate sectorsize 0) dst))"

section \<open>Zlib (src/compression/zlib.rs)\<close>

definition zlib_decode :: "codecs \<Rightarrow> u8 list \<Rightarrow> u8 list \<Rightarrow> u8 list outcome" where
  "zlib_decode C src dst =
    (let limit = MAX_DECOMPRESSED_EXTENT_BYTES - length dst in
     if limit = 0 then Err (BadCompression ''comp_zlib'')
     else
     obind (ok_or (cd_inflate C src limit) (BadCompression ''comp_zlib'')) (\<lambda>decoded.
     Ok (dst @ decoded)))"

section \<open>Zstd (src/compression/zstd.rs)\<close>

definition ZSTD_FRAME_MAGIC :: u32 where
  "ZSTD_FRAME_MAGIC = 0xFD2FB528"

function zstd_read_loop :: "codecs \<Rightarrow> u8 list \<Rightarrow> nat \<Rightarrow> u8 list \<Rightarrow> u8 list outcome" where
  "zstd_read_loop C input k dst =
     obind (ok_or (cd_zstd_read C input k) (BadCompression ''comp_zstd'')) (\<lambda>bs.
     let n = length bs in
     if n = 0 then Ok dst
     else if length dst + n > MAX_DECOMPRESSED_EXTENT_BYTES then Err (BadCompression ''comp_zstd'')
     else if n > 4096 then Panic
     else zstd_read_loop C input (k + 1) (dst @ bs))"
  by pat_completeness auto
termination
proof (relation "measure (\<lambda>(C, input, k, dst). MAX_DECOMPRESSED_EXTENT_BYTES - length dst)", goal_cases)
  case (2 C input k dst bs n)
  then have "0 < length bs" "length dst + length bs \<le> MAX_DECOMPRESSED_EXTENT_BYTES" by simp_all
  then have "MAX_DECOMPRESSED_EXTENT_BYTES - (length dst + length bs)
      < MAX_DECOMPRESSED_EXTENT_BYTES - length dst" by linarith
  then show ?case by simp
qed simp

declare zstd_read_loop.simps [simp del]

function zstd_decode :: "codecs \<Rightarrow> u8 list \<Rightarrow> u8 list \<Rightarrow> u8 list outcome" where
  "zstd_decode C input dst =
    (if length input < 4 then Ok dst
     else
     obind (read_le_u32 input 0) (\<lambda>magic.
     if magic \<noteq> ZSTD_FRAME_MAGIC then Ok dst
     else if \<not> cd_zstd_new C input then Err (BadCompression ''comp_zstd'')
     else
     obind (zstd_read_loop C input 0 dst) (\<lambda>dst.
     zstd_decode C (drop (4 + cd_zstd_consumed C input) input) dst)))"
  by pat_completeness auto
termination
  by (relation "measure (\<lambda>(C, input, dst). length input)") auto

declare zstd_decode.simps [simp del]

section \<open>Dispatch (src/compression/mod.rs)\<close>

definition decode_zlib :: "codecs \<Rightarrow> u8 list \<Rightarrow> u8 list \<Rightarrow> u8 list outcome" where
  "decode_zlib C src dst =
     (if cd_has_zlib C then zlib_decode C src dst else Err (BadCompression ''comp_zlib''))"

definition decode_zstd :: "codecs \<Rightarrow> u8 list \<Rightarrow> u8 list \<Rightarrow> u8 list outcome" where
  "decode_zstd C src dst =
     (if cd_has_zstd C then zstd_decode C src dst else Err (BadCompression ''comp_zstd''))"

definition decode_lzo :: "codecs \<Rightarrow> u8 list \<Rightarrow> u8 list \<Rightarrow> nat \<Rightarrow> u8 list outcome" where
  "decode_lzo C src dst sectorsize =
     (if cd_has_lzo C then lzo_decode C src dst sectorsize else Err (BadCompression ''comp_lzo''))"

definition decode :: "codecs \<Rightarrow> u8 \<Rightarrow> u8 list \<Rightarrow> u8 list \<Rightarrow> u32 \<Rightarrow> u8 list outcome" where
  "decode C algorithm src dst sectorsize =
    (if algorithm = COMPRESS_NONE then Ok (dst @ src)
     else if algorithm = COMPRESS_ZLIB then decode_zlib C src dst
     else if algorithm = COMPRESS_LZO then decode_lzo C src dst (as_usize sectorsize)
     else if algorithm = COMPRESS_ZSTD then decode_zstd C src dst
     else Err (BadCompression ''comp_unknown''))"

section \<open>The contract of a decoder\<close>

locale extent_decoder =
  fixes decoder :: "'c \<Rightarrow> u8 list \<Rightarrow> u8 list \<Rightarrow> u8 list outcome"
    and good :: "'c \<Rightarrow> bool"
  assumes decoder_safe: "good c \<Longrightarrow> decoder c src dst \<noteq> Panic"
    and decoder_appends: "good c \<Longrightarrow> decoder c src dst = Ok out \<Longrightarrow> \<exists>plain. out = dst @ plain"
    and decoder_bounded: "good c \<Longrightarrow> length dst \<le> MAX_DECOMPRESSED_EXTENT_BYTES \<Longrightarrow>
      decoder c src dst = Ok out \<Longrightarrow> length out \<le> MAX_DECOMPRESSED_EXTENT_BYTES"
begin

text \<open>Into an empty buffer: an error, or at most the cap.\<close>

lemma fresh_decode:
  assumes "good c"
  shows "(\<exists>e. decoder c src [] = Err e) \<or>
    (\<exists>out. decoder c src [] = Ok out \<and> length out \<le> MAX_DECOMPRESSED_EXTENT_BYTES)"
  using decoder_safe [OF assms, of src "[]"] decoder_bounded [OF assms, of "[]" src]
  by (cases "decoder c src []") auto

text \<open>Decoding after a prefix leaves the prefix in place.\<close>

lemma prefix_kept: "good c \<Longrightarrow> decoder c src dst = Ok out \<Longrightarrow> take (length dst) out = dst"
  using decoder_appends [of c src dst out] by auto

end
section \<open>The LZO loop keeps the contract\<close>

text \<open>One turn of the loop: it stops, it fails, or it appends one decoded segment and goes on.\<close>

lemma lzo_loop_turn:
  assumes "codecs_ok C" and "0 < ss" and "tot \<le> length src" and "length scratch = ss"
  obtains "lzo_loop C src tot ss p scratch dst = Ok dst"
  | "lzo_loop C src tot ss p scratch dst = Err lzo_bad"
  | stop seg n scratch' where "p < stop" "stop \<le> tot" "length dst + ss \<le> MAX_DECOMPRESSED_EXTENT_BYTES"
    "cd_lzokay C seg scratch = Some (n, scratch')" "n \<le> ss" "length scratch' = ss"
    "lzo_loop C src tot ss p scratch dst = lzo_loop C src tot ss stop scratch' (dst @ take n scratch')"
proof -
  define left where "left = ss - p mod ss"
  define q where "q = (if left < SEGMENT_HEADER then p + left else p)"
  have unfold: "lzo_loop C src tot ss p scratch dst =
    (if \<not> p < tot then Ok dst
     else if left < SEGMENT_HEADER \<and> q \<ge> tot then Ok dst
     else if q + SEGMENT_HEADER > tot then Err lzo_bad
     else
     obind (read_le_u32 src q) (\<lambda>len_word.
     let segment_len = unat len_word; start = q + SEGMENT_HEADER in
     if segment_len = 0 then Ok dst
     else
     obind (ok_or (usize_checked_add start segment_len) lzo_bad) (\<lambda>stop.
     if stop > tot then Err lzo_bad
     else
     obind (slice src start stop) (\<lambda>segment.
     if length dst + ss > MAX_DECOMPRESSED_EXTENT_BYTES then Err lzo_bad
     else
     obind (ok_or (cd_lzokay C segment scratch) lzo_bad) (\<lambda>(n, scratch).
     obind (slice scratch 0 n) (\<lambda>plain.
     lzo_loop C src tot ss stop scratch (dst @ plain)))))))"
    using assms(2) unfolding lzo_loop.simps [of C src tot ss p scratch dst] Let_def
      left_def [symmetric] q_def [symmetric] as_usize_u32 by simp
  have q: "p \<le> q" by (simp add: q_def)
  show thesis
  proof (cases "p < tot \<and> \<not> (left < SEGMENT_HEADER \<and> q \<ge> tot) \<and> q + SEGMENT_HEADER \<le> tot")
    case False
    with unfold that(1,2) show ?thesis by (auto split: if_splits)
  next
    case True
    then have rd: "read_le_u32 src q = Ok (le_field 4 src q)"
      using assms(3) by (simp add: read_le_defs SEGMENT_HEADER_def)
    from True have qt: "\<not> tot \<le> q" "\<not> tot < q + SEGMENT_HEADER" by (simp_all add: SEGMENT_HEADER_def)
    let ?stop = "q + SEGMENT_HEADER + unat (le_field 4 src q :: u32)"
    let ?seg = "take (unat (le_field 4 src q :: u32)) (drop (q + SEGMENT_HEADER) src)"
    have bad: "lzo_loop C src tot ss p scratch dst = Err lzo_bad"
      if "le_field 4 src q \<noteq> (0 :: u32)"
        "\<not> (?stop \<le> usize_max \<and> ?stop \<le> tot \<and> length dst + ss \<le> MAX_DECOMPRESSED_EXTENT_BYTES) \<or>
         cd_lzokay C ?seg scratch = None"
      using that True unfold rd assms(3)
      by (auto simp: usize_checked_add_def Let_def unat_eq_0 slice_def)
    show ?thesis
    proof (cases "le_field 4 src q = (0 :: u32)")
      case True': True
      with True unfold rd that(1) show ?thesis by (simp add: Let_def)
    next
      case False
      show ?thesis
      proof (cases "(?stop \<le> usize_max \<and> ?stop \<le> tot \<and> length dst + ss \<le> MAX_DECOMPRESSED_EXTENT_BYTES)
          \<and> cd_lzokay C ?seg scratch \<noteq> None")
        case False': False
        with False bad that(2) show ?thesis by blast
      next
        case True': True
        then obtain n scratch' where dec: "cd_lzokay C ?seg scratch = Some (n, scratch')" by auto
        from codecs_ok_lzokay [OF assms(1) dec] assms(4) have n: "n \<le> ss" "length scratch' = ss"
          by simp_all
        have "p < ?stop" using q by (simp add: SEGMENT_HEADER_def)
        then show ?thesis
        proof (rule that(3) [of ?stop ?seg n scratch'])
          show "lzo_loop C src tot ss p scratch dst =
              lzo_loop C src tot ss ?stop scratch' (dst @ take n scratch')"
            using True' True qt False unfold rd assms(3) n dec
            by (simp add: usize_checked_add_def Let_def unat_eq_0 slice_def not_less)
        qed (use True' dec n in auto)
      qed
    qed
  qed
qed

lemma lzo_loop_contract:
  assumes "codecs_ok C" and "0 < ss" and "tot \<le> length src" and "length scratch = ss"
  shows "lzo_loop C src tot ss p scratch dst \<noteq> Panic \<and>
    (\<forall>out. lzo_loop C src tot ss p scratch dst = Ok out \<longrightarrow>
      (\<exists>plain. out = dst @ plain) \<and>
      (length dst \<le> MAX_DECOMPRESSED_EXTENT_BYTES \<longrightarrow> length out \<le> MAX_DECOMPRESSED_EXTENT_BYTES))"
  using assms(4)
proof (induction "tot - p" arbitrary: p scratch dst rule: less_induct)
  case less
  from lzo_loop_turn [OF assms(1-3) less.prems, of p dst] show ?case
  proof cases
    case (3 stop seg n scratch')
    then have "tot - stop < tot - p" by linarith
    from less.hyps [OF this 3(6), of "dst @ take n scratch'"] 3 show ?thesis by auto
  qed simp_all
qed

interpretation lzo: extent_decoder
  "\<lambda>(C, ss) src dst. lzo_decode C src dst ss" "\<lambda>(C, ss). codecs_ok C \<and> 0 < ss"
proof -
  have step: "lzo_decode C src dst ss = Err lzo_bad \<or>
      (\<exists>tot. tot \<le> length src \<and>
        lzo_decode C src dst ss = lzo_loop C src tot ss 4 (replicate ss 0) dst)" for C src dst ss
    by (auto simp: lzo_decode_def read_le_defs not_less Let_def)
  have "lzo_decode C src dst ss \<noteq> Panic \<and> (\<forall>out. lzo_decode C src dst ss = Ok out \<longrightarrow>
      (\<exists>plain. out = dst @ plain) \<and>
      (length dst \<le> MAX_DECOMPRESSED_EXTENT_BYTES \<longrightarrow> length out \<le> MAX_DECOMPRESSED_EXTENT_BYTES))"
    if "codecs_ok C" "0 < ss" for C src dst ss
    using step [of C src dst ss]
  proof
    assume "\<exists>tot. tot \<le> length src \<and>
        lzo_decode C src dst ss = lzo_loop C src tot ss 4 (replicate ss 0) dst"
    then obtain tot where "tot \<le> length src"
      "lzo_decode C src dst ss = lzo_loop C src tot ss 4 (replicate ss 0) dst" by blast
    with lzo_loop_contract [OF that this(1) length_replicate, of 4 0 dst] show ?thesis by simp
  qed simp
  then show "extent_decoder (\<lambda>(C, ss) src dst. lzo_decode C src dst ss)
      (\<lambda>(C, ss). codecs_ok C \<and> 0 < ss)"
    by unfold_locales auto
qed
section \<open>The zlib and zstd decoders keep the contract\<close>

interpretation zlib: extent_decoder zlib_decode codecs_ok
  by unfold_locales (fastforce simp: zlib_decode_def Let_def outcome_simps codecs_ok_def split: if_splits)+

lemma zstd_read_loop_contract:
  assumes "codecs_ok C"
  shows "zstd_read_loop C input k dst \<noteq> Panic \<and>
    (\<forall>out. zstd_read_loop C input k dst = Ok out \<longrightarrow>
      (\<exists>plain. out = dst @ plain) \<and>
      (length dst \<le> MAX_DECOMPRESSED_EXTENT_BYTES \<longrightarrow> length out \<le> MAX_DECOMPRESSED_EXTENT_BYTES))"
  using assms
proof (induction C input k dst rule: zstd_read_loop.induct)
  case (1 C input k dst)
  show ?case
  proof (cases "cd_zstd_read C input k")
    case None
    then show ?thesis by (subst (1 2) zstd_read_loop.simps) simp
  next
    case (Some bs)
    with "1.prems" have short: "length bs \<le> 4096" unfolding codecs_ok_def by blast
    consider "bs = []" | "length dst + length bs > MAX_DECOMPRESSED_EXTENT_BYTES" "bs \<noteq> []" |
      "bs \<noteq> []" "length dst + length bs \<le> MAX_DECOMPRESSED_EXTENT_BYTES" by linarith
    then show ?thesis
    proof cases
      case 3
      with Some short have "zstd_read_loop C input k dst = zstd_read_loop C input (k + 1) (dst @ bs)"
        by (subst zstd_read_loop.simps) simp
      moreover have "zstd_read_loop C input (k + 1) (dst @ bs) \<noteq> Panic \<and>
        (\<forall>out. zstd_read_loop C input (k + 1) (dst @ bs) = Ok out \<longrightarrow>
          (\<exists>plain. out = (dst @ bs) @ plain) \<and>
          (length (dst @ bs) \<le> MAX_DECOMPRESSED_EXTENT_BYTES \<longrightarrow>
            length out \<le> MAX_DECOMPRESSED_EXTENT_BYTES))"
        using 3 short by (intro "1.IH" [OF _ refl]) (simp_all add: Some "1.prems")
      ultimately show ?thesis using 3 by auto
    qed (use Some in \<open>subst (1 2) zstd_read_loop.simps, simp\<close>)+
  qed
qed

lemma zstd_decode_contract:
  assumes "codecs_ok C"
  shows "zstd_decode C input dst \<noteq> Panic \<and>
    (\<forall>out. zstd_decode C input dst = Ok out \<longrightarrow>
      (\<exists>plain. out = dst @ plain) \<and>
      (length dst \<le> MAX_DECOMPRESSED_EXTENT_BYTES \<longrightarrow> length out \<le> MAX_DECOMPRESSED_EXTENT_BYTES))"
  using assms
proof (induction "length input" arbitrary: input dst rule: less_induct)
  case less
  let ?frame = "4 \<le> length input \<and> (le_field 4 input 0 :: u32) = ZSTD_FRAME_MAGIC"
  let ?rest = "drop (4 + cd_zstd_consumed C input) input"
  have unfold: "zstd_decode C input dst =
    (if \<not> ?frame then Ok dst
     else if \<not> cd_zstd_new C input then Err (BadCompression ''comp_zstd'')
     else obind (zstd_read_loop C input 0 dst) (zstd_decode C ?rest))"
    by (subst zstd_decode.simps) (auto simp: read_le_defs)
  show ?case
  proof (cases "?frame \<and> cd_zstd_new C input")
    case False
    with unfold show ?thesis by (simp split: if_splits)
  next
    case True
    note frame = zstd_read_loop_contract [OF less.prems, of input 0 dst]
    have "length ?rest < length input" using True unfolding length_drop by linarith
    note rest = less.hyps [OF this less.prems]
    show ?thesis
    proof (cases "zstd_read_loop C input 0 dst")
      case (Ok mid)
      with True unfold have "zstd_decode C input dst = zstd_decode C ?rest mid" by simp
      with frame Ok rest [of mid] show ?thesis by auto
    qed (use True unfold frame in simp_all)
  qed
qed

interpretation zstd: extent_decoder zstd_decode codecs_ok
  using zstd_decode_contract by unfold_locales blast+

text \<open>The dispatcher keeps the contract for every algorithm byte but the one that copies.\<close>

lemma decode_contract:
  assumes "codecs_ok C" and "0 < ss" and "algorithm \<noteq> COMPRESS_NONE"
  shows "decode C algorithm src dst ss \<noteq> Panic \<and> (\<forall>out. decode C algorithm src dst ss = Ok out \<longrightarrow>
      (\<exists>plain. out = dst @ plain) \<and>
      (length dst \<le> MAX_DECOMPRESSED_EXTENT_BYTES \<longrightarrow> length out \<le> MAX_DECOMPRESSED_EXTENT_BYTES))"
proof -
  have pos: "0 < as_usize ss" using assms(2) by (simp add: word_less_nat_alt)
  have "decode C algorithm src dst ss = zlib_decode C src dst \<or>
      decode C algorithm src dst ss = lzo_decode C src dst (as_usize ss) \<or>
      decode C algorithm src dst ss = zstd_decode C src dst \<or>
      (\<exists>e. decode C algorithm src dst ss = Err e)"
    using assms(3) by (simp add: decode_def decode_lzo_def decode_zlib_def decode_zstd_def)
  then show ?thesis
  proof (elim disjE exE)
    assume "decode C algorithm src dst ss = lzo_decode C src dst (as_usize ss)"
    with lzo.decoder_safe [of "(C, as_usize ss)" src dst] lzo.decoder_appends [of "(C, as_usize ss)" src dst]
      lzo.decoder_bounded [of "(C, as_usize ss)" dst src] pos assms(1) show ?thesis by simp
  next
    assume "decode C algorithm src dst ss = zlib_decode C src dst"
    with zlib.decoder_safe [OF assms(1), of src dst] zlib.decoder_appends [OF assms(1), of src dst]
      zlib.decoder_bounded [OF assms(1), of dst src] show ?thesis by metis
  next
    assume "decode C algorithm src dst ss = zstd_decode C src dst"
    with zstd_decode_contract [OF assms(1), of src dst] show ?thesis by metis
  qed simp
qed

interpretation dispatch: extent_decoder
  "\<lambda>(C, algorithm, sectorsize) src dst. decode C algorithm src dst sectorsize"
  "\<lambda>(C, algorithm, sectorsize). codecs_ok C \<and> 0 < sectorsize \<and> algorithm \<noteq> COMPRESS_NONE"
proof unfold_locales
  fix c :: "codecs \<times> u8 \<times> u32" and src dst out
  obtain C algorithm ss where c: "c = (C, algorithm, ss)" by (cases c)
  assume "case c of (C, algorithm, sectorsize) \<Rightarrow>
    codecs_ok C \<and> 0 < sectorsize \<and> algorithm \<noteq> COMPRESS_NONE"
  then have good: "codecs_ok C" "0 < ss" "algorithm \<noteq> COMPRESS_NONE" by (auto simp: c)
  note contract = decode_contract [OF good, of src dst]
  show "(case c of (C, algorithm, sectorsize) \<Rightarrow> \<lambda>src dst. decode C algorithm src dst sectorsize) src dst \<noteq> Panic"
    using contract by (simp add: c)
  assume r: "(case c of (C, algorithm, sectorsize) \<Rightarrow> \<lambda>src dst. decode C algorithm src dst sectorsize) src dst = Ok out"
  show "\<exists>plain. out = dst @ plain" using contract r by (simp add: c)
  show "length out \<le> MAX_DECOMPRESSED_EXTENT_BYTES" if "length dst \<le> MAX_DECOMPRESSED_EXTENT_BYTES"
    using contract r that by (simp add: c)
qed
section \<open>The LZO layout\<close>

text \<open>
  The on-disk layout as the kernel writes it (and as the helper \<^verbatim>\<open>extent\<close> of the unit tests does):
  the total length, then each compressed segment behind its length, where a length word that would
  straddle a sector boundary is moved to the next sector by zero padding.
\<close>

primrec lzo_layout :: "nat \<Rightarrow> nat \<Rightarrow> u8 list list \<Rightarrow> u8 list" where
  "lzo_layout ss p [] = []"
| "lzo_layout ss p (seg # segs) =
    (let left = ss - p mod ss; pad = (if left < SEGMENT_HEADER then left else 0) in
     replicate pad 0 @ le_bytes (word_of_nat (length seg) :: u32) @ seg
       @ lzo_layout ss (p + pad + SEGMENT_HEADER + length seg) segs)"

definition lzo_extent :: "nat \<Rightarrow> u8 list list \<Rightarrow> u8 list" where
  "lzo_extent ss segs =
    (let body = lzo_layout ss 4 segs in le_bytes (word_of_nat (4 + length body) :: u32) @ body)"

text \<open>A segment the decoder expands to \<open>plain\<close>, whatever the scratch buffer of a sector held before.\<close>

definition decodes_to :: "codecs \<Rightarrow> nat \<Rightarrow> u8 list \<times> u8 list \<Rightarrow> bool" where
  "decodes_to C ss sp \<longleftrightarrow> fst sp \<noteq> [] \<and>
     (\<forall>scratch. length scratch = ss \<longrightarrow>
       (\<exists>scratch'. cd_lzokay C (fst sp) scratch = Some (length (snd sp), scratch') \<and>
          length scratch' = ss \<and> take (length (snd sp)) scratch' = snd sp \<and> length (snd sp) \<le> ss))"

lemma lzo_loop_layout:
  assumes "0 < ss" and "\<forall>sp \<in> set segs. decodes_to C ss sp"
    and "tot = length pre + length (lzo_layout ss (length pre) (map fst segs))"
    and "tot < 2 ^ 32" and "length scratch = ss"
    and "length dst + length segs * ss \<le> MAX_DECOMPRESSED_EXTENT_BYTES"
  shows "lzo_loop C (pre @ lzo_layout ss (length pre) (map fst segs) @ tail) tot ss (length pre) scratch dst
    = Ok (dst @ concat (map snd segs))"
  using assms(2-)
proof (induction segs arbitrary: pre scratch dst)
  case Nil
  then show ?case by (simp add: lzo_loop.simps)
next
  case (Cons sp segs)
  obtain seg plain where sp: "sp = (seg, plain)" by (cases sp)
  define left where "left = ss - length pre mod ss"
  define pad where "pad = (if left < SEGMENT_HEADER then left else 0)"
  define pre' where "pre' = pre @ replicate pad 0 @ le_bytes (word_of_nat (length seg) :: u32) @ seg"
  let ?rest = "lzo_layout ss (length pre') (map fst segs)"
  have lay: "lzo_layout ss (length pre) (map fst (sp # segs)) =
      replicate pad 0 @ le_bytes (word_of_nat (length seg) :: u32) @ seg @ ?rest"
    unfolding sp list.map fst_conv lzo_layout.simps Let_def left_def [symmetric] pad_def [symmetric]
    by (simp add: pre'_def SEGMENT_HEADER_def add.assoc)
  from Cons.prems(1) obtain scratch' where
    dec: "cd_lzokay C seg scratch = Some (length plain, scratch')" "length scratch' = ss"
      "take (length plain) scratch' = plain" "length plain \<le> ss" "seg \<noteq> []"
    using Cons.prems(4) by (auto simp: decodes_to_def sp)
  let ?src = "pre @ lzo_layout ss (length pre) (map fst (sp # segs)) @ tail"
  have src: "?src = pre' @ ?rest @ tail" unfolding lay by (simp add: pre'_def)
  have tot: "tot = length pre' + length ?rest" using Cons.prems(2) unfolding lay by (simp add: pre'_def)
  have len: "length pre' = length pre + pad + 4 + length seg" by (simp add: pre'_def)
  have seg32: "unat (word_of_nat (length seg) :: u32) = length seg"
    using Cons.prems(3) tot len by (intro unat_word_of_nat_small) simp
  have "lzo_loop C ?src tot ss (length pre) scratch dst =
      lzo_loop C ?src tot ss (length pre') scratch' (dst @ plain)"
  proof -
    have q: "(if left < SEGMENT_HEADER then length pre + left else length pre) = length pre + pad"
      by (simp add: pad_def)
    have rd: "read_le_u32 ?src (length pre + pad) = Ok (word_of_nat (length seg))"
      using read_le_encoded(2) [of "pre @ replicate pad 0" "length pre + pad"
          "word_of_nat (length seg)" "seg @ ?rest @ tail"]
      unfolding lay by simp
    have sl: "Prelude.slice ?src (length pre + pad + SEGMENT_HEADER) (length pre') = Ok seg"
      unfolding lay by (simp add: slice_def len SEGMENT_HEADER_def)
    have ca: "usize_checked_add (length pre + pad + SEGMENT_HEADER) (length seg) = Some (length pre')"
      using Cons.prems(3) tot len by (simp add: usize_checked_add_def usize_max_def SEGMENT_HEADER_def)
    show ?thesis
      unfolding lzo_loop.simps [of C ?src tot ss "length pre"] Let_def left_def [symmetric] q
      using assms(1) rd sl ca dec tot len seg32 Cons.prems(5)
      by (simp add: slice_def SEGMENT_HEADER_def del: lzo_layout.simps)
  qed
  also have "\<dots> = lzo_loop C (pre' @ ?rest @ tail) tot ss (length pre') scratch' (dst @ plain)"
    by (simp only: src)
  also have "\<dots> = Ok ((dst @ plain) @ concat (map snd segs))"
    using Cons.prems dec tot by (intro Cons.IH) (auto simp: tot)
  finally show ?case by (simp add: sp)
qed
lemma lzo_decode_extent:
  assumes "0 < ss" and "\<forall>sp \<in> set segs. decodes_to C ss sp" and "length (lzo_extent ss (map fst segs)) < 2 ^ 32"
    and "length segs * ss \<le> MAX_DECOMPRESSED_EXTENT_BYTES"
  shows "lzo_decode C (lzo_extent ss (map fst segs) @ tail) [] ss = Ok (concat (map snd segs))"
proof -
  let ?body = "lzo_layout ss 4 (map fst segs)"
  let ?tot = "4 + length ?body"
  let ?head = "le_bytes (word_of_nat ?tot :: u32)"
  have tot: "?tot < 2 ^ 32" using assms(3) by (simp add: lzo_extent_def Let_def)
  then have w: "unat (word_of_nat ?tot :: u32) = ?tot" by (intro unat_word_of_nat_small) simp
  have "lzo_loop C (?head @ lzo_layout ss (length ?head) (map fst segs) @ tail) ?tot ss (length ?head)
      (replicate ss 0) [] = Ok ([] @ concat (map snd segs))"
    using assms tot by (intro lzo_loop_layout) simp_all
  moreover have "read_le_u32 (?head @ ?body @ tail) 0 = Ok (word_of_nat ?tot)"
    using read_le_encoded(2) [of "[]" 0 "word_of_nat ?tot" "?body @ tail"] by simp
  ultimately show ?thesis
    using w by (simp add: lzo_decode_def lzo_extent_def Let_def)
qed

section \<open>Properties\<close>

text \<open>Decoders that store their input unchanged, to exhibit that the contract can be met.\<close>

definition stored_codecs :: codecs where
  "stored_codecs = \<lparr>cd_has_zlib = True, cd_has_lzo = True, cd_has_zstd = False,
     cd_lzokay = (\<lambda>src scratch. if length src \<le> length scratch
       then Some (length src, src @ drop (length src) scratch) else None),
     cd_inflate = (\<lambda>src limit. if length src \<le> limit then Some src else None),
     cd_zstd_new = (\<lambda>_. False), cd_zstd_read = (\<lambda>_ _. None), cd_zstd_consumed = (\<lambda>_. 0)\<rparr>"

lemma stored_codecs_ok: "codecs_ok stored_codecs"
  by (auto simp: codecs_ok_def stored_codecs_def split: if_splits)

lemma stored_codecs_has_lzo [simp]: "cd_has_lzo stored_codecs"
  by (simp add: stored_codecs_def)

lemma stored_decodes_to: "seg \<noteq> [] \<Longrightarrow> length seg \<le> ss \<Longrightarrow> decodes_to stored_codecs ss (seg, seg)"
  by (auto simp: decodes_to_def stored_codecs_def)

text \<open>
  C28. Decompression is bounded: whatever the algorithm byte (other than the plain copy) and the input
  bytes, decoding into an empty buffer never panics and yields an error or at most the 16 MiB cap on
  the plaintext of an extent, for any decoders that respect the buffer lengths they are given.
\<close>

theorem decode_bounded:
  assumes "codecs_ok C" and "0 < sectorsize" and "algorithm \<noteq> COMPRESS_NONE"
  shows "(\<exists>e. decode C algorithm src [] sectorsize = Err e) \<or>
    (\<exists>out. decode C algorithm src [] sectorsize = Ok out \<and> length out \<le> MAX_DECOMPRESSED_EXTENT_BYTES)"
  using dispatch.fresh_decode [of "(C, algorithm, sectorsize)" src] assms by simp

theorem decode_bounded_witness:
  "(\<exists>e. decode stored_codecs COMPRESS_ZLIB [1, 2, 3] [] 4096 = Err e) \<or>
   (\<exists>out. decode stored_codecs COMPRESS_ZLIB [1, 2, 3] [] 4096 = Ok out \<and>
      length out \<le> MAX_DECOMPRESSED_EXTENT_BYTES)"
  using decode_bounded [of stored_codecs 4096 COMPRESS_ZLIB "[1, 2, 3]"] stored_codecs_ok
  by (simp add: format_consts)

text \<open>
  C24. The LZO framing round trip: an extent laid out in segments behind length words, none of which
  straddles a sector boundary, followed by any sector padding, decodes to the concatenation of the
  segments' plaintexts, for every sector size and any decoder that expands each segment.
\<close>

theorem lzo_extent_roundtrip:
  assumes "cd_has_lzo C" and "0 < sectorsize" and "\<forall>sp \<in> set segs. decodes_to C (unat sectorsize) sp"
    and "length (lzo_extent (unat sectorsize) (map fst segs)) < 2 ^ 32"
    and "length segs * unat sectorsize \<le> MAX_DECOMPRESSED_EXTENT_BYTES"
  shows "decode C COMPRESS_LZO (lzo_extent (unat sectorsize) (map fst segs) @ tail) [] sectorsize =
    Ok (concat (map snd segs))"
  using lzo_decode_extent [of "unat sectorsize" segs C tail] assms
  by (simp add: decode_def decode_lzo_def format_consts word_less_nat_alt)

theorem lzo_extent_roundtrip_witness:
  "lzo_extent 8 [[1, 2, 3, 4, 5], [6]] =
     [21, 0, 0, 0, 5, 0, 0, 0, 1, 2, 3, 4, 5, 0, 0, 0, 1, 0, 0, 0, 6] \<and>
   decode stored_codecs COMPRESS_LZO (lzo_extent 8 [[1, 2, 3, 4, 5], [6]] @ [0, 0, 0]) [] 8 =
     Ok [1, 2, 3, 4, 5, 6]"
proof -
  have ex: "lzo_extent 8 [[1, 2, 3, 4, 5], [6]] =
     [21, 0, 0, 0, 5, 0, 0, 0, 1, 2, 3, 4, 5, 0, 0, 0, 1, 0, 0, 0, 6]"
    by code_simp
  then show ?thesis
    using lzo_extent_roundtrip [of stored_codecs 8
        "[([1, 2, 3, 4, 5], [1, 2, 3, 4, 5]), ([6], [6])]" "[0, 0, 0]"]
    by (simp add: stored_decodes_to format_consts stored_codecs_has_lzo)
qed

end
