(* ===== verification/File.thy ===== *)
theory File
  imports Extent_Scan Extent_Read Compression Inode Root_Tree
begin

text \<open>
  File contents (\<^verbatim>\<open>src/file.rs\<close>): inode metadata, symlink targets, whole-file reads and reads at an
  offset. The loops over the extent items of an inode are instances of \<open>extent_scan\<close>; the byte reads
  are those of \<open>Extent_Read\<close>. The theory holds the model and panic freedom; \<open>File_Content\<close> relates the
  two ways of reading to the contents of the file.
\<close>

section \<open>Extent headers and geometry\<close>

definition extent_header :: "u8 list \<Rightarrow> u64 \<Rightarrow> extent_data_header outcome" where
  "extent_header data logical =
     obind (extent_data_header_parse data 0) (\<lambda>parsed.
     obind (ok_or parsed (CorruptBtree ''extent_header_short'' logical)) (\<lambda>header.
     if eh_encryption header \<noteq> 0 then Err (UnsupportedFeature ''feat_encryption'')
     else Ok header))"

record geometry =
  gm_nodesize :: u32
  gm_sectorsize :: u32

section \<open>Metadata\<close>

text \<open>The mode is octal 040755.\<close>

definition empty_subvol_metadata :: metadata where
  "empty_subvol_metadata =
     \<lparr>md_size = 0, md_nbytes = 0, md_nlink = 1, md_mode = 0x41ED, md_uid = 0, md_gid = 0,
      md_generation = 0\<rparr>"

definition read_metadata :: "platform \<Rightarrow> chunk_map \<Rightarrow> u32 \<Rightarrow> u64 \<Rightarrow> u64 \<Rightarrow> metadata outcome" where
  "read_metadata P cm nodesize fs_tree_root objectid =
    (if objectid = EMPTY_SUBVOL_DIR_OBJECTID then Ok empty_subvol_metadata
     else
     let target = DiskKey objectid INODE_ITEM_KEY 0 in
     obind (find_first_ge P cm nodesize fs_tree_root target) (\<lambda>location.
     obind (ok_or location NotFound) (\<lambda>(leaf, idx).
     obind (tb_leaf_item leaf idx) (\<lambda>item.
     if key_objectid (li_key item) \<noteq> objectid \<or> key_item_type (li_key item) \<noteq> INODE_ITEM_KEY
     then Err NotFound
     else
     obind (tb_leaf_item_data leaf item) (\<lambda>data.
     obind (inode_item_parse data 0) (\<lambda>parsed.
     obind (ok_or parsed (CorruptBtree ''inode_item_short'' (tb_bytenr leaf))) (\<lambda>parsed.
     Ok \<lparr>md_size = ii_size parsed, md_nbytes = ii_nbytes parsed, md_nlink = ii_nlink parsed,
         md_mode = ii_mode parsed, md_uid = ii_uid parsed, md_gid = ii_gid parsed,
         md_generation = ii_generation parsed\<rparr>)))))))"

section \<open>Symlinks\<close>

definition read_link ::
  "platform \<Rightarrow> codecs \<Rightarrow> chunk_map \<Rightarrow> geometry \<Rightarrow> u64 \<Rightarrow> u64 \<Rightarrow> u8 list outcome" where
  "read_link P C cm geometry fs_tree_root objectid =
     obind (read_metadata P cm (gm_nodesize geometry) fs_tree_root objectid) (\<lambda>metadata.
     if \<not> is_symlink metadata then Err NotASymlink
     else
     let target = DiskKey objectid EXTENT_DATA_KEY 0 in
     obind (find_first_ge P cm (gm_nodesize geometry) fs_tree_root target) (\<lambda>location.
     obind (ok_or location NotFound) (\<lambda>(leaf, idx).
     obind (tb_leaf_item leaf idx) (\<lambda>item.
     if key_objectid (li_key item) \<noteq> objectid \<or> key_item_type (li_key item) \<noteq> EXTENT_DATA_KEY
     then Err (CorruptBtree ''symlink_no_extent_data'' (tb_bytenr leaf))
     else
     obind (tb_leaf_item_data leaf item) (\<lambda>data.
     obind (extent_header data (tb_bytenr leaf)) (\<lambda>header.
     if eh_ty header \<noteq> FILE_EXTENT_INLINE then Err (UnsupportedFeature ''symlink_long'')
     else
     obind (slice data ExtentDataHeader_SIZE (length data)) (\<lambda>payload.
     obind (if eh_compression header = COMPRESS_NONE then Ok ([] @ payload)
            else decode C (eh_compression header) payload [] (gm_sectorsize geometry)) (\<lambda>out.
     let target_len = min (as_usize (md_size metadata)) (length out) in
     Ok (take target_len out)))))))))"

section \<open>Growing the output\<close>

definition finalize :: "u8 list \<Rightarrow> u64 \<Rightarrow> u8 list outcome" where
  "finalize out expected_size =
     obind (ok_or (try_usize expected_size) (OutOfMemory ''finalize'')) (\<lambda>want.
     if length out < want then vec_resize out want
     else if length out > want then Ok (take want out)
     else Ok out)"

section \<open>Compressed extents\<close>

text \<open>
  Reading and decoding a compressed extent, the code \<^verbatim>\<open>apply_extent\<close> and \<^verbatim>\<open>copy_extent_slice\<close> share up
  to the slice they take of the plaintext.
\<close>

definition read_compressed ::
  "platform \<Rightarrow> codecs \<Rightarrow> chunk_map \<Rightarrow> u32 \<Rightarrow> extent_data_header \<Rightarrow> extent_data_regular \<Rightarrow> u8 list outcome" where
  "read_compressed P C cm sectorsize header regular =
     obind (ok_or (try_usize (er_disk_num_bytes regular)) (OutOfMemory ''compressed_disk'')) (\<lambda>disk_size.
     if disk_size > MAX_DECOMPRESSED_EXTENT_BYTES then Err (BadCompression ''comp_oversized'')
     else if \<not> try_reserve (pf_alloc P) 0 disk_size then Err (OutOfMemory ''compressed_disk'')
     else
     obind (vec_resize [] disk_size) (\<lambda>compressed.
     obind (read_through_chunks P cm (er_disk_bytenr regular) compressed) (\<lambda>compressed.
     decode C (eh_compression header) compressed [] sectorsize)))"

section \<open>Whole-file reads\<close>

definition apply_extent ::
  "platform \<Rightarrow> codecs \<Rightarrow> chunk_map \<Rightarrow> u32 \<Rightarrow> u8 list \<Rightarrow> u8 list \<Rightarrow> u64 \<Rightarrow> u8 list outcome" where
  "apply_extent P C cm sectorsize out data file_size =
     obind (extent_header data 0) (\<lambda>header.
     if eh_ty header = FILE_EXTENT_INLINE then
       obind (slice data ExtentDataHeader_SIZE (length data)) (\<lambda>payload.
       if eh_compression header = COMPRESS_NONE then
         let n = min (as_usize (eh_ram_bytes header)) (length payload) in
         obind (slice payload 0 n) (\<lambda>bytes. Ok (out @ bytes))
       else
         obind (decode C (eh_compression header) payload [] sectorsize) (\<lambda>decoded.
         let n = min (as_usize (eh_ram_bytes header)) (length decoded) in
         obind (slice decoded 0 n) (\<lambda>bytes. Ok (out @ bytes))))
     else if eh_ty header = FILE_EXTENT_REG \<or> eh_ty header = FILE_EXTENT_PREALLOC then
       obind (extent_data_regular_parse data ExtentDataHeader_SIZE) (\<lambda>parsed.
       obind (ok_or parsed (CorruptBtree ''extent_tail_short'' 0)) (\<lambda>regular.
       let remaining = saturating_sub file_size (word_of_nat (length out));
           emit = min (er_num_bytes regular) remaining in
       if emit = 0 then Ok out
       else
       obind (ok_or (try_usize emit) (OutOfMemory ''extent_emit'')) (\<lambda>emit_usize.
       if er_disk_bytenr regular = 0 \<or> eh_ty header = FILE_EXTENT_PREALLOC
       then vec_resize out (length out + emit_usize)
       else if eh_compression header = COMPRESS_NONE then
         let read_start = length out in
         obind (vec_resize out (read_start + emit_usize)) (\<lambda>out.
         obind (ok_or (checked_add (er_disk_bytenr regular) (er_offset regular))
                  (CorruptBtree ''extent_overflow'' (er_disk_bytenr regular))) (\<lambda>disk_at.
         obind (slice out read_start (length out)) (\<lambda>tail.
         obind (read_through_chunks P cm disk_at tail) (\<lambda>bytes.
         Ok (take read_start out @ bytes)))))
       else
         obind (read_compressed P C cm sectorsize header regular) (\<lambda>decoded.
         obind (ok_or (try_usize (er_offset regular)) (OutOfMemory ''extent_offset'')) (\<lambda>off.
         obind (ok_or (usize_checked_add off emit_usize)
                  (CorruptBtree ''extent_overflow'' (er_disk_bytenr regular))) (\<lambda>stop.
         if stop > length decoded then Err (CorruptBtree ''extent_underdecoded'' (er_disk_bytenr regular))
         else obind (slice decoded off stop) (\<lambda>bytes. Ok (out @ bytes))))))))
     else Err (CorruptBtree ''extent_type_unknown'' 0))"

text \<open>What the loop of \<^verbatim>\<open>read_file\<close> does with one extent item.\<close>

definition read_file_item ::
  "platform \<Rightarrow> codecs \<Rightarrow> chunk_map \<Rightarrow> u32 \<Rightarrow> u64 \<Rightarrow> tree_block \<Rightarrow> leaf_item \<Rightarrow> u8 list
   \<Rightarrow> u8 list item_step outcome" where
  "read_file_item P C cm sectorsize file_size leaf item out =
    (let extent_offset_in_file = key_offset (li_key item) in
     if unat extent_offset_in_file < length out
     then Err (CorruptBtree ''extent_overlap'' (tb_bytenr leaf))
     else if extent_offset_in_file > file_size
     then Err (CorruptBtree ''extent_past_eof'' (tb_bytenr leaf))
     else
     obind (plain_sub extent_offset_in_file (word_of_nat (length out))) (\<lambda>gap.
     obind (if gap > 0 then
              obind (ok_or (try_usize gap) (OutOfMemory ''hole_fill'')) (\<lambda>gap_usize.
              if \<not> try_reserve (pf_alloc P) (length out) gap_usize then Err (OutOfMemory ''hole_fill'')
              else vec_resize out (length out + gap_usize))
            else Ok out) (\<lambda>out.
     obind (tb_leaf_item_data leaf item) (\<lambda>data.
     obind (apply_extent P C cm sectorsize out data file_size) (\<lambda>out.
     Ok (Next out))))))"

definition read_file ::
  "platform \<Rightarrow> codecs \<Rightarrow> chunk_map \<Rightarrow> geometry \<Rightarrow> u64 \<Rightarrow> u64 \<Rightarrow> u8 list outcome" where
  "read_file P C cm geometry fs_tree_root objectid =
     obind (read_metadata P cm (gm_nodesize geometry) fs_tree_root objectid) (\<lambda>metadata.
     if \<not> is_file metadata then Err NotARegularFile
     else
     let file_size = md_size metadata in
     obind (ok_or (try_usize file_size) (OutOfMemory ''file_size_overflow'')) (\<lambda>file_size_usize.
     if \<not> try_reserve (pf_alloc P) 0 file_size_usize then Err (OutOfMemory ''file_buffer'')
     else
     obind (extent_scan P cm (gm_nodesize geometry) fs_tree_root
              (read_file_item P C cm (gm_sectorsize geometry) file_size)
              (\<lambda>out. length out \<ge> unat file_size) objectid []) (\<lambda>out.
     finalize out file_size)))"

section \<open>Reads at an offset\<close>

definition extent_logical_length :: "u8 list \<Rightarrow> u64 outcome" where
  "extent_logical_length data =
     obind (extent_header data 0) (\<lambda>header.
     if eh_ty header = FILE_EXTENT_INLINE then Ok (eh_ram_bytes header)
     else if eh_ty header = FILE_EXTENT_REG \<or> eh_ty header = FILE_EXTENT_PREALLOC then
       obind (extent_data_regular_parse data ExtentDataHeader_SIZE) (\<lambda>parsed.
       obind (ok_or parsed (CorruptBtree ''extent_tail_short'' 0)) (\<lambda>regular.
       Ok (er_num_bytes regular)))
     else Err (CorruptBtree ''extent_type_unknown'' 0))"

text \<open>The bytes written over \<open>dst\<close>; \<^verbatim>\<open>copy_from_slice\<close> panics unless the lengths agree.\<close>

definition copy_from_slice :: "u8 list \<Rightarrow> u8 list \<Rightarrow> u8 list outcome" where
  "copy_from_slice dst src = (if length dst = length src then Ok src else Panic)"

definition copy_extent_slice ::
  "platform \<Rightarrow> codecs \<Rightarrow> chunk_map \<Rightarrow> u32 \<Rightarrow> u8 list \<Rightarrow> u64 \<Rightarrow> u8 list \<Rightarrow> u8 list outcome" where
  "copy_extent_slice P C cm sectorsize data in_extent_offset dst =
     obind (extent_header data 0) (\<lambda>header.
     if eh_ty header = FILE_EXTENT_INLINE then
       obind (slice data ExtentDataHeader_SIZE (length data)) (\<lambda>payload.
       obind (if eh_compression header = COMPRESS_NONE then Ok payload
              else decode C (eh_compression header) payload [] sectorsize) (\<lambda>src.
       let off = as_usize in_extent_offset in
       obind (ok_or (usize_checked_add off (length dst)) (CorruptBtree ''extent_overflow'' 0)) (\<lambda>stop.
       if stop > length src then Err (CorruptBtree ''extent_underdecoded'' 0)
       else obind (slice src off stop) (copy_from_slice dst))))
     else if eh_ty header = FILE_EXTENT_REG \<or> eh_ty header = FILE_EXTENT_PREALLOC then
       obind (extent_data_regular_parse data ExtentDataHeader_SIZE) (\<lambda>parsed.
       obind (ok_or parsed (CorruptBtree ''extent_tail_short'' 0)) (\<lambda>regular.
       if er_disk_bytenr regular = 0 \<or> eh_ty header = FILE_EXTENT_PREALLOC
       then Ok (replicate (length dst) 0)
       else if eh_compression header = COMPRESS_NONE then
         obind (ok_or (Option.bind (checked_add (er_disk_bytenr regular) (er_offset regular))
                         (\<lambda>v. checked_add v in_extent_offset))
                  (CorruptBtree ''extent_overflow'' (er_disk_bytenr regular))) (\<lambda>logical_at.
         read_through_chunks P cm logical_at dst)
       else
         obind (read_compressed P C cm sectorsize header regular) (\<lambda>decoded.
         obind (plain_add (er_offset regular) in_extent_offset) (\<lambda>sum.
         obind (ok_or (try_usize sum) (OutOfMemory ''extent_offset'')) (\<lambda>off.
         obind (ok_or (usize_checked_add off (length dst))
                  (CorruptBtree ''extent_overflow'' (er_disk_bytenr regular))) (\<lambda>stop.
         if stop > length decoded then Err (CorruptBtree ''extent_underdecoded'' (er_disk_bytenr regular))
         else obind (slice decoded off stop) (copy_from_slice dst)))))))
     else Err (CorruptBtree ''extent_type_unknown'' 0))"

text \<open>
  The window \<^verbatim>\<open>&mut buf[..want_usize]\<close> as a pair: the \<^verbatim>\<open>written\<close> bytes already final, and the part still
  to fill with its old contents. One item of the loop of \<^verbatim>\<open>read_file_at\<close>:
\<close>

type_synonym window = "u8 list \<times> u8 list"

definition read_file_at_item ::
  "platform \<Rightarrow> codecs \<Rightarrow> chunk_map \<Rightarrow> u32 \<Rightarrow> u64 \<Rightarrow> tree_block \<Rightarrow> leaf_item \<Rightarrow> window
   \<Rightarrow> window item_step outcome" where
  "read_file_at_item P C cm sectorsize offset leaf item w =
    (let (acc, rest) = w; extent_start = key_offset (li_key item) in
     obind (tb_leaf_item_data leaf item) (\<lambda>data.
     obind (extent_logical_length data) (\<lambda>extent_logical_len.
     let extent_end = saturating_add extent_start extent_logical_len in
     obind (plain_add offset (word_of_nat (length acc))) (\<lambda>request_start.
     if extent_end \<le> request_start then Ok (Next (acc, rest))
     else
     obind (if extent_start > request_start then
              obind (plain_sub extent_start request_start) (\<lambda>gap.
              let n = min (as_usize gap) (length rest) in
              Ok (acc @ replicate n 0, drop n rest))
            else Ok (acc, rest)) (\<lambda>(acc, rest).
     if extent_start > request_start \<and> rest = [] then Ok (Leave (acc, rest))
     else
     obind (plain_add offset (word_of_nat (length acc))) (\<lambda>request_start.
     obind (plain_sub request_start extent_start) (\<lambda>in_extent_offset.
     obind (plain_sub extent_end request_start) (\<lambda>extent_remaining.
     let want_here = min (as_usize extent_remaining) (length rest) in
     obind (copy_extent_slice P C cm sectorsize data in_extent_offset (take want_here rest)) (\<lambda>bytes.
     Ok (Next (acc @ bytes, drop want_here rest)))))))))))"

definition read_file_at ::
  "platform \<Rightarrow> codecs \<Rightarrow> chunk_map \<Rightarrow> geometry \<Rightarrow> u64 \<Rightarrow> u64 \<Rightarrow> u64 \<Rightarrow> u8 list
   \<Rightarrow> (nat \<times> u8 list) outcome" where
  "read_file_at P C cm geometry fs_tree_root objectid offset buf =
    (if buf = [] then Ok (0, buf)
     else
     obind (read_metadata P cm (gm_nodesize geometry) fs_tree_root objectid) (\<lambda>metadata.
     if \<not> is_file metadata then Err NotARegularFile
     else
     let file_size = md_size metadata in
     if offset \<ge> file_size then Ok (0, buf)
     else
     let want = min (word_of_nat (length buf)) (file_size - offset) in
     obind (ok_or (try_usize want) (OutOfMemory ''read_at_overflow'')) (\<lambda>want_usize.
     obind (slice buf 0 want_usize) (\<lambda>window.
     obind (extent_scan P cm (gm_nodesize geometry) fs_tree_root
              (read_file_at_item P C cm (gm_sectorsize geometry) offset)
              (\<lambda>(acc, rest). rest = []) objectid ([], window)) (\<lambda>(acc, rest).
     Ok (length acc + length rest, acc @ replicate (length rest) 0 @ drop want_usize buf))))))"
section \<open>Panic freedom\<close>

lemma extent_header_eq:
  "extent_header data l =
    (if length data < 21 then Err (CorruptBtree ''extent_header_short'' l)
     else if eh_encryption (extent_data_header_of data 0) \<noteq> 0 then Err (UnsupportedFeature ''feat_encryption'')
     else Ok (extent_data_header_of data 0))"
  by (simp add: extent_header_def extent_data_header_parse_eq)

lemma read_metadata_safe [outcome_safe]: "read_metadata P cm ns root oid \<noteq> Panic"
  by (auto simp: read_metadata_def Let_def outcome_simps find_first_ge_safe tb_leaf_item_safe
      tb_leaf_item_data_safe inode_item_parse_eq split: if_splits)

lemma decode_safe:
  "codecs_ok C \<Longrightarrow> 0 < ss \<Longrightarrow> alg \<noteq> COMPRESS_NONE \<Longrightarrow> decode C alg src dst ss \<noteq> Panic"
  using dispatch.decoder_safe [of "(C, alg, ss)" src dst] by simp

lemma read_link_safe:
  assumes "codecs_ok C" and "0 < gm_sectorsize g"
  shows "read_link P C cm g root oid \<noteq> Panic"
  using decode_safe [OF assms]
  by (auto simp: read_link_def Let_def outcome_simps find_first_ge_safe tb_leaf_item_safe read_metadata_safe
      tb_leaf_item_data_safe extent_header_eq layout split: if_splits)

lemma MAX_fits: "n \<le> MAX_DECOMPRESSED_EXTENT_BYTES \<Longrightarrow> n \<le> isize_max"
  by (simp add: format_consts isize_max_def)

lemma read_compressed_safe:
  assumes "codecs_ok C" and "0 < ss" and "eh_compression h \<noteq> COMPRESS_NONE"
  shows "read_compressed P C cm ss h r \<noteq> Panic"
  using decode_safe [OF assms]
  by (auto simp: read_compressed_def outcome_simps vec_resize_def try_reserve_def read_through_chunks_safe
      split: if_splits)

lemma unat_of_nat_le:
  fixes x :: u64
  assumes "n \<le> unat x"
  shows "unat (word_of_nat n :: u64) = n"
  using order.strict_trans1 [OF assms unat_u64_less [of x]] by (intro unat_word_of_nat_small) simp

lemma emit_fits:
  fixes fsz n :: u64
  assumes "len \<le> unat fsz"
  shows "len + unat (min n (saturating_sub fsz (word_of_nat len))) \<le> unat fsz"
proof -
  have "unat (saturating_sub fsz (word_of_nat len)) = unat fsz - len"
    by (simp add: unat_saturating_sub unat_of_nat_le [OF assms])
  moreover have "unat (min n (saturating_sub fsz (word_of_nat len))) \<le> unat (saturating_sub fsz (word_of_nat len))"
    by (simp add: word_le_nat_alt [symmetric])
  ultimately show ?thesis using assms by linarith
qed

lemma apply_extent_safe:
  assumes "codecs_ok C" and "0 < ss" and "length out \<le> unat fsz" and "unat fsz \<le> isize_max"
  shows "apply_extent P C cm ss out data fsz \<noteq> Panic"
proof -
  have fits: "\<not> isize_max < length out + unat (min n (saturating_sub fsz (word_of_nat (length out))))" for n
    using emit_fits [OF assms(3), of n] assms(4) by linarith
  show ?thesis
    using decode_safe [OF assms(1,2)] read_compressed_safe [OF assms(1,2)] fits
    by (auto simp: apply_extent_def Let_def outcome_simps extent_header_eq extent_data_regular_parse_eq layout
        vec_resize_def read_through_chunks_safe usize_checked_add_def split: if_splits)
qed
lemma read_file_item_safe:
  assumes "codecs_ok C" and "0 < ss" and "unat fsz \<le> isize_max"
  shows "item_safe (read_file_item P C cm ss fsz) full (\<lambda>_. True) leaf item"
proof -
  let ?off = "key_offset (li_key item)"
  have off: "?off \<noteq> - 1" if "\<not> ?off > fsz"
  proof
    assume "?off = - 1"
    moreover have "unat ?off \<le> unat fsz" using that by (simp add: word_le_nat_alt not_less)
    ultimately have "unat (- 1 :: u64) \<le> isize_max" using assms(3) by simp
    then show False by (simp add: unsigned_minus_1_eq_mask mask_eq_exp_minus_1 isize_max_def)
  qed
  have gap: "plain_sub ?off (word_of_nat (length out)) = Ok (?off - word_of_nat (length out))"
    "unat (?off - word_of_nat (length out)) = unat ?off - length out" if "\<not> unat ?off < length out" for out :: "u8 list"
  proof -
    have "unat (word_of_nat (length out) :: u64) = length out"
      using that by (intro unat_of_nat_le [of _ ?off]) simp
    with that show "plain_sub ?off (word_of_nat (length out)) = Ok (?off - word_of_nat (length out))"
      "unat (?off - word_of_nat (length out)) = unat ?off - length out"
      by (simp_all add: plain_sub_def word_le_nat_alt unat_minus_le)
  qed
  have safe: "read_file_item P C cm ss fsz leaf item out \<noteq> Panic" for out
  proof (cases "unat ?off < length out \<or> ?off > fsz")
    case True
    then show ?thesis by (auto simp: read_file_item_def Let_def)
  next
    case False
    then have le: "unat ?off \<le> unat fsz" "length out \<le> unat ?off" by (simp_all add: word_le_nat_alt not_less)
    have ap: "apply_extent P C cm ss out' data fsz \<noteq> Panic" if "length out' = unat ?off" for out' data
      using le that by (intro apply_extent_safe [OF assms(1,2) _ assms(3)]) simp
    with False gap [of out] le assms(3) show ?thesis
      by (auto simp: read_file_item_def Let_def outcome_simps tb_leaf_item_data_safe vec_resize_def try_reserve_def word_less_nat_alt
          split: if_splits)
  qed
  have "\<not> ?off > fsz" if "read_file_item P C cm ss fsz leaf item out = Ok r" for out r
    using that by (auto simp: read_file_item_def Let_def split: if_splits)
  with safe off show ?thesis unfolding item_safe_def by blast
qed

lemma finalize_eq:
  "unat fsz \<le> isize_max \<Longrightarrow>
   finalize out fsz = Ok (take (unat fsz) out @ replicate (unat fsz - length out) 0)"
  by (auto simp: finalize_def vec_resize_def)

lemma read_file_safe:
  assumes "codecs_ok C" and "0 < gm_sectorsize g"
  shows "read_file P C cm g root oid \<noteq> Panic"
proof -
  have "extent_scan P cm ns root (read_file_item P C cm (gm_sectorsize g) fsz) full oid [] \<noteq> Panic"
    if "unat fsz \<le> isize_max" for ns fsz full
    unfolding extent_scan_def
    by (rule extent_scan_loop_safe [where keep = "\<lambda>_. True"])
      (use read_file_item_safe [OF assms that] in simp_all)
  then show ?thesis
    by (auto simp: read_file_def Let_def outcome_simps read_metadata_safe try_reserve_def finalize_eq
        split: if_splits)
qed
text \<open>
  The one arithmetic operation of the file reader that is not checked: the sum of the extent's offset
  and the offset into the extent, for a compressed extent.
\<close>

definition slice_overflows :: "u8 list \<Rightarrow> u64 \<Rightarrow> bool" where
  "slice_overflows data in_extent_offset \<longleftrightarrow>
     53 \<le> length data \<and> eh_ty (extent_data_header_of data 0) = FILE_EXTENT_REG \<and>
     eh_compression (extent_data_header_of data 0) \<noteq> COMPRESS_NONE \<and>
     er_disk_bytenr (extent_data_regular_of data 21) \<noteq> 0 \<and>
     2 ^ 64 \<le> unat (er_offset (extent_data_regular_of data 21)) + unat in_extent_offset"

lemma copy_extent_slice_panic:
  assumes "codecs_ok C" and "0 < ss" and "copy_extent_slice P C cm ss data k dst = Panic"
  shows "slice_overflows data k"
  using assms(3) decode_safe [OF assms(1,2)] read_compressed_safe [OF assms(1,2)]
  by (auto simp: copy_extent_slice_def Let_def outcome_simps extent_header_eq extent_data_regular_parse_eq layout
      read_through_chunks_safe usize_checked_add_def copy_from_slice_def plain_add_def slice_overflows_def
      format_consts split: if_splits)

lemma copy_extent_slice_length:
  "copy_extent_slice P C cm ss data k dst = Ok bs \<Longrightarrow> length bs = length dst"
  by (auto simp: copy_extent_slice_def Let_def outcome_simps copy_from_slice_def
      dest: read_through_chunks_length split: if_splits)

lemma extent_logical_length_safe: "extent_logical_length data \<noteq> Panic"
  by (auto simp: extent_logical_length_def outcome_simps extent_header_eq extent_data_regular_parse_eq
      split: if_splits)

text \<open>
  One item of \<^verbatim>\<open>read_file_at\<close> in plain numbers, for a window that ends within the file: the window
  starts at \<open>rs\<close>, the extent covers \<open>es\<close> up to \<open>ee\<close>.
\<close>

definition extent_end_at :: "leaf_item \<Rightarrow> u64 \<Rightarrow> nat" where
  "extent_end_at item len = min (unat (key_offset (li_key item)) + unat len) (2 ^ 64 - 1)"

lemma read_file_at_item_eq:
  fixes offset fsz :: u64
  assumes fits: "unat offset + length acc + length rest \<le> unat fsz" and ne: "rest \<noteq> []"
    and rs: "rs = unat offset + length acc" and es: "es = unat (key_offset (li_key item))"
  shows "read_file_at_item P C cm ss offset leaf item (acc, rest) =
    obind (tb_leaf_item_data leaf item) (\<lambda>data.
    obind (extent_logical_length data) (\<lambda>len.
    let ee = extent_end_at item len; g = es - rs; n = min (ee - max rs es) (length rest - g) in
    if ee \<le> rs then Ok (Next (acc, rest))
    else if length rest \<le> g then Ok (Leave (acc @ replicate (length rest) 0, []))
    else
    obind (copy_extent_slice P C cm ss data (word_of_nat (rs - es)) (take n (drop g rest))) (\<lambda>bytes.
    Ok (Next (acc @ replicate g 0 @ bytes, drop (g + n) rest)))))"
proof -
  have small: "unat offset + length acc \<le> unat fsz" using fits by linarith
  have add: "plain_add offset (word_of_nat k) = Ok (offset + word_of_nat k)"
      "unat (offset + word_of_nat k) = unat offset + k" if "unat offset + k \<le> unat fsz" for k
  proof -
    have "unat offset + k < 2 ^ 64" using order.strict_trans1 [OF that unat_u64_less [of fsz]] by simp
    moreover have "unat (word_of_nat k :: u64) = k" using that by (intro unat_of_nat_le [of _ fsz]) simp
    ultimately show "plain_add offset (word_of_nat k) = Ok (offset + word_of_nat k)"
      "unat (offset + word_of_nat k) = unat offset + k"
      by (simp_all add: plain_add_def unat_plus_no_wrap)
  qed
  let ?es = "key_offset (li_key item)" and ?rs = "offset + word_of_nat (length acc)"
  have urs: "unat ?rs = rs" using add [OF small] rs by simp
  have step: "(let extent_end = saturating_add ?es len in
     obind (plain_add offset (word_of_nat (length acc))) (\<lambda>request_start.
     if extent_end \<le> request_start then Ok (Next (acc, rest))
     else
     obind (if ?es > request_start then
              obind (plain_sub ?es request_start) (\<lambda>gap.
              let n = min (as_usize gap) (length rest) in
              Ok (acc @ replicate n 0, drop n rest))
            else Ok (acc, rest)) (\<lambda>(acc, rest).
     if ?es > request_start \<and> rest = [] then Ok (Leave (acc, rest))
     else
     obind (plain_add offset (word_of_nat (length acc))) (\<lambda>request_start.
     obind (plain_sub request_start ?es) (\<lambda>in_extent_offset.
     obind (plain_sub extent_end request_start) (\<lambda>extent_remaining.
     let want_here = min (as_usize extent_remaining) (length rest) in
     obind (copy_extent_slice P C cm ss data in_extent_offset (take want_here rest)) (\<lambda>bytes.
     Ok (Next (acc @ bytes, drop want_here rest))))))))) =
    (let ee = extent_end_at item len; g = es - rs; n = min (ee - max rs es) (length rest - g) in
    if ee \<le> rs then Ok (Next (acc, rest))
    else if length rest \<le> g then Ok (Leave (acc @ replicate (length rest) 0, []))
    else
    obind (copy_extent_slice P C cm ss data (word_of_nat (rs - es)) (take n (drop g rest))) (\<lambda>bytes.
    Ok (Next (acc @ replicate g 0 @ bytes, drop (g + n) rest))))" (is "?lhs = ?rhs") for data len
  proof -
    let ?ee = "saturating_add ?es len"
    have uee: "unat ?ee = extent_end_at item len" by (simp add: unat_saturating_add extent_end_at_def)
    show ?thesis
    proof (cases "extent_end_at item len \<le> rs")
      case True
      then show ?thesis using add(1) [OF small] uee urs by (simp add: word_le_nat_alt)
    next
      case late: False
      show ?thesis
      proof (cases "rs < es")
        case False
        then have le: "?es \<le> ?rs" "\<not> ?rs < ?es" and g: "es - rs = 0" "max rs es = rs"
          using urs es by (simp_all add: word_le_nat_alt word_less_nat_alt)
        define k where "k = (word_of_nat (rs - es) :: u64)"
        have "?rs - ?es = k"
        proof (rule word_unat_eq_iff [THEN iffD2])
          have "unat k = rs - es"
            unfolding k_def using urs by (intro unat_of_nat_le [of _ ?rs]) simp
          with le urs es show "unat (?rs - ?es) = unat k" by (simp add: unat_minus_le)
        qed
        then have sub: "plain_sub ?rs ?es = Ok k" using le by (simp add: plain_sub_def)
        have ee: "\<not> ?ee \<le> ?rs" "plain_sub ?ee ?rs = Ok (?ee - ?rs)"
          "unat (?ee - ?rs) = extent_end_at item len - rs"
          using late uee urs by (simp_all add: word_le_nat_alt unat_minus_le plain_sub_def)
        show ?thesis
          unfolding k_def [symmetric] g using late le sub ee add(1) [OF small] ne
          by (simp add: Let_def)
      next
        case True
        have "unat ?es \<le> 18446744073709551615" using unat_u64_less [of ?es] by linarith
        then have ee: "es \<le> extent_end_at item len" using es by (simp add: extent_end_at_def)
        have gap: "plain_sub ?es ?rs = Ok (?es - ?rs)" "unat (?es - ?rs) = es - rs" "?rs < ?es"
          using True urs es by (simp_all add: plain_sub_def word_le_nat_alt word_less_nat_alt unat_minus_le)
        show ?thesis
        proof (cases "length rest \<le> es - rs")
          case True
          with late gap add(1) [OF small] uee urs show ?thesis by (simp add: word_le_nat_alt min_def)
        next
          case fill: False
          have acc: "unat offset + length (acc @ replicate (es - rs) 0) \<le> unat fsz"
            using fits fill by simp
          have eq: "offset + word_of_nat (length (acc @ replicate (es - rs) 0)) = ?es"
            using add(2) [OF acc] True rs es by (intro word_unat_eq_iff [THEN iffD2]) simp
          note at = add(1) [OF acc, unfolded eq]
          have "?es \<le> ?ee" "unat (?ee - ?es) = extent_end_at item len - es"
            using ee uee es by (simp_all add: word_le_nat_alt unat_minus_le)
          with late gap at add(1) [OF small] uee urs fill True show ?thesis
            by (simp add: word_le_nat_alt plain_sub_def min_def max_def Let_def add.commute)
        qed
      qed
    qed
  qed
  show ?thesis
    unfolding read_file_at_item_def Let_def [of "(acc, rest)"] prod.case Let_def [of ?es] step ..
qed
definition window_fits :: "u64 \<Rightarrow> u64 \<Rightarrow> window \<Rightarrow> bool" where
  "window_fits offset fsz w \<longleftrightarrow> unat offset + length (fst w) + length (snd w) \<le> unat fsz"

lemma read_file_at_item_safe:
  assumes "codecs_ok C" and "0 < ss"
    and no: "\<And>data k. tb_leaf_item_data leaf item = Ok data \<Longrightarrow> k < fsz \<Longrightarrow> \<not> slice_overflows data k"
  shows "item_safe (read_file_at_item P C cm ss offset) (\<lambda>(acc, rest). rest = []) (window_fits offset fsz) leaf item"
  unfolding item_safe_def
proof (intro allI impI)
  fix w assume nf: "\<not> (case w of (acc, rest) \<Rightarrow> rest = [])" and "window_fits offset fsz w"
  obtain acc rest where w: "w = (acc, rest)" by (cases w)
  have ne: "rest \<noteq> []" and fits: "unat offset + length acc + length rest \<le> unat fsz"
    using nf \<open>window_fits offset fsz w\<close> by (simp_all add: w window_fits_def)
  define rs es where "rs = unat offset + length acc" and "es = unat (key_offset (li_key item))"
  note eq = read_file_at_item_eq [OF fits ne rs_def es_def, of P C cm ss leaf]
  have rsf: "rs < unat fsz" using fits ne rs_def by (cases rest) simp_all
  have copy: "copy_extent_slice P C cm ss data (word_of_nat (rs - es)) dst \<noteq> Panic"
    if "tb_leaf_item_data leaf item = Ok data" for data dst
  proof
    assume "copy_extent_slice P C cm ss data (word_of_nat (rs - es)) dst = Panic"
    from copy_extent_slice_panic [OF assms(1,2) this] have "slice_overflows data (word_of_nat (rs - es))" .
    moreover have "(word_of_nat (rs - es) :: u64) < fsz"
      using rsf unat_of_nat_le [of "rs - es" fsz] by (simp add: word_less_nat_alt)
    ultimately show False using no [OF that] by blast
  qed
  have safe: "read_file_at_item P C cm ss offset leaf item w \<noteq> Panic"
    unfolding w eq using copy
    by (auto simp: outcome_simps Let_def tb_leaf_item_data_safe extent_logical_length_safe split: if_splits)
  have "window_fits offset fsz w' \<and> es < unat fsz"
    if nx: "read_file_at_item P C cm ss offset leaf item w = Ok (Next w')" for w'
  proof -
    from nx [unfolded w eq] obtain data len where data: "tb_leaf_item_data leaf item = Ok data"
      "extent_logical_length data = Ok len" by (auto simp: outcome_simps)
    let ?g = "es - rs" and ?n = "min (extent_end_at item len - max rs es) (length rest - (es - rs))"
    have cases: "extent_end_at item len \<le> rs \<and> w' = (acc, rest) \<or>
        \<not> length rest \<le> es - rs \<and> (\<exists>n bytes. n \<le> length rest - (es - rs) \<and> length bytes = n \<and>
          w' = (acc @ replicate (es - rs) 0 @ bytes, drop (es - rs + n) rest))"
    proof (cases "extent_end_at item len \<le> rs \<or> length rest \<le> es - rs")
      case True
      with nx [unfolded w eq] data show ?thesis by (simp add: Let_def split: if_splits)
    next
      case False
      with nx [unfolded w eq] data obtain bytes where
        "copy_extent_slice P C cm ss data (word_of_nat (rs - es)) (take ?n (drop ?g rest)) = Ok bytes"
        "w' = (acc @ replicate ?g 0 @ bytes, drop (?g + ?n) rest)"
        by (auto simp: outcome_simps Let_def)
      moreover from this(1) have "length bytes = ?n" by (auto dest: copy_extent_slice_length)
      ultimately show ?thesis using False by (intro disjI2 conjI exI [of _ ?n] exI [of _ bytes]) simp_all
    qed
    have "es \<le> extent_end_at item len"
    proof -
      have "es \<le> 18446744073709551615" using unat_u64_less [of "key_offset (li_key item)"] es_def by linarith
      then show ?thesis by (simp add: extent_end_at_def es_def)
    qed
    with cases fits rsf show ?thesis
      by (elim disjE) (auto simp: window_fits_def rs_def)
  qed
  moreover have "key_offset (li_key item) \<noteq> - 1" if "es < unat fsz"
    using that word_le_nat_alt [of fsz "- 1"] by (auto simp: es_def)
  ultimately show "read_file_at_item P C cm ss offset leaf item w \<noteq> Panic \<and>
      (\<forall>st'. read_file_at_item P C cm ss offset leaf item w = Ok (Next st') \<longrightarrow>
        window_fits offset fsz st' \<and> key_offset (li_key item) \<noteq> - 1)"
    using safe by blast
qed

lemma read_file_at_window:
  fixes fsz offset :: u64
  assumes "offset < fsz" and "length buf < 2 ^ 64"
  defines "want \<equiv> min (length buf) (unat fsz - unat offset)"
  shows "unat (min (word_of_nat (length buf)) (fsz - offset)) = want"
    and "Prelude.slice buf 0 want = Ok (take want buf)"
    and "window_fits offset fsz ([], take want buf)"
proof -
  have "unat (word_of_nat (length buf) :: u64) = length buf" using assms(2) by (intro unat_word_of_nat_small) simp
  moreover have "unat (fsz - offset) = unat fsz - unat offset" using assms(1) by (intro unat_minus_le) simp
  ultimately show "unat (min (word_of_nat (length buf)) (fsz - offset)) = want"
    by (simp add: want_def min_def word_le_nat_alt)
  show "Prelude.slice buf 0 want = Ok (take want buf)" by (simp add: slice_def want_def)
  show "window_fits offset fsz ([], take want buf)"
    using assms(1) by (simp add: window_fits_def want_def word_less_nat_alt)
qed

lemma read_file_at_eq:
  assumes "length buf < 2 ^ 64"
  shows "read_file_at P C cm g root oid offset buf =
    (if buf = [] then Ok (0, buf)
     else
     obind (read_metadata P cm (gm_nodesize g) root oid) (\<lambda>md.
     if \<not> is_file md then Err NotARegularFile
     else if md_size md \<le> offset then Ok (0, buf)
     else
     let want = min (length buf) (unat (md_size md) - unat offset) in
     obind (extent_scan P cm (gm_nodesize g) root (read_file_at_item P C cm (gm_sectorsize g) offset)
              (\<lambda>(acc, rest). rest = []) oid ([], take want buf)) (\<lambda>(acc, rest).
     Ok (length acc + length rest, acc @ replicate (length rest) 0 @ drop want buf))))"
  using read_file_at_window(1,2) [OF _ assms, of offset]
  by (auto simp: read_file_at_def Let_def not_le intro!: obind_cong)

text \<open>An extent item of the inode, in a leaf that a lookup reaches, whose offset sum overflows.\<close>

definition overflowing_extent :: "platform \<Rightarrow> chunk_map \<Rightarrow> u32 \<Rightarrow> u64 \<Rightarrow> u64 \<Rightarrow> bool" where
  "overflowing_extent P cm ns root oid \<longleftrightarrow>
     (\<exists>t leaf i j item data k. find_first_ge P cm ns root t = Ok (Some (leaf, i)) \<and>
        tb_leaf_item leaf j = Ok item \<and> key_objectid (li_key item) = oid \<and>
        key_item_type (li_key item) = EXTENT_DATA_KEY \<and> tb_leaf_item_data leaf item = Ok data \<and>
        slice_overflows data k)"

lemma read_file_at_safe:
  assumes "codecs_ok C" and "0 < gm_sectorsize g" and "length buf < 2 ^ 64"
    and no: "\<not> overflowing_extent P cm (gm_nodesize g) root oid"
  shows "read_file_at P C cm g root oid offset buf \<noteq> Panic"
proof -
  have "extent_scan P cm (gm_nodesize g) root (read_file_at_item P C cm (gm_sectorsize g) offset)
      (\<lambda>(acc, rest). rest = []) oid w \<noteq> Panic" if "window_fits offset fsz w" for w fsz
    unfolding extent_scan_def
  proof (rule extent_scan_loop_safe [where keep = "window_fits offset fsz"])
    fix t leaf i j item
    assume "find_first_ge P cm (gm_nodesize g) root t = Ok (Some (leaf, i))" "tb_leaf_item leaf j = Ok item"
      "key_objectid (li_key item) = oid" "key_item_type (li_key item) = EXTENT_DATA_KEY"
    with no show "item_safe (read_file_at_item P C cm (gm_sectorsize g) offset)
        (\<lambda>(acc, rest). rest = []) (window_fits offset fsz) leaf item"
      unfolding overflowing_extent_def by (intro read_file_at_item_safe [OF assms(1,2)]) blast
  qed (rule that)
  with read_file_at_window(3) [OF _ assms(3), of offset] show ?thesis
    by (auto simp: read_file_at_eq [OF assms(3)] Let_def outcome_simps read_metadata_safe not_le
        split: if_splits)
qed

end
