(* ===== verification/File_Content.thy ===== *)
theory File_Content
  imports File
begin

text \<open>
  What a file contains, and that both ways of reading it agree with it. The contents of one extent are
  what \<^verbatim>\<open>copy_extent_slice\<close> gives for the whole of it; the contents of the file are those of its extents at
  their offsets, with zeros in the holes. For a volume image and extents that do not overlap,
  \<^verbatim>\<open>read_file\<close> returns exactly those bytes and \<^verbatim>\<open>read_file_at\<close> any window of them.
\<close>

section \<open>The contents of an extent\<close>

definition extent_content ::
  "platform \<Rightarrow> codecs \<Rightarrow> chunk_map \<Rightarrow> u32 \<Rightarrow> u8 list \<Rightarrow> u8 list outcome" where
  "extent_content P C cm ss data =
     obind (extent_logical_length data) (\<lambda>n. copy_extent_slice P C cm ss data 0 (replicate (unat n) 0))"

lemma extent_content_length:
  "extent_content P C cm ss data = Ok bs \<Longrightarrow> extent_logical_length data = Ok len \<Longrightarrow> length bs = unat len"
  by (auto simp: extent_content_def dest: copy_extent_slice_length)

lemma extent_content_logical: "extent_content P C cm ss data = Ok bs \<Longrightarrow> \<exists>len. extent_logical_length data = Ok len"
  by (auto simp: extent_content_def outcome_simps)

lemma le_usize_max:
  assumes "n \<le> unat (x :: u64)"
  shows "n \<le> usize_max"
proof -
  have "n \<le> 18446744073709551615" using assms unat_u64_less [of x] by linarith
  then show ?thesis by (simp add: usize_max_def)
qed

text \<open>A range that can be read does not reach the top of the address space.\<close>

lemma logical_bytes_in_space:
  "logical_bytes img cm a n = Some bs \<Longrightarrow> 0 < n \<Longrightarrow> unat a + n < 2 ^ 64"
proof (induction n arbitrary: a bs)
  case (Suc n)
  from Suc.prems obtain b r where b: "logical_byte img cm a = Some b" and r: "chunk_map_resolve cm a = Ok r"
    by (auto simp: logical_byte_def split: option.splits outcome.splits)
  from chunks.resolve_in_space [OF r] chunks.resolve_progress [OF r] have top: "unat a + 1 < 2 ^ 64" by linarith
  then have next_a: "unat (a + 1) = unat a + 1" by (simp add: unat_plus_no_wrap)
  show ?case
  proof (cases n)
    case 0
    with top show ?thesis by simp
  next
    case (Suc m)
    from Suc.prems b obtain bs' where "logical_bytes img cm (a + 1) n = Some bs'" by auto
    from Suc.IH [OF this] Suc next_a show ?thesis by simp
  qed
qed simp

lemma read_through_chunks_logical:
  assumes "chunk_map_wf cm" and "reads_volume P img"
  shows "read_through_chunks P cm l buf = Ok bs \<longleftrightarrow> logical_bytes img cm l (length buf) = Some bs"
proof -
  have "ok_value (read_through_chunks P cm l buf) = logical_bytes img cm l (length buf)"
    unfolding read_through_chunks_def read_chunks_from_bytes [OF assms]
    by (cases "logical_bytes img cm l (length buf)") simp_all
  then show ?thesis by (metis ok_value_Some_iff)
qed

lemma logical_bytes_sub:
  assumes "logical_bytes img cm a n = Some bs" and "k + m \<le> n"
  shows "logical_bytes img cm (a + word_of_nat k) m = Some (take m (drop k bs))"
  using assms by (auto simp: logical_bytes_iff add.assoc simp flip: of_nat_add)

text \<open>Any slice of an extent reads as the slice of its contents.\<close>

lemma copy_extent_slice_content:
  assumes wf: "chunk_map_wf cm" and vol: "reads_volume P img"
    and content: "extent_content P C cm ss data = Ok bs" and k: "k + length dst \<le> length bs"
  shows "copy_extent_slice P C cm ss data (word_of_nat k) dst = Ok (take (length dst) (drop k bs))"
proof -
  from content obtain n where n: "extent_logical_length data = Ok n"
    and whole: "copy_extent_slice P C cm ss data 0 (replicate (unat n) 0) = Ok bs"
    by (auto simp: extent_content_def outcome_simps)
  have len: "length bs = unat n" using copy_extent_slice_length [OF whole] by simp
  have uk: "unat (word_of_nat k :: u64) = k" using k len by (intro unat_of_nat_le [of _ n]) simp
  let ?h = "extent_data_header_of data 0" and ?r = "extent_data_regular_of data 21"
  from n have h: "extent_header data 0 = Ok ?h" "21 \<le> length data"
    by (auto simp: extent_logical_length_def outcome_simps extent_header_eq split: if_splits)
  consider (inline) "eh_ty ?h = FILE_EXTENT_INLINE"
    | (regular) "eh_ty ?h \<noteq> FILE_EXTENT_INLINE" "eh_ty ?h = FILE_EXTENT_REG \<or> eh_ty ?h = FILE_EXTENT_PREALLOC"
      "53 \<le> length data"
    using n h by (auto simp: extent_logical_length_def outcome_simps extent_data_regular_parse_eq layout
        split: if_splits)
  then show ?thesis
  proof cases
    case inline
    from whole inline h obtain src where
      src: "(if eh_compression ?h = COMPRESS_NONE then Ok (drop 21 data)
             else decode C (eh_compression ?h) (drop 21 data) [] ss) = Ok src"
      "unat n \<le> length src" "bs = take (unat n) src"
      by (auto simp: copy_extent_slice_def outcome_simps Let_def layout slice_def usize_checked_add_def
          copy_from_slice_def split: if_splits)
    have "k + length dst \<le> usize_max"
      using k len by (intro le_usize_max [of _ n]) simp
    moreover have "k + length dst \<le> length src" using k len src by simp
    ultimately show ?thesis
      using inline h src k len
      by (simp add: copy_extent_slice_def Let_def layout slice_def usize_checked_add_def copy_from_slice_def
          uk drop_take min_absorb1)
  next
    case regular
    then have rp: "extent_data_regular_parse data 21 = Ok (Some ?r)" by (simp add: extent_data_regular_parse_eq)
    consider (zero) "er_disk_bytenr ?r = 0 \<or> eh_ty ?h = FILE_EXTENT_PREALLOC"
      | (plain) "er_disk_bytenr ?r \<noteq> 0" "eh_ty ?h \<noteq> FILE_EXTENT_PREALLOC" "eh_compression ?h = COMPRESS_NONE"
      | (packed) "er_disk_bytenr ?r \<noteq> 0" "eh_ty ?h \<noteq> FILE_EXTENT_PREALLOC" "eh_compression ?h \<noteq> COMPRESS_NONE"
      by blast
    then show ?thesis
    proof cases
      case zero
      with whole regular h rp have "bs = replicate (unat n) 0" by (auto simp: copy_extent_slice_def layout)
      with zero regular h rp k len show ?thesis by (simp add: copy_extent_slice_def layout)
    next
      case plain
      with whole regular h rp obtain v where v: "checked_add (er_disk_bytenr ?r) (er_offset ?r) = Some v"
        and "read_through_chunks P cm v (replicate (unat n) 0) = Ok bs"
        by (auto simp: copy_extent_slice_def layout outcome_simps checked_add_def split: bind_splits)
      then have bytes: "logical_bytes img cm v (unat n) = Some bs"
        by (simp add: read_through_chunks_logical [OF wf vol])
      have "unat v + k < 2 ^ 64"
        using logical_bytes_in_space [OF bytes] k len unat_u64_less [of v] by (cases "unat n") simp_all
      then have "checked_add v (word_of_nat k) = Some (v + word_of_nat k)" by (simp add: checked_add_def uk)
      moreover have "read_through_chunks P cm (v + word_of_nat k) dst = Ok (take (length dst) (drop k bs))"
        using logical_bytes_sub [OF bytes, of k "length dst"] k len
        by (simp add: read_through_chunks_logical [OF wf vol])
      ultimately show ?thesis using plain regular h rp v by (simp add: copy_extent_slice_def layout)
    next
      case packed
      let ?off = "unat (er_offset ?r)"
      from packed whole regular h rp obtain decoded where
        dec: "read_compressed P C cm ss ?h ?r = Ok decoded" "?off + unat n \<le> length decoded"
        "?off + unat n \<le> usize_max" "bs = take (unat n) (drop ?off decoded)"
        by (auto simp: copy_extent_slice_def layout outcome_simps Let_def slice_def usize_checked_add_def
            copy_from_slice_def plain_add_def split: if_splits)
      have sum: "?off + k < 2 ^ 64" using dec(3) k len by (simp add: usize_max_def)
      then have "plain_add (er_offset ?r) (word_of_nat k) = Ok (er_offset ?r + word_of_nat k)"
        "unat (er_offset ?r + word_of_nat k) = ?off + k"
        by (simp_all add: plain_add_def uk unat_plus_no_wrap)
      moreover have "?off + k + length dst \<le> length decoded" "?off + k + length dst \<le> usize_max"
        using dec k len by simp_all
      ultimately show ?thesis
        using packed regular h rp dec k len
        by (simp add: copy_extent_slice_def layout Let_def slice_def usize_checked_add_def copy_from_slice_def
            drop_take min_absorb1 add.commute add.left_commute)
    qed
  qed
qed
text \<open>
  Appending an extent to the output appends its contents, at least as many of them as the file still
  has room for.
\<close>

lemma apply_extent_content:
  assumes wf: "chunk_map_wf cm" and vol: "reads_volume P img"
    and content: "extent_content P C cm ss data = Ok bs"
    and out: "length out \<le> unat fsz" and fsz: "unat fsz \<le> isize_max"
  obtains m where "apply_extent P C cm ss out data fsz = Ok (out @ take m bs)"
    "unat fsz \<le> length out + m"
proof -
  note result = that
  from content obtain n where n: "extent_logical_length data = Ok n"
    and whole: "copy_extent_slice P C cm ss data 0 (replicate (unat n) 0) = Ok bs"
    by (auto simp: extent_content_def outcome_simps)
  have len: "length bs = unat n" using copy_extent_slice_length [OF whole] by simp
  let ?h = "extent_data_header_of data 0" and ?r = "extent_data_regular_of data 21"
  from n have h: "extent_header data 0 = Ok ?h" "21 \<le> length data"
    by (auto simp: extent_logical_length_def outcome_simps extent_header_eq split: if_splits)
  let ?rem = "saturating_sub fsz (word_of_nat (length out))"
  have rem: "unat ?rem = unat fsz - length out"
    by (simp add: unat_saturating_sub unat_of_nat_le [OF out])
  consider (inline) "eh_ty ?h = FILE_EXTENT_INLINE" "n = eh_ram_bytes ?h"
    | (regular) "eh_ty ?h \<noteq> FILE_EXTENT_INLINE" "eh_ty ?h = FILE_EXTENT_REG \<or> eh_ty ?h = FILE_EXTENT_PREALLOC"
      "53 \<le> length data" "n = er_num_bytes ?r"
    using n h by (auto simp: extent_logical_length_def outcome_simps extent_data_regular_parse_eq layout
        split: if_splits)
  then show thesis
  proof cases
    case inline
    from whole inline h obtain src where
      src: "(if eh_compression ?h = COMPRESS_NONE then Ok (drop 21 data)
             else decode C (eh_compression ?h) (drop 21 data) [] ss) = Ok src"
      "unat n \<le> length src" "bs = take (unat n) src"
      by (auto simp: copy_extent_slice_def outcome_simps Let_def layout slice_def usize_checked_add_def
          copy_from_slice_def split: if_splits)
    then have "apply_extent P C cm ss out data fsz = Ok (out @ take (unat fsz) bs) \<or>
        apply_extent P C cm ss out data fsz = Ok (out @ bs)"
      using inline h by (auto simp: apply_extent_def Let_def layout slice_def min_absorb1 split: if_splits)
    then show thesis
      using result [of "unat fsz + unat n"] result [of "unat fsz"] len by auto
  next
    case regular
    then have rp: "extent_data_regular_parse data 21 = Ok (Some ?r)" by (simp add: extent_data_regular_parse_eq)
    define emit where "emit = min n ?rem"
    have emit_er: "min (er_num_bytes ?r) ?rem = emit" by (simp add: emit_def regular(4))
    have emit: "unat emit = min (unat n) (unat fsz - length out)"
      by (simp add: emit_def min_def word_le_nat_alt rem)
    have fits: "\<not> isize_max < length out + unat emit" using emit out fsz by simp
    have finish: "thesis" if "apply_extent P C cm ss out data fsz = Ok (out @ take (unat emit) bs)"
    proof (rule result [of "unat fsz - length out"])
      have "take (unat emit) bs = take (unat fsz - length out) bs" using emit len by (simp add: min_def)
      with that show "apply_extent P C cm ss out data fsz = Ok (out @ take (unat fsz - length out) bs)" by simp
    qed simp
    show thesis
    proof (cases "emit = 0")
      case True
      then show thesis
        using regular h rp by (intro finish) (simp add: apply_extent_def layout Let_def emit_er)
    next
      case pos: False
      consider (zero) "er_disk_bytenr ?r = 0 \<or> eh_ty ?h = FILE_EXTENT_PREALLOC"
        | (plain) "er_disk_bytenr ?r \<noteq> 0" "eh_ty ?h \<noteq> FILE_EXTENT_PREALLOC" "eh_compression ?h = COMPRESS_NONE"
        | (packed) "er_disk_bytenr ?r \<noteq> 0" "eh_ty ?h \<noteq> FILE_EXTENT_PREALLOC" "eh_compression ?h \<noteq> COMPRESS_NONE"
        by blast
      then show thesis
      proof cases
        case zero
        with whole regular h rp have "bs = replicate (unat n) 0" by (auto simp: copy_extent_slice_def layout)
        then have "take (unat emit) bs = replicate (unat emit) 0" by (simp add: emit)
        with zero regular h rp pos fits show thesis
          by (intro finish) (simp add: apply_extent_def layout Let_def vec_resize_def emit_er)
      next
        case plain
        with whole regular h rp obtain v where v: "checked_add (er_disk_bytenr ?r) (er_offset ?r) = Some v"
          and "read_through_chunks P cm v (replicate (unat n) 0) = Ok bs"
          by (auto simp: copy_extent_slice_def layout outcome_simps checked_add_def split: bind_splits)
        then have "logical_bytes img cm v (unat n) = Some bs"
          by (simp add: read_through_chunks_logical [OF wf vol])
        from logical_bytes_sub [OF this, of 0 "unat emit"] emit
        have "read_through_chunks P cm v (replicate (unat emit) 0) = Ok (take (unat emit) bs)"
          by (simp add: read_through_chunks_logical [OF wf vol])
        with plain regular h rp v pos fits show thesis
          by (intro finish) (simp add: apply_extent_def layout Let_def vec_resize_def slice_def emit_er)
      next
        case packed
        let ?off = "unat (er_offset ?r)"
        from packed whole regular h rp obtain decoded where
          dec: "read_compressed P C cm ss ?h ?r = Ok decoded" "?off + unat n \<le> length decoded"
          "?off + unat n \<le> usize_max" "bs = take (unat n) (drop ?off decoded)"
          by (auto simp: copy_extent_slice_def layout outcome_simps Let_def slice_def usize_checked_add_def
              copy_from_slice_def plain_add_def split: if_splits)
        have "unat emit \<le> unat n" by (simp add: emit)
        with dec have "?off + unat emit \<le> length decoded" "?off + unat emit \<le> usize_max"
          "take (unat emit) bs = take (unat emit) (drop ?off decoded)"
          by simp_all
        with packed regular h rp pos dec(1) show thesis
          by (intro finish) (simp add: apply_extent_def layout Let_def slice_def usize_checked_add_def
              emit_er)
      qed
    qed
  qed
qed
section \<open>The contents of a file\<close>

text \<open>
  The extents of a file as pairs of a start offset and the contents; \<open>byte_at\<close> is the byte at a position,
  zero in a hole. They are laid out when each starts at or after the end of the one before, and within
  the file when none that a sequential read gets to starts after the end of the file.
\<close>

type_synonym extent = "nat \<times> u8 list"

fun byte_at :: "extent list \<Rightarrow> nat \<Rightarrow> u8" where
  "byte_at [] i = 0"
| "byte_at ((s, bs) # es) i = (if s \<le> i \<and> i < s + length bs then bs ! (i - s) else byte_at es i)"

definition file_bytes :: "extent list \<Rightarrow> nat \<Rightarrow> nat \<Rightarrow> u8 list" where
  "file_bytes es a b = map (byte_at es) [a..<b]"

fun laid_out :: "nat \<Rightarrow> extent list \<Rightarrow> bool" where
  "laid_out pos [] = True"
| "laid_out pos ((s, bs) # es) = (pos \<le> s \<and> laid_out (s + length bs) es)"

fun within_file :: "nat \<Rightarrow> nat \<Rightarrow> extent list \<Rightarrow> bool" where
  "within_file fsz pos [] = True"
| "within_file fsz pos ((s, bs) # es) =
     ((fsz \<le> pos \<or> s \<le> fsz) \<and> within_file fsz (s + length bs) es)"

lemma byte_at_before: "laid_out pos es \<Longrightarrow> i < pos \<Longrightarrow> byte_at es i = 0"
  by (induction pos es rule: laid_out.induct) auto

lemma length_file_bytes [simp]: "length (file_bytes es a b) = b - a"
  by (simp add: file_bytes_def)

lemma file_bytes_split: "a \<le> b \<Longrightarrow> b \<le> c \<Longrightarrow> file_bytes es a c = file_bytes es a b @ file_bytes es b c"
  using upt_add_eq_append [of a b "c - b"] by (simp add: file_bytes_def)

lemma file_bytes_zero:
  "(\<And>i. a \<le> i \<Longrightarrow> i < b \<Longrightarrow> byte_at es i = 0) \<Longrightarrow> file_bytes es a b = replicate (b - a) 0"
  by (intro nth_equalityI) (simp_all add: file_bytes_def)

lemma file_bytes_past:
  "s + length bs \<le> a \<Longrightarrow> file_bytes ((s, bs) # es) a b = file_bytes es a b"
  by (auto simp: file_bytes_def)

lemma file_bytes_inside:
  "s \<le> a \<Longrightarrow> b \<le> s + length bs \<Longrightarrow> file_bytes ((s, bs) # es) a b = take (b - a) (drop (a - s) bs)"
  by (intro nth_equalityI) (auto simp: file_bytes_def)

lemma file_bytes_hole:
  "laid_out pos ((s, bs) # es) \<Longrightarrow> b \<le> s \<Longrightarrow> file_bytes ((s, bs) # es) a b = replicate (b - a) 0"
  by (intro file_bytes_zero) (auto simp: byte_at_before)

lemma file_bytes_sub:
  "a \<le> b \<Longrightarrow> b \<le> c \<Longrightarrow> file_bytes es a b = take (b - a) (drop a (file_bytes es 0 c))"
  by (intro nth_equalityI) (auto simp: file_bytes_def)

text \<open>The slots of an inode's extent items hold these extents.\<close>

definition holds_extent ::
  "platform \<Rightarrow> codecs \<Rightarrow> chunk_map \<Rightarrow> u32 \<Rightarrow> slot \<Rightarrow> extent \<Rightarrow> bool" where
  "holds_extent P C cm ss s e \<longleftrightarrow>
     unat (key_offset (slot_key s)) = fst e \<and> obind (slot_data s) (extent_content P C cm ss) = Ok (snd e)"

lemma holds_extentE:
  assumes "holds_extent P C cm ss s (st, bs)" and "tb_leaf_item (fst s) (snd s) = Ok it" and "li_key it = slot_key s"
  obtains data where "tb_leaf_item_data (fst s) it = Ok data" "extent_content P C cm ss data = Ok bs"
    "unat (key_offset (li_key it)) = st"
  using assms by (auto simp: holds_extent_def slot_data_def outcome_simps)

definition file_extents ::
  "platform \<Rightarrow> codecs \<Rightarrow> chunk_map \<Rightarrow> geometry \<Rightarrow> u64 \<Rightarrow> u64 \<Rightarrow> extent list \<Rightarrow> bool" where
  "file_extents P C cm g root oid es \<longleftrightarrow>
     list_all2 (holds_extent P C cm (gm_sectorsize g))
       (filter (of_object oid EXTENT_DATA_KEY) (tree_slots P cm (gm_nodesize g) root)) es"
section \<open>Whole-file reads\<close>

lemma read_file_item_content:
  assumes wf: "chunk_map_wf cm" and vol: "reads_volume P img"
    and fsz: "unat fsz \<le> isize_max" and alloc: "\<forall>n \<le> unat fsz. pf_alloc P n"
    and data: "tb_leaf_item_data leaf it = Ok data" and content: "extent_content P C cm ss data = Ok bs"
    and st: "unat (key_offset (li_key it)) = s" and s: "length out \<le> s" "s \<le> unat fsz"
  obtains m where "read_file_item P C cm ss fsz leaf it out =
      Ok (Next (out @ replicate (s - length out) 0 @ take m bs))" "unat fsz \<le> s + m"
proof -
  let ?off = "key_offset (li_key it)" and ?out = "out @ replicate (s - length out) 0"
  have len: "unat (word_of_nat (length out) :: u64) = length out" using s by (intro unat_of_nat_le [of _ fsz]) simp
  have gap: "plain_sub ?off (word_of_nat (length out)) = Ok (?off - word_of_nat (length out))"
    "unat (?off - word_of_nat (length out)) = s - length out"
    using s st len by (simp_all add: plain_sub_def word_le_nat_alt unat_minus_le)
  have "length ?out \<le> unat fsz" using s by simp
  from apply_extent_content [OF wf vol content this fsz] obtain m where
    m: "apply_extent P C cm ss ?out data fsz = Ok (?out @ take m bs)" "unat fsz \<le> length ?out + m" .
  have "try_reserve (pf_alloc P) (length out) (s - length out)"
    using s fsz alloc by (simp add: try_reserve_def)
  then have "read_file_item P C cm ss fsz leaf it out = Ok (Next (?out @ take m bs))"
    using s fsz st gap data m(1)
    by (cases "s = length out")
      (auto simp: read_file_item_def Let_def word_less_nat_alt vec_resize_def)
  with m(2) s that show thesis by simp
qed

lemma read_file_pass:
  assumes wf: "chunk_map_wf cm" and vol: "reads_volume P img"
    and fsz: "unat fsz \<le> isize_max" and alloc: "\<forall>n \<le> unat fsz. pf_alloc P n"
    and "list_all2 (holds_extent P C cm ss) slots es"
    and "\<forall>s \<in> set slots. \<exists>it. tb_leaf_item (fst s) (snd s) = Ok it \<and> li_key it = slot_key s"
    and "laid_out (length out) es" and "within_file (unat fsz) (length out) es"
  shows "\<exists>out'. pass_slots (read_file_item P C cm ss fsz) (\<lambda>out. unat fsz \<le> length out) slots out = Ok out' \<and>
    take (unat fsz) out' @ replicate (unat fsz - length out') 0 =
    take (unat fsz) out @ file_bytes es (length out) (unat fsz)"
  using assms(5-)
proof (induction slots es arbitrary: out rule: list_all2_induct)
  case Nil
  show ?case by (simp add: file_bytes_zero)
next
  case (Cons slot slots e es)
  let ?F = "unat fsz"
  obtain s bs where e: "e = (s, bs)" by (cases e)
  show ?case
  proof (cases "?F \<le> length out")
    case True
    then show ?thesis by (simp add: file_bytes_def)
  next
    case room: False
    from Cons.prems(2,3) room have s: "length out \<le> s" "s \<le> ?F" and
      rest: "laid_out (s + length bs) es" "within_file ?F (s + length bs) es" by (auto simp: e)
    from Cons.prems(1) obtain it where it: "tb_leaf_item (fst slot) (snd slot) = Ok it" "li_key it = slot_key slot"
      by auto
    from holds_extentE [OF Cons.hyps(1) [unfolded e] it] obtain data where
      data: "tb_leaf_item_data (fst slot) it = Ok data" "extent_content P C cm ss data = Ok bs"
        "unat (key_offset (li_key it)) = s" .
    from read_file_item_content [OF wf vol fsz alloc data s] obtain m where
      body: "read_file_item P C cm ss fsz (fst slot) it out =
        Ok (Next (out @ replicate (s - length out) 0 @ take m bs))" and m: "?F \<le> s + m" .
    have "key_offset (slot_key slot) \<noteq> - 1"
    proof
      assume "key_offset (slot_key slot) = - 1"
      with data(3) it(2) s fsz have "unat (- 1 :: u64) \<le> isize_max" by simp
      then show False by (simp add: unsigned_minus_1_eq_mask mask_eq_exp_minus_1 isize_max_def)
    qed
    then have step: "pass_slots (read_file_item P C cm ss fsz) (\<lambda>out. ?F \<le> length out) (slot # slots) out =
        pass_slots (read_file_item P C cm ss fsz) (\<lambda>out. ?F \<le> length out) slots
          (out @ replicate (s - length out) 0 @ take m bs)"
      using room it body by (simp add: plain_add_one)
    have hole: "file_bytes (e # es) (length out) s = replicate (s - length out) 0"
      using Cons.prems(2) unfolding e by (rule file_bytes_hole) simp
    show ?thesis
    proof (cases "s + length bs \<le> ?F")
      case True
      let ?out = "out @ replicate (s - length out) 0 @ bs"
      have "file_bytes (e # es) (length out) ?F =
          replicate (s - length out) 0 @ bs @ file_bytes es (s + length bs) ?F"
        using hole s True file_bytes_split [of "length out" s ?F "e # es"]
          file_bytes_split [of s "s + length bs" ?F "e # es"] by (simp add: e file_bytes_inside file_bytes_past)
      with Cons.IH [of ?out] Cons.prems(1) rest s True m room show ?thesis unfolding step by simp
    next
      case False
      then have "?F \<le> length (out @ replicate (s - length out) 0 @ take m bs)" using s m by simp
      moreover have "file_bytes (e # es) (length out) ?F = replicate (s - length out) 0 @ take (?F - s) bs"
        using hole s False file_bytes_split [of "length out" s ?F "e # es"] by (simp add: e file_bytes_inside)
      ultimately show ?thesis using s m room unfolding step by (simp add: pass_slots_full)
    qed
  qed
qed
section \<open>Reads at an offset\<close>

lemma below_fsz_not_max:
  fixes x fsz :: u64
  assumes "unat x < unat fsz"
  shows "x \<noteq> - 1"
  using assms word_le_nat_alt [of fsz "- 1"] by auto

lemma read_file_at_pass:
  fixes offset fsz :: u64
  assumes wf: "chunk_map_wf cm" and vol: "reads_volume P img"
    and "list_all2 (holds_extent P C cm ss) slots es"
    and "\<forall>s \<in> set slots. \<exists>it. tb_leaf_item (fst s) (snd s) = Ok it \<and> li_key it = slot_key s"
    and "laid_out pos es" and "unat offset + length acc + length rest \<le> unat fsz"
  shows "\<exists>acc' rest'. pass_slots (read_file_at_item P C cm ss offset) (\<lambda>(acc, rest). rest = []) slots (acc, rest)
      = Ok (acc', rest') \<and>
    acc' @ replicate (length rest') 0 =
    acc @ file_bytes es (unat offset + length acc) (unat offset + length acc + length rest)"
  using assms(3-)
proof (induction slots es arbitrary: pos acc rest rule: list_all2_induct)
  case Nil
  show ?case by (simp add: file_bytes_zero)
next
  case (Cons slot slots e es)
  obtain s bs where e: "e = (s, bs)" by (cases e)
  define rs where "rs = unat offset + length acc"
  let ?E = "rs + length rest"
  show ?case
  proof (cases "rest = []")
    case True
    then show ?thesis by (simp add: file_bytes_def)
  next
    case ne: False
    from Cons.prems(1) obtain it where it: "tb_leaf_item (fst slot) (snd slot) = Ok it" "li_key it = slot_key slot"
      by auto
    from holds_extentE [OF Cons.hyps(1) [unfolded e] it] obtain data where
      data: "tb_leaf_item_data (fst slot) it = Ok data" and content: "extent_content P C cm ss data = Ok bs"
      and s: "unat (key_offset (li_key it)) = s" .
    from extent_content_logical [OF content] obtain len where len: "extent_logical_length data = Ok len" by blast
    note bs = extent_content_length [OF content len]
    define ee where "ee = extent_end_at it len"
    define n where "n = min (ee - max rs s) (length rest - (s - rs))"
    have E: "?E \<le> unat fsz" using Cons.prems(3) by (simp add: rs_def)
    have ee: "ee = min (s + length bs) (2 ^ 64 - 1)" by (simp add: ee_def extent_end_at_def s bs)
    have top: "?E \<le> 2 ^ 64 - 1" using le_usize_max [OF E] by (simp add: usize_max_def)
    have "s \<le> 2 ^ 64 - 1" using le_usize_max [of s "key_offset (li_key it)"] s by (simp add: usize_max_def)
    then have se: "s \<le> ee" by (simp add: ee)
    have item: "read_file_at_item P C cm ss offset (fst slot) it (acc, rest) =
      (if ee \<le> rs then Ok (Next (acc, rest))
       else if length rest \<le> s - rs then Ok (Leave (acc @ replicate (length rest) 0, []))
       else obind (copy_extent_slice P C cm ss data (word_of_nat (rs - s)) (take n (drop (s - rs) rest)))
         (\<lambda>bytes. Ok (Next (acc @ replicate (s - rs) 0 @ bytes, drop (s - rs + n) rest))))"
      using read_file_at_item_eq [OF Cons.prems(3) ne rs_def s [symmetric], of P C cm ss "fst slot"] data len
      by (simp add: Let_def ee_def n_def)
    have pass: "pass_slots (read_file_at_item P C cm ss offset) (\<lambda>(acc, rest). rest = []) (slot # slots) (acc, rest) =
        pass_slots (read_file_at_item P C cm ss offset) (\<lambda>(acc, rest). rest = []) slots w"
      if "read_file_at_item P C cm ss offset (fst slot) it (acc, rest) = Ok (Next w)" "s < ?E" for w
    proof -
      have "key_offset (slot_key slot) \<noteq> - 1"
        using that(2) s it(2) E by (intro below_fsz_not_max [of _ fsz]) simp
      with that(1) it ne show ?thesis by (simp add: plain_add_one)
    qed
    consider (before) "ee \<le> rs" | (after) "rs < ee" "?E \<le> s" | (here) "rs < ee" "s < ?E" by linarith
    then show ?thesis
    proof cases
      case before
      have "rs < ?E" using ne by simp
      with before se top ee have past: "s + length bs \<le> rs" "s < ?E" by linarith+
      with before item pass Cons.IH [of "s + length bs" acc rest] Cons.prems show ?thesis
        by (simp add: e file_bytes_past rs_def)
    next
      case after
      then have "length rest \<le> s - rs" by linarith
      with after item it ne Cons.prems(2) show ?thesis
        by (simp add: e file_bytes_hole rs_def [symmetric] file_bytes_hole [of pos])
    next
      case here
      have n: "n \<le> length rest - (s - rs)" "rs - s + n \<le> length bs"
      proof -
        have "n \<le> ee - max rs s" "ee \<le> s + length bs" by (simp_all add: n_def ee)
        then show "rs - s + n \<le> length bs" using here by (cases "rs \<le> s") (simp_all add: max_def)
      qed (simp add: n_def)
      let ?bytes = "take n (drop (rs - s) bs)"
      let ?acc = "acc @ replicate (s - rs) 0 @ ?bytes" and ?rest = "drop (s - rs + n) rest"
      have "copy_extent_slice P C cm ss data (word_of_nat (rs - s)) (take n (drop (s - rs) rest)) = Ok ?bytes"
        using copy_extent_slice_content [OF wf vol content, of "rs - s" "take n (drop (s - rs) rest)"] n
        by simp
      moreover have "\<not> length rest \<le> s - rs" "\<not> ee \<le> rs" using here ne by (cases rest; simp)+
      ultimately have "read_file_at_item P C cm ss offset (fst slot) it (acc, rest) = Ok (Next (?acc, ?rest))"
        unfolding item by (simp del: of_nat_diff)
      note pass = pass [OF this here(2)]
      have len_acc: "length ?acc = length acc + (s - rs) + n" using n by simp
      have start: "unat offset + length ?acc = max rs s + n" using len_acc by (simp add: rs_def)
      have stop: "max rs s + n + length ?rest = ?E" using n here by (auto simp: max_def)
      have "laid_out (s + length bs) es" using Cons.prems(2) by (simp add: e)
      from Cons.IH [OF _ this, of ?acc ?rest, unfolded start stop] Cons.prems(1) E obtain acc' rest' where
        IH: "pass_slots (read_file_at_item P C cm ss offset) (\<lambda>(acc, rest). rest = []) slots (?acc, ?rest) =
          Ok (acc', rest')" "acc' @ replicate (length rest') 0 = ?acc @ file_bytes es (max rs s + n) ?E"
        by auto
      have "file_bytes (e # es) rs ?E = replicate (s - rs) 0 @ ?bytes @ file_bytes es (max rs s + n) ?E"
      proof -
        have "file_bytes (e # es) rs (max rs s) = replicate (s - rs) 0"
          using Cons.prems(2) by (cases "rs \<le> s") (simp_all add: e file_bytes_hole max_def file_bytes_def [of _ rs rs])
        moreover have "file_bytes (e # es) (max rs s) (max rs s + n) = ?bytes"
        proof -
          have "max rs s + n \<le> s + length bs" "max rs s - s = rs - s" using n(2) by linarith+
          then show ?thesis by (simp add: e file_bytes_inside)
        qed
        moreover have "file_bytes (e # es) (max rs s + n) ?E = file_bytes es (max rs s + n) ?E"
        proof (cases "max rs s + n = ?E")
          case False
          then have "n \<noteq> length rest - (s - rs)" using here by linarith
          then have "n = ee - max rs s" "n < length rest - (s - rs)"
            unfolding n_def by linarith+
          then have "max rs s + n = ee" "ee < ?E" using here se by linarith+
          then have "s + length bs \<le> max rs s + n" using ee top by linarith
          then show ?thesis by (simp add: e file_bytes_past)
        qed (simp add: file_bytes_def)
        moreover have "max rs s + n \<le> ?E" using n here by (auto simp: max_def)
        ultimately show ?thesis
          using file_bytes_split [of rs "max rs s" ?E "e # es"]
            file_bytes_split [of "max rs s" "max rs s + n" ?E "e # es"] by simp
      qed
      with IH pass show ?thesis by (simp add: rs_def [symmetric])
    qed
  qed
qed
lemma extent_slots_readable:
  assumes "tree_ok P cm ns root"
  shows "\<forall>s \<in> set (filter Q (tree_slots P cm ns root)).
    \<exists>it. tb_leaf_item (fst s) (snd s) = Ok it \<and> li_key it = slot_key s"
proof
  fix s assume "s \<in> set (filter Q (tree_slots P cm ns root))"
  then show "\<exists>it. tb_leaf_item (fst s) (snd s) = Ok it \<and> li_key it = slot_key s"
    using walker.slots_readable [of "(P, cm, ns, root)" "fst s" "snd s"] assms by simp
qed

section \<open>The example volume\<close>

definition example_geometry :: geometry where
  "example_geometry = \<lparr>gm_nodesize = fsN, gm_sectorsize = 4096\<rparr>"

lemma example_geometry_simps [simp]:
  "gm_nodesize example_geometry = fsN" "gm_sectorsize example_geometry = 4096"
  by (simp_all add: example_geometry_def)

definition example_metadata :: metadata where
  "example_metadata = \<lparr>md_size = 2, md_nbytes = 0, md_nlink = 1, md_mode = 0x81A4, md_uid = 0, md_gid = 0,
     md_generation = 0\<rparr>"

lemma example_is_file: "is_file example_metadata"
  by (simp add: is_file_def example_metadata_def)

lemma example_file_data:
  "slot_data (kv_leaf example_fs, 5) =
     Ok (replicate 16 0 @ le_bytes (2 :: u64) @ replicate 16 0 @ le_bytes (1 :: u32)
       @ le_bytes (0 :: u32) @ le_bytes (0 :: u32) @ le_bytes (0x81A4 :: u32) @ replicate 104 0)"
  "slot_data (kv_leaf example_fs, 6) =
     Ok (replicate 8 0 @ le_bytes (2 :: u64) @ replicate 5 0 @ [0x68, 0x69])"
  by (subst kv_slot(2) [OF example_fs_ok]; simp add: example_fs_def)+

lemma read_metadata_eq:
  assumes "tree_ok P cm ns root"
  shows "read_metadata P cm ns root oid =
    (if oid = EMPTY_SUBVOL_DIR_OBJECTID then Ok empty_subvol_metadata
     else case item_slot P cm ns root oid INODE_ITEM_KEY of
       None \<Rightarrow> Err NotFound
     | Some s \<Rightarrow> obind (slot_data s) (\<lambda>data.
         if length data < 160 then Err (CorruptBtree ''inode_item_short'' (tb_bytenr (fst s)))
         else let i = inode_item_of data 0 in
           Ok \<lparr>md_size = ii_size i, md_nbytes = ii_nbytes i, md_nlink = ii_nlink i, md_mode = ii_mode i,
               md_uid = ii_uid i, md_gid = ii_gid i, md_generation = ii_generation i\<rparr>))"
proof -
  from assms obtain r where r: "find_first_ge P cm ns root (DiskKey oid INODE_ITEM_KEY 0) = Ok r"
    and slot: "item_slot P cm ns root oid INODE_ITEM_KEY =
       (case r of Some s \<Rightarrow> if of_object oid INODE_ITEM_KEY s then Some s else None | None \<Rightarrow> None)"
    and it: "\<And>s. r = Some s \<Longrightarrow> \<exists>it. tb_leaf_item (fst s) (snd s) = Ok it \<and> li_key it = slot_key s"
    by (rule seek_item) blast
  show ?thesis
  proof (cases r)
    case None
    with r slot show ?thesis by (simp add: read_metadata_def)
  next
    case (Some s)
    with it obtain item where "tb_leaf_item (fst s) (snd s) = Ok item" "li_key item = slot_key s" by blast
    with Some r slot show ?thesis
      by (cases s) (auto simp: read_metadata_def of_object_def slot_data_def inode_item_parse_eq Let_def
          intro!: obind_cong)
  qed
qed

lemma example_read_metadata: "read_metadata fsP flat_map fsN 0 257 = Ok example_metadata"
  by (simp add: read_metadata_eq [OF example_fs_tree] example_fs_find of_object_def example_fs_keys
      example_file_data format_consts example_metadata_def inode_item_of_def le_field_def
      from_le_bytes_le_bytes)

lemma example_volume: "reads_volume fsP (tb_body (kv_leaf example_fs))"
  unfolding kv_platform_def
  by (rule slice_platform_reads_volume)
    (use example_fs_ok in \<open>simp add: kv_body_length kv_ok_def usize_max_def\<close>)

lemma example_alloc: "pf_alloc fsP n"
  by (simp add: kv_platform_def slice_platform_def)

lemma example_size: "md_size example_metadata = 2"
  by (simp add: example_metadata_def)

lemma example_extent:
  "extent_content P C cm ss (replicate 8 0 @ le_bytes (2 :: u64) @ replicate 5 0 @ [0x68, 0x69]) =
   Ok [0x68, 0x69]"
  by (simp add: extent_content_def extent_logical_length_def copy_extent_slice_def extent_header_eq
      extent_data_header_of_def le_field_def from_le_bytes_le_bytes format_consts layout nth_append slice_def
      usize_checked_add_def usize_max_def copy_from_slice_def Let_def)

lemma example_file_extents:
  "file_extents fsP C flat_map example_geometry 0 257 [(0, [0x68, 0x69])]"
proof -
  have "filter (of_object 257 EXTENT_DATA_KEY) (tree_slots fsP flat_map fsN 0) = [(kv_leaf example_fs, 6)]"
    unfolding kv_tree(2) [OF example_fs_ok] example_fs_upt
    by (simp add: of_object_def example_fs_keys format_consts)
  then show ?thesis
    by (simp add: file_extents_def holds_extent_def example_fs_keys example_file_data example_extent)
qed

lemma read_file_at_bytes:
  assumes "tree_ok P cm (gm_nodesize g) root" and "chunk_map_wf cm" and "reads_volume P img"
    and "read_metadata P cm (gm_nodesize g) root oid = Ok md" and "is_file md"
    and "length buf < 2 ^ 64" and "file_extents P C cm g root oid es" and "laid_out 0 es"
  shows "read_file_at P C cm g root oid offset buf =
    (let n = min (length buf) (unat (md_size md) - unat offset) in
     Ok (n, file_bytes es (unat offset) (unat offset + n) @ drop n buf))"
proof (cases "buf = [] \<or> md_size md \<le> offset")
  case True
  with assms(4,5) show ?thesis
    by (auto simp: read_file_at_eq [OF assms(6)] file_bytes_def word_le_nat_alt)
next
  case False
  define n where "n = min (length buf) (unat (md_size md) - unat offset)"
  have "unat offset + length [] + length (take n buf) \<le> unat (md_size md)"
  proof -
    have "length (take n buf) \<le> unat (md_size md) - unat offset" by (simp add: n_def)
    moreover have "unat offset \<le> unat (md_size md)" using False by (simp add: word_le_nat_alt)
    ultimately show ?thesis unfolding list.size by linarith
  qed
  from read_file_at_pass [OF assms(2,3) assms(7) [unfolded file_extents_def] extent_slots_readable [OF assms(1)]
      assms(8) this] obtain acc rest where
    scan: "extent_scan P cm (gm_nodesize g) root (read_file_at_item P C cm (gm_sectorsize g) offset)
      (\<lambda>(acc, rest). rest = []) oid ([], take n buf) = Ok (acc, rest)"
    and bytes: "acc @ replicate (length rest) 0 = file_bytes es (unat offset) (unat offset + n)"
    by (auto simp: extent_scan_pass [OF assms(1)] n_def)
  from bytes have "length acc + length rest = n" by (metis add_diff_cancel_left' length_append length_file_bytes length_replicate)
  with scan bytes False assms(4,5) show ?thesis
    by (simp add: read_file_at_eq [OF assms(6)] Let_def flip: n_def append_assoc)
qed

lemma read_file_bytes:
  assumes "tree_ok P cm (gm_nodesize g) root" and "chunk_map_wf cm" and "reads_volume P img"
    and "read_metadata P cm (gm_nodesize g) root oid = Ok md" and "is_file md"
    and "unat (md_size md) \<le> isize_max" and "\<forall>n \<le> unat (md_size md). pf_alloc P n"
    and "file_extents P C cm g root oid es" and "laid_out 0 es" and "within_file (unat (md_size md)) 0 es"
  shows "read_file P C cm g root oid = Ok (file_bytes es 0 (unat (md_size md)))"
proof -
  from read_file_pass [OF assms(2,3,6,7) assms(8) [unfolded file_extents_def] extent_slots_readable [OF assms(1)], of "[]"]
    assms(9,10) obtain out where
    "extent_scan P cm (gm_nodesize g) root (read_file_item P C cm (gm_sectorsize g) (md_size md))
      (\<lambda>out. unat (md_size md) \<le> length out) oid [] = Ok out"
    and "take (unat (md_size md)) out @ replicate (unat (md_size md) - length out) 0 =
      file_bytes es 0 (unat (md_size md))"
    by (auto simp: extent_scan_pass [OF assms(1)])
  with assms(4-7) show ?thesis
    by (simp add: read_file_def Let_def try_reserve_def finalize_eq)
qed

section \<open>Properties\<close>

text \<open>
  C4. Reading a whole regular file of a well-formed tree returns exactly its contents: every extent's
  plaintext at its offset (inline, regular, preallocated or compressed), zeros in the holes and after
  the last extent, cut at the size in the inode, whatever leaves the extent items are spread over.
\<close>

theorem read_file_content:
  assumes "tree_ok P cm (gm_nodesize g) root" and "chunk_map_wf cm" and "reads_volume P img"
    and "read_metadata P cm (gm_nodesize g) root oid = Ok md" and "is_file md"
    and "unat (md_size md) \<le> isize_max" and "\<forall>n \<le> unat (md_size md). pf_alloc P n"
    and "file_extents P C cm g root oid es" and "laid_out 0 es" and "within_file (unat (md_size md)) 0 es"
  shows "read_file P C cm g root oid = Ok (file_bytes es 0 (unat (md_size md)))"
  by (rule read_file_bytes [OF assms])

theorem read_file_content_witness:
  "read_file fsP stored_codecs flat_map example_geometry 0 257 = Ok [0x68, 0x69]"
proof -
  have "read_file fsP stored_codecs flat_map example_geometry 0 257 =
      Ok (file_bytes [(0, [0x68, 0x69])] 0 (unat (md_size example_metadata)))"
    by (rule read_file_content [OF _ flat_map_wf example_volume _ example_is_file _ _ example_file_extents])
      (simp_all add: example_fs_tree example_read_metadata example_size isize_max_def example_alloc)
  then show ?thesis by (simp add: file_bytes_def example_size upt_rec)
qed

text \<open>
  C5. Reading at an offset returns the matching window of the same contents: it fills as much of the
  buffer as the file has bytes from the offset on, reports that count, leaves the rest of the buffer
  alone, and reports 0 at or past the end of the file.
\<close>

theorem read_file_at_window_content:
  assumes "tree_ok P cm (gm_nodesize g) root" and "chunk_map_wf cm" and "reads_volume P img"
    and "read_metadata P cm (gm_nodesize g) root oid = Ok md" and "is_file md"
    and "length buf < 2 ^ 64" and "file_extents P C cm g root oid es" and "laid_out 0 es"
  shows "read_file_at P C cm g root oid offset buf =
    (let n = min (length buf) (unat (md_size md) - unat offset) in
     Ok (n, file_bytes es (unat offset) (unat offset + n) @ drop n buf))"
  by (rule read_file_at_bytes [OF assms])

theorem read_file_at_window_content_witness:
  "read_file_at fsP stored_codecs flat_map example_geometry 0 257 1 [7, 7, 7] = Ok (1, [0x69, 7, 7])"
proof -
  have "read_file_at fsP stored_codecs flat_map example_geometry 0 257 1 [7, 7, 7] =
      (let n = min (length [7, 7, 7 :: u8]) (unat (md_size example_metadata) - unat (1 :: u64)) in
       Ok (n, file_bytes [(0, [0x68, 0x69])] (unat (1 :: u64)) (unat (1 :: u64) + n) @ drop n [7, 7, 7]))"
    by (rule read_file_at_window_content [OF _ flat_map_wf example_volume _ example_is_file _ example_file_extents])
      (simp_all add: example_fs_tree example_read_metadata)
  then show ?thesis by (simp add: file_bytes_def example_size upt_rec Let_def)
qed

end
