(* ===== verification/File_Errors.thy ===== *)
theory File_Errors
  imports File_Content
begin

text \<open>
  Symlink targets, and how the file reader fails: it never panics but for one unchecked sum, and it
  refuses a file that has an extent starting past the end of the file.
\<close>

section \<open>A volume with a symlink and a preallocated tail\<close>

text \<open>
  Inode 257 is a regular file of 4096 bytes, all of it a hole, with a preallocated extent at offset 8192;
  inode 258 is a symlink to \<^verbatim>\<open>hi\<close> whose inline extent is padded with a zero byte.
\<close>

definition inode_bytes :: "u64 \<Rightarrow> u32 \<Rightarrow> u8 list" where
  "inode_bytes bytes mode =
     replicate 16 0 @ le_bytes bytes @ replicate 16 0 @ le_bytes (1 :: u32) @ replicate 8 0
     @ le_bytes mode @ replicate 104 0"

definition example_files :: "kv list" where
  "example_files =
     [(DiskKey 257 1 0, inode_bytes 4096 0x81A4),
      (DiskKey 257 108 8192,
       replicate 8 0 @ le_bytes (4096 :: u64) @ replicate 4 0 @ [2] @ le_bytes (1 :: u64)
       @ le_bytes (4096 :: u64) @ le_bytes (0 :: u64) @ le_bytes (4096 :: u64)),
      (DiskKey 258 1 0, inode_bytes 2 0xA1FF),
      (DiskKey 258 108 0, replicate 8 0 @ le_bytes (2 :: u64) @ replicate 5 0 @ [0x68, 0x69, 0])]"

lemma example_files_ok: "kv_ok example_files"
  by (simp add: kv_ok_def kv_size_def example_files_def disk_key_less_iff inode_bytes_def)

abbreviation filesP :: platform where "filesP \<equiv> kv_platform example_files"

definition files_geometry :: geometry where
  "files_geometry = \<lparr>gm_nodesize = kv_nodesize example_files, gm_sectorsize = 4096\<rparr>"

lemma files_geometry_simps [simp]:
  "gm_nodesize files_geometry = kv_nodesize example_files" "gm_sectorsize files_geometry = 4096"
  by (simp_all add: files_geometry_def)

lemmas example_files_tree = kv_tree(1) [OF example_files_ok]

lemma example_files_upt: "[0..<length example_files] = [0, 1, 2, 3]"
  by (simp add: example_files_def upt_rec)

lemma example_files_slots:
  "tree_slots filesP flat_map (kv_nodesize example_files) 0 = map (Pair (kv_leaf example_files)) [0, 1, 2, 3]"
  unfolding kv_tree(2) [OF example_files_ok] example_files_upt ..

lemma example_files_keys:
  "slot_key (kv_leaf example_files, 0) = DiskKey 257 1 0"
  "slot_key (kv_leaf example_files, Suc 0) = DiskKey 257 108 8192"
  "slot_key (kv_leaf example_files, 2) = DiskKey 258 1 0"
  "slot_key (kv_leaf example_files, 3) = DiskKey 258 108 0"
  by (subst kv_slot(1) [OF example_files_ok]; simp add: example_files_def)+

lemma example_files_data:
  "slot_data (kv_leaf example_files, 0) = Ok (inode_bytes 4096 0x81A4)"
  "slot_data (kv_leaf example_files, Suc 0) =
     Ok (replicate 8 0 @ le_bytes (4096 :: u64) @ replicate 4 0 @ [2] @ le_bytes (1 :: u64)
       @ le_bytes (4096 :: u64) @ le_bytes (0 :: u64) @ le_bytes (4096 :: u64))"
  "slot_data (kv_leaf example_files, 2) = Ok (inode_bytes 2 0xA1FF)"
  "slot_data (kv_leaf example_files, 3) =
     Ok (replicate 8 0 @ le_bytes (2 :: u64) @ replicate 5 0 @ [0x68, 0x69, 0])"
  by (subst kv_slot(2) [OF example_files_ok]; simp add: example_files_def)+

lemma example_files_alloc: "pf_alloc filesP n"
  by (simp add: kv_platform_def slice_platform_def)

lemma example_files_volume: "reads_volume filesP (tb_body (kv_leaf example_files))"
  unfolding kv_platform_def
  by (rule slice_platform_reads_volume)
    (use example_files_ok in \<open>simp add: kv_body_length kv_ok_def usize_max_def\<close>)

lemma inode_bytes_fields:
  "length (inode_bytes bytes mode) = 160"
  "inode_item_of (inode_bytes bytes mode) 0 =
     \<lparr>ii_generation = 0, ii_transid = 0, ii_size = bytes, ii_nbytes = 0, ii_block_group = 0, ii_nlink = 1,
      ii_uid = 0, ii_gid = 0, ii_mode = mode, ii_rdev = 0, ii_flags = 0, ii_sequence = 0\<rparr>"
  by (simp_all add: inode_bytes_def inode_item_of_def le_field_def from_le_bytes_le_bytes)

definition files_metadata :: "u64 \<Rightarrow> u32 \<Rightarrow> metadata" where
  "files_metadata bytes mode =
     \<lparr>md_size = bytes, md_nbytes = 0, md_nlink = 1, md_mode = mode, md_uid = 0, md_gid = 0, md_generation = 0\<rparr>"

lemma example_files_metadata:
  "read_metadata filesP flat_map (kv_nodesize example_files) 0 257 = Ok (files_metadata 4096 0x81A4)"
  "read_metadata filesP flat_map (kv_nodesize example_files) 0 258 = Ok (files_metadata 2 0xA1FF)"
  by (simp_all add: read_metadata_eq [OF example_files_tree] example_files_slots of_object_def
      example_files_keys example_files_data inode_bytes_fields files_metadata_def format_consts)

section \<open>Properties\<close>

lemma slot_data_not_NotFound: "slot_data s \<noteq> Err NotFound"
  by (auto simp: slot_data_def tb_leaf_item_def tb_leaf_item_data_def outcome_simps leaf_item_parse_eq Let_def
      layout split: if_splits)

text \<open>
  An inode's metadata is what its first \<^verbatim>\<open>INODE_ITEM\<close> says, and a lookup reports that an inode does not
  exist exactly when the tree has no such item for it. (The placeholder directory that stands for a
  subvolume missing from a snapshot has none, and is answered without a lookup.)
\<close>

lemma read_metadata_spec:
  assumes "tree_ok P cm nodesize root" and "oid \<noteq> EMPTY_SUBVOL_DIR_OBJECTID"
  shows "(read_metadata P cm nodesize root oid = Ok md \<longleftrightarrow>
      (\<exists>s data. find (of_object oid INODE_ITEM_KEY) (tree_slots P cm nodesize root) = Some s \<and>
         slot_data s = Ok data \<and> InodeItem_SIZE \<le> length data \<and>
         md = (let i = inode_item_of data 0 in
           \<lparr>md_size = ii_size i, md_nbytes = ii_nbytes i, md_nlink = ii_nlink i, md_mode = ii_mode i,
            md_uid = ii_uid i, md_gid = ii_gid i, md_generation = ii_generation i\<rparr>))) \<and>
    (read_metadata P cm nodesize root oid = Err NotFound \<longleftrightarrow>
      find (of_object oid INODE_ITEM_KEY) (tree_slots P cm nodesize root) = None)"
proof (cases "find (of_object oid INODE_ITEM_KEY) (tree_slots P cm nodesize root)")
  case None
  then show ?thesis using assms by (simp add: read_metadata_eq)
next
  case (Some s)
  then show ?thesis
    using assms slot_data_not_NotFound [of s]
    by (cases "slot_data s") (auto simp: read_metadata_eq layout Let_def not_less)
qed

lemma read_link_eq:
  assumes "tree_ok P cm (gm_nodesize g) root"
    and "read_metadata P cm (gm_nodesize g) root oid = Ok md" and "is_symlink md"
    and "item_slot P cm (gm_nodesize g) root oid EXTENT_DATA_KEY = Some s"
  shows "read_link P C cm g root oid =
    obind (slot_data s) (\<lambda>data.
    obind (extent_header data (tb_bytenr (fst s))) (\<lambda>header.
    if eh_ty header \<noteq> FILE_EXTENT_INLINE then Err (UnsupportedFeature ''symlink_long'')
    else
    obind (if eh_compression header = COMPRESS_NONE then Ok (drop 21 data)
           else decode C (eh_compression header) (drop 21 data) [] (gm_sectorsize g)) (\<lambda>out.
    Ok (take (unat (md_size md)) out))))"
proof -
  from assms(1) obtain r where r: "find_first_ge P cm (gm_nodesize g) root (DiskKey oid EXTENT_DATA_KEY 0) = Ok r"
    and slot: "item_slot P cm (gm_nodesize g) root oid EXTENT_DATA_KEY =
       (case r of Some s \<Rightarrow> if of_object oid EXTENT_DATA_KEY s then Some s else None | None \<Rightarrow> None)"
    and it: "\<And>s. r = Some s \<Longrightarrow> \<exists>it. tb_leaf_item (fst s) (snd s) = Ok it \<and> li_key it = slot_key s"
    by (rule seek_item) blast
  from slot assms(4) have rs: "r = Some s" "of_object oid EXTENT_DATA_KEY s"
    by (auto split: option.splits if_splits)
  with it obtain item where item: "tb_leaf_item (fst s) (snd s) = Ok item" "li_key item = slot_key s" by blast
  have cut: "take (min n (length out)) out = take n out" for n and out :: "u8 list" by (simp add: min_def)
  show ?thesis
  proof (cases "slot_data s")
    case (Ok data)
    with item have data: "tb_leaf_item_data (fst s) item = Ok data" by (simp add: slot_data_def)
    have tail: "21 \<le> length data \<Longrightarrow> Prelude.slice data 21 (length data) = Ok (drop 21 data)"
      by (simp add: slice_def)
    show ?thesis
      using assms(2,3) r rs item data Ok tail
      by (cases s) (simp add: read_link_def Let_def of_object_def extent_header_eq layout cut)
  qed (use assms(2,3) r rs item in \<open>cases s, simp add: read_link_def Let_def of_object_def slot_data_def\<close>)+
qed

text \<open>
  The target of a symlink is the payload of its inline extent, decompressed where it is compressed,
  cut to the size in the inode so that padding of the item is not part of it. A target kept in a
  regular extent is refused as unsupported, not misread.
\<close>

lemma read_link_target:
  assumes "tree_ok P cm (gm_nodesize g) root"
    and "read_metadata P cm (gm_nodesize g) root oid = Ok md" and "is_symlink md"
    and "find (of_object oid EXTENT_DATA_KEY) (tree_slots P cm (gm_nodesize g) root) = Some s"
    and "slot_data s = Ok data" and "extent_header data (tb_bytenr (fst s)) = Ok header"
  shows "(eh_ty header = FILE_EXTENT_INLINE \<and> eh_compression header = COMPRESS_NONE \<longrightarrow>
      read_link P C cm g root oid = Ok (take (unat (md_size md)) (drop ExtentDataHeader_SIZE data))) \<and>
    (eh_ty header = FILE_EXTENT_INLINE \<and> eh_compression header \<noteq> COMPRESS_NONE \<longrightarrow>
      read_link P C cm g root oid =
        obind (decode C (eh_compression header) (drop ExtentDataHeader_SIZE data) [] (gm_sectorsize g))
          (\<lambda>out. Ok (take (unat (md_size md)) out))) \<and>
    (eh_ty header \<noteq> FILE_EXTENT_INLINE \<longrightarrow>
      read_link P C cm g root oid = Err (UnsupportedFeature ''symlink_long''))"
  using assms(5,6) by (simp add: read_link_eq [OF assms(1-4)] layout)

lemma example_link_header:
  "extent_header (replicate 8 0 @ le_bytes (2 :: u64) @ replicate 5 0 @ [0x68, 0x69, 0]) l =
   Ok \<lparr>eh_generation = 0, eh_ram_bytes = 2, eh_compression = 0, eh_encryption = 0, eh_other_encoding = 0,
       eh_ty = 0\<rparr>"
proof -
  have "extent_data_header_of (replicate 8 0 @ le_bytes (2 :: u64) @ replicate 5 0 @ [0x68, 0x69, 0]) 0 =
      \<lparr>eh_generation = 0, eh_ram_bytes = 2, eh_compression = 0, eh_encryption = 0, eh_other_encoding = 0,
       eh_ty = 0\<rparr>"
    by code_simp
  then show ?thesis by (simp add: extent_header_eq)
qed

text \<open>
  C40. The unchecked sum: for a compressed extent whose plaintext decodes, an offset into the extent that
  takes \<^verbatim>\<open>offset + in_extent_offset\<close> past the largest 64-bit value overflows instead of being reported
  as corruption, which the uncompressed branch does for the same sum.
\<close>

theorem compressed_offset_overflow_panics:
  assumes "slice_overflows data in_extent_offset" and "eh_encryption (extent_data_header_of data 0) = 0"
    and "read_compressed P C cm sectorsize (extent_data_header_of data 0) (extent_data_regular_of data 21) =
      Ok decoded"
  shows "copy_extent_slice P C cm sectorsize data in_extent_offset dst = Panic"
  using assms
  by (auto simp: slice_overflows_def copy_extent_slice_def extent_header_eq extent_data_regular_parse_eq
      layout format_consts plain_add_def)

definition overflowing_item :: "u8 list" where
  "overflowing_item =
     replicate 16 0 @ [1, 0, 0, 0, 1] @ le_bytes (1 :: u64) @ le_bytes (0 :: u64) @ le_bytes (- 1 :: u64)
     @ le_bytes (2 :: u64)"

theorem compressed_offset_overflow_panics_witness:
  "copy_extent_slice filesP stored_codecs flat_map 4096 overflowing_item 1 [0] = Panic"
proof (rule compressed_offset_overflow_panics)
  have z: "from_le_bytes [0, 0] = (0 :: u16)" by (simp add: from_le_bytes_def)
  have h: "extent_data_header_of overflowing_item 0 =
      \<lparr>eh_generation = 0, eh_ram_bytes = 0, eh_compression = 1, eh_encryption = 0, eh_other_encoding = 0,
       eh_ty = 1\<rparr>" and r: "extent_data_regular_of overflowing_item 21 =
      \<lparr>er_disk_bytenr = 1, er_disk_num_bytes = 0, er_offset = - 1, er_num_bytes = 2\<rparr>"
    and len: "length overflowing_item = 53"
    by (simp_all add: extent_data_header_of_def extent_data_regular_of_def overflowing_item_def le_field_def
        nth_append from_le_bytes_le_bytes z)
  show "slice_overflows overflowing_item 1"
    by (simp add: slice_overflows_def h r len format_consts unsigned_minus_1_eq_mask mask_eq_exp_minus_1)
  show "eh_encryption (extent_data_header_of overflowing_item 0) = 0" by (simp add: h)
  show "read_compressed filesP stored_codecs flat_map 4096 (extent_data_header_of overflowing_item 0)
      (extent_data_regular_of overflowing_item 21) = Ok []"
    unfolding h r
    by (simp add: read_compressed_def format_consts try_reserve_def example_files_alloc vec_resize_def
        read_through_chunks_def read_chunks_from.simps decode_def decode_zlib_def zlib_decode_def
        stored_codecs_def)
qed

text \<open>
  C39. A regular file whose first extent item starts after the end of the file (space preallocated past
  the end of a sparse file) is refused by the whole-file read, although reading it at an offset
  returns the zeros it consists of.
\<close>

theorem read_file_rejects_past_eof:
  assumes "tree_ok P cm (gm_nodesize g) root" and "chunk_map_wf cm" and "reads_volume P img"
    and "read_metadata P cm (gm_nodesize g) root oid = Ok md" and "is_file md"
    and "unat (md_size md) \<le> isize_max" and "pf_alloc P (unat (md_size md))" and "length buf < 2 ^ 64"
    and "file_extents P C cm g root oid ((s, bs) # es)" and "laid_out 0 ((s, bs) # es)"
    and "0 < unat (md_size md)" and "unat (md_size md) < s"
  shows "(\<exists>l. read_file P C cm g root oid = Err (CorruptBtree ''extent_past_eof'' l)) \<and>
    (let n = min (length buf) (unat (md_size md) - unat offset) in
     read_file_at P C cm g root oid offset buf = Ok (n, replicate n 0 @ drop n buf))"
proof
  let ?F = "unat (md_size md)"
  from assms(9) obtain slot slots where
    slots: "filter (of_object oid EXTENT_DATA_KEY) (tree_slots P cm (gm_nodesize g) root) = slot # slots"
    and holds: "holds_extent P C cm (gm_sectorsize g) slot (s, bs)"
    by (auto simp: file_extents_def list_all2_Cons2)
  from extent_slots_readable [OF assms(1), of "of_object oid EXTENT_DATA_KEY"] slots obtain it where
    it: "tb_leaf_item (fst slot) (snd slot) = Ok it" "li_key it = slot_key slot" by auto
  have off: "unat (key_offset (slot_key slot)) = s" using holds by (simp add: holds_extent_def)
  have "read_file_item P C cm (gm_sectorsize g) (md_size md) (fst slot) it [] =
      Err (CorruptBtree ''extent_past_eof'' (tb_bytenr (fst slot)))"
    using off it(2) assms(12) by (simp add: read_file_item_def word_less_nat_alt)
  then have "extent_scan P cm (gm_nodesize g) root
      (read_file_item P C cm (gm_sectorsize g) (md_size md)) (\<lambda>out. length out \<ge> ?F) oid [] =
      Err (CorruptBtree ''extent_past_eof'' (tb_bytenr (fst slot)))"
    using assms(11) it by (simp add: extent_scan_pass [OF assms(1)] slots)
  with assms(4-7) show "\<exists>l. read_file P C cm g root oid = Err (CorruptBtree ''extent_past_eof'' l)"
    by (simp add: read_file_def try_reserve_def)
  show "let n = min (length buf) (?F - unat offset) in
      read_file_at P C cm g root oid offset buf = Ok (n, replicate n 0 @ drop n buf)"
  proof -
    define n where "n = min (length buf) (?F - unat offset)"
    have "unat offset + n \<le> s \<or> n = 0" using assms(12) by (auto simp: n_def)
    then have "file_bytes ((s, bs) # es) (unat offset) (unat offset + n) = replicate n 0"
      using file_bytes_hole [OF assms(10), of "unat offset + n" "unat offset"] by (auto simp: file_bytes_def)
    with read_file_at_bytes [OF assms(1-5,8,9,10), of offset] show ?thesis by (simp add: n_def Let_def)
  qed
qed

lemma example_prealloc_extents:
  "file_extents filesP C flat_map files_geometry 0 257 [(8192, replicate 4096 0)]"
proof -
  let ?data = "replicate 8 0 @ le_bytes (4096 :: u64) @ replicate 4 0 @ [2] @ le_bytes (1 :: u64)
       @ le_bytes (4096 :: u64) @ le_bytes (0 :: u64) @ le_bytes (4096 :: u64)"
  have slots: "filter (of_object 257 EXTENT_DATA_KEY)
      (tree_slots filesP flat_map (kv_nodesize example_files) 0) = [(kv_leaf example_files, 1)]"
    by (simp add: example_files_slots of_object_def example_files_keys format_consts)
  have h: "extent_data_header_of ?data 0 =
      \<lparr>eh_generation = 0, eh_ram_bytes = 4096, eh_compression = 0, eh_encryption = 0, eh_other_encoding = 0,
       eh_ty = 2\<rparr>" and r: "extent_data_regular_of ?data 21 =
      \<lparr>er_disk_bytenr = 1, er_disk_num_bytes = 4096, er_offset = 0, er_num_bytes = 4096\<rparr>"
    by (simp_all add: extent_data_header_of_def extent_data_regular_of_def le_field_def nth_append
        from_le_bytes_le_bytes from_le_bytes_zeros [of 2, simplified numeral_2_eq_2 replicate.simps])
  have "extent_content filesP C flat_map 4096 ?data = Ok (replicate 4096 0)"
    by (simp add: extent_content_def extent_logical_length_def copy_extent_slice_def extent_header_eq h r
        extent_data_regular_parse_eq format_consts layout del: append.simps)
  then show ?thesis
    by (simp add: file_extents_def slots holds_extent_def example_files_keys example_files_data)
qed

theorem read_file_rejects_past_eof_witness:
  "(\<exists>l. read_file filesP stored_codecs flat_map files_geometry 0 257 = Err (CorruptBtree ''extent_past_eof'' l)) \<and>
   read_file_at filesP stored_codecs flat_map files_geometry 0 257 0 [7, 7] = Ok (2, [0, 0])"
proof -
  have "replicate 2 (0 :: u8) = [0, 0]" by (simp add: numeral_2_eq_2)
  then show ?thesis
    using read_file_rejects_past_eof [OF _ flat_map_wf example_files_volume _ _ _ example_files_alloc _
        example_prealloc_extents, of "files_metadata 4096 0x81A4" "[7, 7]" stored_codecs 0]
    by (simp add: example_files_tree example_files_metadata is_file_def files_metadata_def isize_max_def)
qed

end
