(* ===== verification/Mount_Image.thy ===== *)
theory Mount_Image
  imports Lib
begin

text \<open>
  A complete volume: a superblock at 64 KiB whose system chunk array maps the first 64 KiB, and one leaf
  at address 0 that serves as chunk tree, root tree and tree of the top-level subvolume, with a file
  \<^verbatim>\<open>/a\<close> of arbitrary contents. Opening the image and reading the file goes through every component; the
  properties of the public API follow, with the image as their instance.
\<close>

section \<open>Writing the image\<close>

definition image_items :: "u8 list \<Rightarrow> kv list" where
  "image_items bs =
     [(DiskKey 5 132 0, example_root_item),
      (DiskKey 6 84 (name_hash default_name),
       encode_packed [example_entry default_name (DiskKey 5 132 0)]),
      (DiskKey 256 84 (name_hash [0x61]), encode_packed [example_entry [0x61] (DiskKey 257 1 0)]),
      (DiskKey 257 1 0, inode_bytes (word_of_nat (length bs)) 0x81A4),
      (DiskKey 257 108 0, replicate 8 0 @ le_bytes (word_of_nat (length bs) :: u64) @ replicate 5 0 @ bs),
      (DiskKey 300 1 0, replicate (3357 - length bs) 0)]"

definition image_chunk :: sys_chunk where
  "image_chunk =
     (256, 0,
      \<lparr>ch_length = 0x10000, ch_owner = 2, ch_stripe_len = 0x10000, ch_ty = 0, ch_io_align = 4096,
       ch_io_width = 4096, ch_sector_size = 4096, ch_num_stripes = 1, ch_sub_stripes = 1,
       ch_stripes_offset = 48\<rparr>,
      [\<lparr>st_devid = 1, st_offset = 0, st_dev_uuid = replicate 16 0\<rparr>])"

definition image_superblock :: "u8 list" where
  "image_superblock =
     replicate 64 0 @ le_bytes BTRFS_MAGIC @ le_bytes (1 :: u64) @ replicate 64 0
     @ le_bytes (4096 :: u32) @ le_bytes (4096 :: u32) @ replicate 8 0 @ le_bytes (97 :: u32) @ replicate 37 0
     @ le_bytes (1 :: u64) @ replicate 602 0 @ encode_sys_chunk image_chunk @ replicate 1951 0
     @ replicate 1237 0"

definition image_bytes :: "u8 list \<Rightarrow> u8 list" where
  "image_bytes bs = tb_body (kv_leaf (image_items bs)) @ replicate 61440 0 @ image_superblock"

definition image_device :: "u8 list \<Rightarrow> platform" where
  "image_device bs = slice_platform (image_bytes bs) (\<lambda>_. 0) (\<lambda>_. True)"

section \<open>The leaf\<close>

lemma image_items_size: "length bs \<le> 3357 \<Longrightarrow> kv_size (image_items bs) = 4096"
  by (simp add: kv_size_def image_items_def example_entry_def encode_packed_def encode_defs default_name_def
      example_root_item_def inode_bytes_def)

lemma image_items_ok: "length bs \<le> 3357 \<Longrightarrow> kv_ok (image_items bs)"
  using image_items_size [of bs] by (simp add: kv_ok_def) (simp add: image_items_def disk_key_less_iff)

lemma image_nodesize: "length bs \<le> 3357 \<Longrightarrow> kv_nodesize (image_items bs) = 4096"
  by (simp add: kv_nodesize_def image_items_size)

lemma length_encode_image_chunk: "length (encode_sys_chunk image_chunk) = 97"
  by (simp add: encode_sys_chunk_def image_chunk_def encode_defs)

lemma image_superblock_length: "length image_superblock = 4096"
  by (simp add: image_superblock_def length_encode_image_chunk)

lemma image_read:
  assumes "length bs \<le> 3357"
  shows "reader_read (image_device bs) 0 4096 = Some (tb_body (kv_leaf (image_items bs)))"
    and "reader_read (image_device bs) 0x10000 4096 = Some image_superblock"
    and "reads_volume (image_device bs) (image_bytes bs)"
proof -
  have leaf: "length (tb_body (kv_leaf (image_items bs))) = 4096"
    by (simp add: kv_body_length image_items_size [OF assms])
  then have len: "length (image_bytes bs) = 69632"
    by (simp add: image_bytes_def image_superblock_length)
  then have max: "length (image_bytes bs) \<le> usize_max" by (simp add: usize_max_def)
  show "reader_read (image_device bs) 0 4096 = Some (tb_body (kv_leaf (image_items bs)))"
    unfolding image_device_def using max leaf len
    by (subst reader_read_slice_platform) (simp_all add: image_bytes_def)
  show "reader_read (image_device bs) 0x10000 4096 = Some image_superblock"
    unfolding image_device_def using max leaf len
    by (subst reader_read_slice_platform) (simp_all add: image_bytes_def image_superblock_length)
  show "reads_volume (image_device bs) (image_bytes bs)"
    unfolding image_device_def by (rule slice_platform_reads_volume [OF max])
qed

lemma image_platform [simp]: "pf_crc32c (image_device bs) = (\<lambda>_. 0)" "pf_alloc (image_device bs) n"
  by (simp_all add: image_device_def slice_platform_def)

lemma image_tree:
  assumes "length bs \<le> 3357"
  shows "tree_ok (image_device bs) flat_map 4096 0"
    and "tree_slots (image_device bs) flat_map 4096 0 = map (Pair (kv_leaf (image_items bs))) [0, 1, 2, 3, 4, 5]"
proof -
  have "serves_leaf (image_device bs) (image_items bs)"
    using image_read(1) [OF assms] by (simp add: serves_leaf_def image_items_size [OF assms])
  note tree = kv_tree_on [OF image_items_ok [OF assms] this, unfolded image_nodesize [OF assms]]
  show "tree_ok (image_device bs) flat_map 4096 0" by (rule tree(1))
  have "[0..<length (image_items bs)] = [0, 1, 2, 3, 4, 5]" by (simp add: image_items_def upt_rec)
  with tree(2) show "tree_slots (image_device bs) flat_map 4096 0 =
      map (Pair (kv_leaf (image_items bs))) [0, 1, 2, 3, 4, 5]" by simp
qed

lemma image_keys:
  assumes "length bs \<le> 3357"
  shows "slot_key (kv_leaf (image_items bs), 0) = DiskKey 5 132 0"
    "slot_key (kv_leaf (image_items bs), Suc 0) = DiskKey 6 84 (name_hash default_name)"
    "slot_key (kv_leaf (image_items bs), 2) = DiskKey 256 84 (name_hash [0x61])"
    "slot_key (kv_leaf (image_items bs), 3) = DiskKey 257 1 0"
    "slot_key (kv_leaf (image_items bs), 4) = DiskKey 257 108 0"
    "slot_key (kv_leaf (image_items bs), 5) = DiskKey 300 1 0"
  by (subst kv_slot(1) [OF image_items_ok [OF assms]]; simp add: image_items_def)+

lemma image_data:
  assumes "length bs \<le> 3357"
  shows "slot_data (kv_leaf (image_items bs), 0) = Ok example_root_item"
    "slot_data (kv_leaf (image_items bs), Suc 0) =
      Ok (encode_packed [example_entry default_name (DiskKey 5 132 0)])"
    "slot_data (kv_leaf (image_items bs), 2) = Ok (encode_packed [example_entry [0x61] (DiskKey 257 1 0)])"
    "slot_data (kv_leaf (image_items bs), 3) = Ok (inode_bytes (word_of_nat (length bs)) 0x81A4)"
    "slot_data (kv_leaf (image_items bs), 4) =
      Ok (replicate 8 0 @ le_bytes (word_of_nat (length bs) :: u64) @ replicate 5 0 @ bs)"
  by (subst kv_slot(2) [OF image_items_ok [OF assms]]; simp add: image_items_def)+

section \<open>Mounting it\<close>

lemma image_superblock_fields:
  "sb_magic (superblock_of image_superblock) = BTRFS_MAGIC"
  "sb_csum_type (superblock_of image_superblock) = 0"
  "sb_incompat_flags (superblock_of image_superblock) = 0"
  "sb_sectorsize (superblock_of image_superblock) = 4096"
  "sb_nodesize (superblock_of image_superblock) = 4096"
  "sb_csum (superblock_of image_superblock) = replicate 32 0"
  "sb_devid (superblock_of image_superblock) = 1"
  "sb_root (superblock_of image_superblock) = 0"
  "sb_chunk_root (superblock_of image_superblock) = 0"
  "sb_root_dir_objectid (superblock_of image_superblock) = 0"
  "sb_sys_chunk_array_size (superblock_of image_superblock) = 97"
  "sb_sys_chunk_array (superblock_of image_superblock) = encode_sys_chunk image_chunk @ replicate 1951 0"
  by (simp_all add: superblock_of_def image_superblock_def le_field_def from_le_bytes_le_bytes
      layout CSUM_LEN_def length_encode_image_chunk)

lemma image_superblock_loads:
  assumes "length bs \<le> 3357"
  shows "superblock_load (image_device bs) 0x11000 = Ok (superblock_of image_superblock)"
proof -
  have "is_pow2_in_range 4096 4096 65536"
    by (simp add: is_pow2_in_range_def is_power_of_two_def upt_rec)
  then have "try_load_one (image_device bs) 0x10000 = Ok (CopyValid (superblock_of image_superblock))"
    using image_superblock_length image_superblock_fields image_read(2) [OF assms]
    by (simp add: try_load_one_def superblock_parse_eq slice_def
        verify_crc32c_def crc32c_def flags_contain_def Let_def from_le_bytes_def layout format_consts)
  then show ?thesis by (simp add: superblock_load_def SUPERBLOCK_OFFSETS_def)
qed

lemma image_system_chunks:
  "parse_system_chunk_array (set_local_devid chunk_map_default 1)
     (encode_sys_chunk image_chunk @ replicate 1951 0) 97 = Ok flat_map"
proof -
  have "\<forall>e \<in> set [image_chunk]. sys_chunk_ok e"
    by (simp add: sys_chunk_ok_def image_chunk_def)
  moreover have "insert_all (set_local_devid chunk_map_default 1) (map sys_chunk_mapping [image_chunk]) = Ok flat_map"
    by (simp add: chunk_map_insert_def chunk_map_default_def set_local_devid_def get_before_def get_at_def
        checked_add_def partition_point_def sys_chunk_mapping_def image_chunk_def flat_map_def)
  ultimately show ?thesis
    using sys_chunk_array_roundtrip [of "[image_chunk]" "set_local_devid chunk_map_default 1" "[]" "replicate 1951 0"]
    by (simp add: parse_system_chunk_array_def length_encode_image_chunk)
qed

lemma harvest_slots_none:
  "\<forall>s \<in> set ss. (\<exists>it. tb_leaf_item (fst s) (snd s) = Ok it \<and> li_key it = slot_key s) \<and>
     key_item_type (slot_key s) \<noteq> CHUNK_ITEM_KEY \<Longrightarrow> harvest_slots ss cm = Ok cm"
  by (induction ss) (auto simp: harvest_item_def)

lemma name_hash_bound: "unat (name_hash name) < 18446744073709551615"
proof -
  have "unat (name_hash name) < 4294967296" by (simp add: name_hash_def unat_ucast_u32_u64)
  then show ?thesis by simp
qed

definition image_fs :: "u8 list \<Rightarrow> btrfs" where
  "image_fs bs =
     \<lparr>bt_reader = image_device bs, bt_chunk_map = flat_map,
      bt_geometry = \<lparr>gm_nodesize = 4096, gm_sectorsize = 4096\<rparr>, bt_root_tree_root = 0,
      bt_root = \<lparr>ino_subvol = 5, ino_tree_root = 0, ino_objectid = 256\<rparr>\<rparr>"

lemma image_fs_sel [simp]:
  "bt_reader (image_fs bs) = image_device bs" "bt_chunk_map (image_fs bs) = flat_map"
  "bt_geometry (image_fs bs) = \<lparr>gm_nodesize = 4096, gm_sectorsize = 4096\<rparr>"
  "bt_root_tree_root (image_fs bs) = 0"
  "bt_root (image_fs bs) = \<lparr>ino_subvol = 5, ino_tree_root = 0, ino_objectid = 256\<rparr>"
  by (simp_all add: image_fs_def)

lemma image_mount:
  assumes "length bs \<le> 3357"
  shows "mount (image_device bs) 0x11000 = Ok (image_fs bs, 0)"
proof -
  let ?P = "image_device bs"
  note readable = extent_slots_readable [OF image_tree(1) [OF assms], of "\<lambda>s. DiskKey 3 228 0 \<le> slot_key s"]
  have "populate_loop ?P flat_map 4096 0 (DiskKey 3 228 0) =
      harvest_slots (filter (\<lambda>s. DiskKey 3 228 0 \<le> slot_key s) (tree_slots ?P flat_map 4096 0)) flat_map"
    by (rule populate_loop_slots [OF flat_map_wf image_tree(1) [OF assms]])
      (simp add: image_tree(2) [OF assms] image_keys [OF assms] next_key_after_def checked_add_def
        name_hash_bound)
  also have "\<dots> = Ok flat_map"
  proof (rule harvest_slots_none, intro ballI conjI)
    fix s assume s: "s \<in> set (filter (\<lambda>s. DiskKey 3 228 0 \<le> slot_key s) (tree_slots ?P flat_map 4096 0))"
    with readable show "\<exists>it. tb_leaf_item (fst s) (snd s) = Ok it \<and> li_key it = slot_key s" by blast
    from s have "s \<in> set (tree_slots ?P flat_map 4096 0)" by simp
    then show "key_item_type (slot_key s) \<noteq> CHUNK_ITEM_KEY"
      by (auto simp: image_tree(2) [OF assms] image_keys [OF assms] CHUNK_ITEM_KEY_def)
  qed
  finally show ?thesis
    by (simp add: mount_def image_superblock_loads [OF assms] image_superblock_fields image_system_chunks
        populate_from_chunk_tree_def image_fs_def format_consts)
qed

lemma image_subvol_root:
  assumes "length bs \<le> 3357"
  shows "subvol_root (image_device bs) flat_map 4096 0 5 =
    Ok \<lparr>ino_subvol = 5, ino_tree_root = 0, ino_objectid = 256\<rparr>"
  by (simp add: subvol_root_def lookup_root_item_eq [OF image_tree(1) [OF assms]] image_tree(2) [OF assms]
      of_object_def image_keys [OF assms] image_data [OF assms] example_root_item_fields format_consts)

lemma image_default:
  assumes "length bs \<le> 3357"
  shows "resolve_default_subvol (image_device bs) flat_map 4096 0 0 =
    Ok \<lparr>ino_subvol = 5, ino_tree_root = 0, ino_objectid = 256\<rparr>"
proof -
  have "slot_data (kv_leaf (image_items bs), Suc 0) = Ok (encode_packed [example_entry default_name (DiskKey 5 132 0)])"
    by (rule image_data(2) [OF assms])
  then obtain it where "tb_leaf_item (kv_leaf (image_items bs)) (Suc 0) = Ok it"
    "tb_leaf_item_data (kv_leaf (image_items bs)) it = Ok (encode_packed [example_entry default_name (DiskKey 5 132 0)])"
    by (auto simp: slot_data_def outcome_simps)
  moreover have "find_exact (image_device bs) flat_map 4096 0 (DiskKey 6 84 (name_hash default_name)) =
      Ok (Some (kv_leaf (image_items bs), Suc 0))"
    by (simp add: find_exact_eq [OF image_tree(1) [OF assms]] image_tree(2) [OF assms] image_keys [OF assms])
  moreover have "default_entry_loop b (encode_packed [example_entry default_name (DiskKey 5 132 0)]) 0 = Ok (Some 5)" for b
    using default_entry_loop_packed [of "[example_entry default_name (DiskKey 5 132 0)]" b "[]"]
    by (simp add: example_entry_ok default_name_def) (simp add: example_entry_def)
  ultimately have "lookup_default_dir_item (image_device bs) flat_map 4096 0 = Ok (Some 5)"
    by (simp add: lookup_default_dir_item_def Let_def format_consts)
  then show ?thesis by (simp add: resolve_default_subvol_def image_subvol_root [OF assms])
qed

lemma image_opens:
  assumes "length bs \<le> 3357"
  shows "btrfs_open (image_device bs) 0x11000 = Ok (image_fs bs)"
    and "open_subvol_id (image_device bs) 0x11000 5 = Ok (image_fs bs)"
  using image_default [OF assms] image_subvol_root [OF assms]
  by (simp_all add: btrfs_open_def open_subvol_id_def image_mount [OF assms] image_fs_def)

section \<open>Reading the file\<close>

definition path_a :: path where
  "path_a = path_from [0x2F, 0x61]"

lemma path_a_components: "path_components path_a = [[0x61]]"
  by (simp add: path_a_def path_components_def components_def path_from_def collect_components_reference
      components_reference_def real_component_def)

lemma image_resolve:
  assumes "length bs \<le> 3357"
  shows "btrfs_resolve (image_fs bs) path_a = Ok \<lparr>ino_subvol = 5, ino_tree_root = 0, ino_objectid = 257\<rparr>"
proof -
  let ?e = "example_entry [0x61] (DiskKey 257 1 0)"
  have "slot_data (kv_leaf (image_items bs), 2) = Ok (encode_packed [?e])" by (rule image_data(3) [OF assms])
  then obtain it where "tb_leaf_item (kv_leaf (image_items bs)) 2 = Ok it"
    "tb_leaf_item_data (kv_leaf (image_items bs)) it = Ok (encode_packed [?e])"
    by (auto simp: slot_data_def outcome_simps)
  moreover have "find_exact (image_device bs) flat_map 4096 0 (DiskKey 256 84 (name_hash [0x61])) =
      Ok (Some (kv_leaf (image_items bs), 2))"
    by (simp add: find_exact_eq [OF image_tree(1) [OF assms]] image_tree(2) [OF assms] image_keys [OF assms])
  moreover have "lookup_entry_loop P T dir [0x61] b (encode_packed [?e]) 0 = Ok (dir\<lparr>ino_objectid := 257\<rparr>)"
    for P T dir b
    using lookup_entry_loop_packed [of "[?e]" P T dir "[0x61]" b "[]"]
    by (simp add: example_entry_ok)
      (simp add: choose_entry_def example_entry_def entry_encrypted_def entry_target_def format_consts)
  ultimately show ?thesis
    by (simp add: btrfs_resolve_def resolve_path_def path_a_components lookup_in_dir_def fs_trees_def Let_def
        format_consts)
qed

lemma image_metadata:
  assumes "length bs \<le> 3357"
  shows "read_metadata (image_device bs) flat_map 4096 0 257 = Ok (files_metadata (word_of_nat (length bs)) 0x81A4)"
  by (simp add: read_metadata_eq [OF image_tree(1) [OF assms]] image_tree(2) [OF assms] of_object_def
      image_keys [OF assms] image_data [OF assms] inode_bytes_fields files_metadata_def format_consts)

lemma image_extents:
  assumes "length bs \<le> 3357"
  shows "file_extents (image_device bs) C flat_map \<lparr>gm_nodesize = 4096, gm_sectorsize = 4096\<rparr> 0 257 [(0, bs)]"
proof -
  let ?data = "replicate 8 0 @ le_bytes (word_of_nat (length bs) :: u64) @ replicate 5 0 @ bs"
  have un: "unat (word_of_nat (length bs) :: u64) = length bs"
    using assms by (intro unat_word_of_nat_small) simp
  have slots: "filter (of_object 257 EXTENT_DATA_KEY) (tree_slots (image_device bs) flat_map 4096 0) =
      [(kv_leaf (image_items bs), 4)]"
    by (simp add: image_tree(2) [OF assms] of_object_def image_keys [OF assms] format_consts)
  have "extent_content (image_device bs) C flat_map 4096 ?data = Ok bs"
    using assms
    by (simp add: extent_content_def extent_logical_length_def copy_extent_slice_def extent_header_eq
        extent_data_header_of_def le_field_def from_le_bytes_le_bytes format_consts layout nth_append slice_def
        usize_checked_add_def usize_max_def copy_from_slice_def Let_def un)
  then show ?thesis
    by (simp add: file_extents_def slots holds_extent_def image_keys [OF assms] image_data [OF assms])
qed

lemma image_file:
  assumes "length bs \<le> 3357"
  shows "unat (md_size (files_metadata (word_of_nat (length bs)) 0x81A4)) = length bs"
    and "is_file (files_metadata n 0x81A4)"
    and "btrfs_read_file C (image_fs bs) path_a = Ok bs"
proof -
  let ?md = "files_metadata (word_of_nat (length bs)) 0x81A4"
  let ?g = "\<lparr>gm_nodesize = 4096, gm_sectorsize = 4096\<rparr>"
  show size: "unat (md_size ?md) = length bs"
    using assms by (simp add: files_metadata_def unat_word_of_nat_small)
  show reg: "is_file (files_metadata n 0x81A4)" for n by (simp add: is_file_def files_metadata_def)
  have "read_file (image_device bs) C flat_map ?g 0 257 = Ok (file_bytes [(0, bs)] 0 (length bs))"
    using read_file_bytes [OF _ flat_map_wf image_read(3) [OF assms] _ reg _ _ image_extents [OF assms]]
      image_tree(1) [OF assms] image_metadata [OF assms] assms
    by (simp add: size isize_max_def)
  moreover have "file_bytes [(0, bs)] 0 (length bs) = bs"
    using file_bytes_inside [of 0 0 "length bs" bs "[]"] by simp
  ultimately show "btrfs_read_file C (image_fs bs) path_a = Ok bs"
    using image_resolve [OF assms] by (simp add: btrfs_read_file_def)
qed

section \<open>Properties\<close>

text \<open>
  End to end: a volume image written with a file of any contents is opened at its default subvolume
  and read back through the superblock, the system chunk array, the chunk tree, the root tree, the
  directory and the extent items, byte for byte, as a whole and through any window.
\<close>

lemma image_roundtrip:
  assumes "length bs \<le> 3357" and "length buf < 2 ^ 64"
  shows "\<exists>fs ino. btrfs_open (image_device bs) 0x11000 = Ok fs \<and> subvolume fs = 5 \<and>
    btrfs_resolve fs path_a = Ok ino \<and> btrfs_read_file C fs path_a = Ok bs \<and>
    (let n = min (length buf) (length bs - unat offset) in
     btrfs_read_file_at C fs ino offset buf = Ok (n, take n (drop (unat offset) bs) @ drop n buf))"
proof -
  let ?md = "files_metadata (word_of_nat (length bs)) 0x81A4"
  let ?g = "\<lparr>gm_nodesize = 4096, gm_sectorsize = 4096\<rparr>"
  note size_bytes = image_file(1) [OF assms(1)] and reg = image_file(2) [OF assms(1)]
  have tree: "tree_ok (image_device bs) flat_map (gm_nodesize ?g) 0" using image_tree(1) [OF assms(1)] by simp
  have md: "read_metadata (image_device bs) flat_map (gm_nodesize ?g) 0 257 = Ok ?md"
    using image_metadata [OF assms(1)] by simp
  note vol = image_read(3) [OF assms(1)] and ext = image_extents [OF assms(1)]
  have "let n = min (length buf) (length bs - unat offset) in
      read_file_at (image_device bs) C flat_map ?g 0 257 offset buf =
        Ok (n, take n (drop (unat offset) bs) @ drop n buf)"
  proof -
    define n where "n = min (length buf) (length bs - unat offset)"
    have "file_bytes [(0, bs)] (unat offset) (unat offset + n) = take n (drop (unat offset) bs)"
    proof (cases "n = 0")
      case False
      then have "unat offset + n \<le> length bs" unfolding n_def by linarith
      then show ?thesis using file_bytes_inside [of 0 "unat offset" "unat offset + n" bs "[]"] by simp
    qed (simp add: file_bytes_def)
    with read_file_at_bytes [OF tree flat_map_wf vol md reg assms(2) ext] show ?thesis
      by (simp add: size_bytes Let_def flip: n_def)
  qed
  then show ?thesis
    using image_opens(1) [OF assms(1)] image_resolve [OF assms(1)] image_file(3) [OF assms(1), of C]
    by (intro exI [of _ "image_fs bs"]) (simp add: subvolume_def btrfs_read_file_at_def)
qed

lemma subvol_root_objectid:
  "subvol_root P cm ns root sid = Ok r \<Longrightarrow> ino_objectid r = 256 \<and> ino_subvol r = sid"
  by (auto simp: subvol_root_def outcome_simps FIRST_FREE_OBJECTID_def split: if_splits)

lemma resolve_default_objectid:
  assumes "resolve_default_subvol P cm ns root hint = Ok r"
  shows "ino_objectid r = 256"
proof -
  from assms obtain sid where
    "(case subvol_root P cm ns root sid of
        Err e \<Rightarrow> if e = NotFound then Err (CorruptBtree ''subvol_root_missing'' root) else Err e
      | other \<Rightarrow> other) = Ok r"
    by (auto simp: resolve_default_subvol_def obind_Ok_iff Let_def)
  then have "subvol_root P cm ns root sid = Ok r"
    by (cases "subvol_root P cm ns root sid") (simp_all split: if_splits)
  then show ?thesis by (simp add: subvol_root_objectid)
qed

lemma open_mounts:
  assumes "btrfs_open P size_bytes = Ok fs \<or> open_subvol_id P size_bytes sid = Ok fs \<or>
    open_subvol_path P size_bytes path = Ok fs"
  obtains fs0 hint r where "mount P size_bytes = Ok (fs0, hint)" "fs = fs0\<lparr>bt_root := r\<rparr>" "ino_objectid r = 256"
proof -
  consider "btrfs_open P size_bytes = Ok fs" | "open_subvol_id P size_bytes sid = Ok fs"
    | "open_subvol_path P size_bytes path = Ok fs" using assms by blast
  then show thesis
  proof cases
    case 1
    then obtain fs0 hint r where "mount P size_bytes = Ok (fs0, hint)" "fs = fs0\<lparr>bt_root := r\<rparr>"
      "resolve_default_subvol (bt_reader fs0) (bt_chunk_map fs0) (gm_nodesize (bt_geometry fs0))
         (bt_root_tree_root fs0) hint = Ok r"
      by (auto simp: btrfs_open_def obind_Ok_iff)
    with that resolve_default_objectid show thesis by blast
  next
    case 2
    then obtain fs0 hint r where "mount P size_bytes = Ok (fs0, hint)" "fs = fs0\<lparr>bt_root := r\<rparr>"
      "subvol_root (bt_reader fs0) (bt_chunk_map fs0) (gm_nodesize (bt_geometry fs0))
         (bt_root_tree_root fs0) sid = Ok r"
      by (auto simp: open_subvol_id_def obind_Ok_iff)
    with that subvol_root_objectid show thesis by blast
  next
    case 3
    then obtain fs0 hint r where "mount P size_bytes = Ok (fs0, hint)" "fs = fs0\<lparr>bt_root := r\<rparr>"
      "ino_objectid r = FIRST_FREE_OBJECTID"
      by (auto simp: open_subvol_path_def obind_Ok_iff split: if_splits)
    with that show thesis by (simp add: FIRST_FREE_OBJECTID_def)
  qed
qed

lemma open_subvol_id_subvolume: "open_subvol_id P size_bytes sid = Ok fs \<Longrightarrow> subvolume fs = sid"
  by (auto simp: open_subvol_id_def obind_Ok_iff subvolume_def dest!: subvol_root_objectid)

text \<open>
  C9. Every way of opening a volume establishes the invariant of a mounted filesystem, on any device
  contents: the chunk map is sorted and free of overlaps, and node and sector size are powers of two
  from 4 to 64 KiB. The instance is at the root directory of a subvolume, the one asked for when it is
  opened by id.
\<close>

theorem open_establishes_invariant:
  assumes "btrfs_open P size_bytes = Ok fs \<or> open_subvol_id P size_bytes sid = Ok fs \<or>
    open_subvol_path P size_bytes path = Ok fs"
  shows "fs_wf fs \<and> bt_reader fs = P \<and> ino_objectid (bt_root fs) = 256 \<and>
    (open_subvol_id P size_bytes sid = Ok fs \<longrightarrow> subvolume fs = sid)"
proof -
  from assms obtain fs0 hint r where "mount P size_bytes = Ok (fs0, hint)" "fs = fs0\<lparr>bt_root := r\<rparr>"
    "ino_objectid r = 256" by (rule open_mounts)
  with mount_establishes [OF this(1)] open_subvol_id_subvolume show ?thesis by auto
qed

theorem open_establishes_invariant_witness:
  "fs_wf (image_fs [1]) \<and> open_subvol_id (image_device [1]) 0x11000 5 = Ok (image_fs [1]) \<and>
   subvolume (image_fs [1]) = 5"
  using open_establishes_invariant [of "image_device [1]" "0x11000" "image_fs [1]" 5] image_opens [of "[1]"]
  by simp

text \<open>
  C36. Opening a volume, by any of the three ways, never panics on device contents whose superblock
  declares a system chunk array no longer than the 2048-byte field.
\<close>

theorem open_never_panics:
  assumes "\<And>sb. superblock_load P size_bytes = Ok sb \<Longrightarrow> unat (sb_sys_chunk_array_size sb) \<le> 2048"
  shows "btrfs_open P size_bytes \<noteq> Panic \<and> open_subvol_id P size_bytes sid \<noteq> Panic \<and>
    open_subvol_path P size_bytes path \<noteq> Panic"
  using mount_safe [OF assms]
  by (auto simp: btrfs_open_def open_subvol_id_def open_subvol_path_def obind_Panic_iff resolve_default_subvol_safe
      subvol_root_safe resolve_path_safe split: if_splits)

theorem open_never_panics_witness:
  "btrfs_open example_sb_platform 0x20000 \<noteq> Panic"
  using open_never_panics [of example_sb_platform "0x20000"]
  by (simp add: example_superblock_loads)
    (simp add: superblock_of_def example_superblock_def le_field_def layout)

text \<open>
  C10. On an opened filesystem the operations of the public API never panic, whatever the trees, the
  paths and the extents are: they return a result or an error. (Reads at an offset are subject to the
  one unchecked sum.)
\<close>

theorem mounted_operations_never_panic:
  assumes "fs_wf fs" and "codecs_ok C" and "length buf < 2 ^ 64"
  shows "btrfs_resolve fs path \<noteq> Panic \<and> btrfs_metadata fs ino \<noteq> Panic \<and>
    btrfs_read_file C fs path \<noteq> Panic \<and> btrfs_read_link C fs path \<noteq> Panic \<and> btrfs_read_dir fs path \<noteq> Panic \<and>
    (btrfs_read_file_at C fs ino offset buf = Panic \<longrightarrow>
      overflowing_extent (bt_reader fs) (bt_chunk_map fs) (gm_nodesize (bt_geometry fs)) (ino_tree_root ino)
        (ino_objectid ino))"
proof (intro conjI impI)
  note sector = fs_wf_sectorsize [OF assms(1)]
  show "btrfs_read_file C fs path \<noteq> Panic" "btrfs_read_link C fs path \<noteq> Panic"
    using read_file_safe [OF assms(2) sector] read_link_safe [OF assms(2) sector]
    by (auto simp: btrfs_read_file_def btrfs_read_link_def btrfs_resolve_def obind_Panic_iff resolve_path_safe)
  show "overflowing_extent (bt_reader fs) (bt_chunk_map fs) (gm_nodesize (bt_geometry fs)) (ino_tree_root ino)
      (ino_objectid ino)" if "btrfs_read_file_at C fs ino offset buf = Panic"
    using read_file_at_safe [OF assms(2) sector assms(3)] that unfolding btrfs_read_file_at_def by blast
qed (auto simp: btrfs_resolve_def btrfs_metadata_def btrfs_read_dir_def obind_Panic_iff resolve_path_safe
    read_metadata_safe read_dir_safe)

theorem mounted_operations_never_panic_witness:
  "btrfs_read_file stored_codecs (image_fs [1]) path_a \<noteq> Panic"
  using mounted_operations_never_panic [of "image_fs [1]" stored_codecs "[]"] stored_codecs_ok
  by (simp add: fs_wf_def block_sizes_def flat_map_wf)

text \<open>
  Opening at the path of the top level, such as \<^verbatim>\<open>/\<close>, \<^verbatim>\<open>//\<close> or \<^verbatim>\<open>/.\<close>, is opening the top-level subvolume by its
  id, on any device contents, errors included.
\<close>

lemma open_top_path_is_top_level:
  assumes "path_components path = []"
  shows "open_subvol_path P size_bytes path = open_subvol_id P size_bytes 5"
proof (cases "mount P size_bytes")
  case (Ok m)
  obtain fs hint where "m = (fs, hint)" by (cases m)
  with Ok assms show ?thesis
    by (cases "subvol_root (bt_reader fs) (bt_chunk_map fs) (gm_nodesize (bt_geometry fs)) (bt_root_tree_root fs) 5")
      (auto simp: open_subvol_path_def open_subvol_id_def resolve_path_def FS_TREE_OBJECTID_def
        FIRST_FREE_OBJECTID_def dest: subvol_root_objectid)
qed (simp_all add: open_subvol_path_def open_subvol_id_def)

end
