(* ===== verification/Read_Bounds.thy ===== *)
theory Read_Bounds
  imports File_Errors
begin

text \<open>
  The lengths of what the file reader returns, on any device contents: an invariant of the extent loop,
  carried from one item to the whole scan.
\<close>

section \<open>Invariants of the extent loop\<close>

primrec step_state :: "'s item_step \<Rightarrow> 's" where
  "step_state (Leave st) = st"
| "step_state (Next st) = st"

primrec scan_state :: "'s leaf_scan \<Rightarrow> 's" where
  "scan_state (Finished st) = st"
| "scan_state (Continue st t) = st"

definition items_keep :: "(tree_block \<Rightarrow> leaf_item \<Rightarrow> 's \<Rightarrow> 's item_step outcome) \<Rightarrow> ('s \<Rightarrow> bool) \<Rightarrow> bool" where
  "items_keep body keep \<longleftrightarrow>
     (\<forall>leaf item st r. keep st \<longrightarrow> body leaf item st = Ok r \<longrightarrow> keep (step_state r))"

lemma extent_leaf_scan_keeps:
  assumes "items_keep body keep"
  shows "keep st \<Longrightarrow> extent_leaf_scan body full oid leaf idxs st nt = Ok scan \<Longrightarrow> keep (scan_state scan)"
proof (induction idxs arbitrary: st nt)
  case (Cons i idxs)
  show ?case
  proof (cases "\<exists>item. tb_leaf_item leaf i = Ok item \<and> key_objectid (li_key item) = oid \<and>
      key_item_type (li_key item) = EXTENT_DATA_KEY")
    case True
    then obtain item where item: "tb_leaf_item leaf i = Ok item" "key_objectid (li_key item) = oid"
      "key_item_type (li_key item) = EXTENT_DATA_KEY" by blast
    with Cons.prems(2) obtain r where r: "body leaf item st = Ok r" by (auto simp: outcome_simps)
    with assms Cons.prems(1) have "keep (step_state r)" by (simp add: items_keep_def)
    with Cons item r show ?thesis
      by (cases r) (auto simp: outcome_simps Let_def split: if_splits)
  qed (use Cons.prems in \<open>auto simp: outcome_simps split: if_splits\<close>)
qed auto

lemma extent_scan_loop_OkE:
  assumes "extent_scan_loop P cm ns root body full oid t st = Ok st'"
  obtains "st' = st"
  | leaf idx scan where "find_first_ge P cm ns root t = Ok (Some (leaf, idx))"
      "extent_leaf_scan body full oid leaf [idx..<tb_nritems leaf] st None = Ok scan"
      "st' = scan_state scan \<or> (\<exists>st1 t'. scan = Continue st1 (Some t') \<and>
         extent_scan_loop P cm ns root body full oid t' st1 = Ok st')"
proof (cases "full st \<or> find_first_ge P cm ns root t = Ok None")
  case True
  with assms have "st' = st"
    by (cases "full st") (simp_all add: extent_scan_loop.simps [of P cm ns root body full oid t st])
  with that(1) show thesis .
next
  case False
  note unfolded = assms [unfolded extent_scan_loop.simps [of P cm ns root body full oid t st]]
  with False obtain leaf idx scan where hit: "find_first_ge P cm ns root t = Ok (Some (leaf, idx))"
    and scan: "extent_leaf_scan body full oid leaf [idx..<tb_nritems leaf] st None = Ok scan"
    by (auto simp: outcome_simps split: option.splits)
  with unfolded False that(2) [OF hit scan] show thesis
    by (cases scan) (auto split: option.splits)
qed

lemma extent_scan_loop_keeps:
  assumes "items_keep body keep"
  shows "keep st \<Longrightarrow> extent_scan_loop P cm ns root body full oid t st = Ok st' \<Longrightarrow> keep st'"
proof (induction "scan_measure t" arbitrary: t st rule: less_induct)
  case less
  from less.prems(2) show ?case
  proof (cases rule: extent_scan_loop_OkE)
    case (2 leaf idx scan)
    have kept: "keep (scan_state scan)" using extent_leaf_scan_keeps [OF assms less.prems(1) 2(2)] .
    from 2(3) show ?thesis
    proof (elim disjE exE conjE)
      fix st1 t' assume scan: "scan = Continue st1 (Some t')"
        and rest: "extent_scan_loop P cm ns root body full oid t' st1 = Ok st'"
      have "scan_measure t' < scan_measure t"
        using extent_leaf_scan_progress [OF 2(1) 2(2) [unfolded scan]] .
      from less.hyps [OF this _ rest] kept scan show ?thesis by simp
    qed (use kept in simp)
  qed (use less.prems in simp)
qed

section \<open>Lengths\<close>

lemma read_file_at_item_keeps:
  "items_keep (read_file_at_item P C cm ss offset) (\<lambda>(acc, rest). length acc + length rest = n)"
  unfolding items_keep_def read_file_at_item_def
  by (auto simp: outcome_simps Let_def split: if_splits dest!: copy_extent_slice_length)

lemma read_file_length:
  assumes "read_file P C cm g root oid = Ok bs"
  shows "\<exists>md. read_metadata P cm (gm_nodesize g) root oid = Ok md \<and> is_file md \<and> length bs = unat (md_size md)"
  using assms
  by (auto simp: read_file_def finalize_def vec_resize_def outcome_simps Let_def split: if_splits)

lemma read_file_at_length:
  assumes "read_file_at P C cm g root oid offset buf = Ok (n, buf')" and "length buf < 2 ^ 64"
  shows "length buf' = length buf \<and> n \<le> length buf \<and> drop n buf' = drop n buf \<and>
    (buf \<noteq> [] \<longrightarrow> (\<exists>md. read_metadata P cm (gm_nodesize g) root oid = Ok md \<and> is_file md \<and>
       n = min (length buf) (unat (md_size md) - unat offset)))"
proof (cases "buf = []")
  case False
  with assms(1) [unfolded read_file_at_eq [OF assms(2)]] obtain md where
    md: "read_metadata P cm (gm_nodesize g) root oid = Ok md" "is_file md"
    by (auto simp: outcome_simps split: if_splits)
  define want where "want = min (length buf) (unat (md_size md) - unat offset)"
  show ?thesis
  proof (cases "md_size md \<le> offset")
    case True
    with assms(1) [unfolded read_file_at_eq [OF assms(2)]] False md show ?thesis
      by (auto simp: word_le_nat_alt)
  next
    case past: False
    with assms(1) [unfolded read_file_at_eq [OF assms(2)]] False md obtain acc rest where
      scan: "extent_scan P cm (gm_nodesize g) root (read_file_at_item P C cm (gm_sectorsize g) offset)
        (\<lambda>(acc, rest). rest = []) oid ([], take want buf) = Ok (acc, rest)"
      and out: "n = length acc + length rest" "buf' = acc @ replicate (length rest) 0 @ drop want buf"
      by (auto simp: outcome_simps Let_def want_def)
    from scan have "case (acc, rest) of (acc, rest) \<Rightarrow> length acc + length rest = want"
      unfolding extent_scan_def
      by (rule extent_scan_loop_keeps [OF read_file_at_item_keeps, rotated]) (simp add: want_def)
    with out md False show ?thesis by (auto simp: want_def)
  qed
qed (use assms in \<open>auto simp: read_file_at_eq\<close>)

section \<open>Property\<close>

text \<open>
  C22. Lengths, on any device contents, well-formed or not: a whole-file read that succeeds returns as many
  bytes as the inode's size, and a read at an offset that succeeds keeps the length of the caller's
  buffer, reports the smaller of the buffer and what the file holds from the offset on, and leaves every
  byte after that count untouched.
\<close>

theorem file_read_lengths:
  assumes "length buf < 2 ^ 64"
  shows "(read_file P C cm g root oid = Ok bs \<longrightarrow>
      (\<exists>md. read_metadata P cm (gm_nodesize g) root oid = Ok md \<and> is_file md \<and>
         length bs = unat (md_size md))) \<and>
    (read_file_at P C cm g root oid offset buf = Ok (n, buf') \<longrightarrow>
      length buf' = length buf \<and> n \<le> length buf \<and> drop n buf' = drop n buf \<and>
      (buf \<noteq> [] \<longrightarrow> (\<exists>md. read_metadata P cm (gm_nodesize g) root oid = Ok md \<and> is_file md \<and>
         n = min (length buf) (unat (md_size md) - unat offset))))"
  using read_file_length [of P C cm g root oid bs] read_file_at_length [OF _ assms, of P C cm g root oid offset n buf']
  by blast

theorem file_read_lengths_witness:
  "\<exists>md. read_metadata fsP flat_map (gm_nodesize example_geometry) 0 257 = Ok md \<and> is_file md \<and>
     2 = unat (md_size md) \<and> 1 = min 3 (unat (md_size md) - 1)"
proof -
  have "read_file fsP stored_codecs flat_map example_geometry 0 257 = Ok [0x68, 0x69]"
    by (subst read_file_bytes [OF _ flat_map_wf example_volume _ example_is_file _ _ example_file_extents])
      (simp_all add: example_fs_tree example_read_metadata example_size isize_max_def example_alloc file_bytes_def
        upt_rec)
  moreover have "read_file_at fsP stored_codecs flat_map example_geometry 0 257 1 [7, 7, 7] = Ok (1, [0x69, 7, 7])"
    by (subst read_file_at_bytes [OF _ flat_map_wf example_volume _ example_is_file _ example_file_extents])
      (simp_all add: example_fs_tree example_read_metadata example_size file_bytes_def upt_rec Let_def)
  ultimately show ?thesis
    using file_read_lengths [of "[7, 7, 7]" fsP stored_codecs flat_map example_geometry 0 257 "[0x68, 0x69]" 1 1
        "[0x69, 7, 7]"] by auto
qed

end
