(* ===== verification/Buffers.thy ===== *)
theory Buffers
  imports Superblock
begin

text \<open>
  Writing into fixed buffers: \<^verbatim>\<open>buf[a..b].copy_from_slice(bytes)\<close> and \<^verbatim>\<open>buf[i] = byte\<close>, with the panics of
  the slice operations. The unit tests of the crate build their superblocks, tree blocks and volumes with
  these, so they are the write side of the format as the repository has it.
\<close>

section \<open>Slice assignment\<close>

definition write_slice :: "u8 list \<Rightarrow> nat \<Rightarrow> nat \<Rightarrow> u8 list \<Rightarrow> u8 list outcome" where
  "write_slice buf start stop bs =
    (if start \<le> stop \<and> stop \<le> length buf \<and> length bs = stop - start
     then Ok (take start buf @ bs @ drop stop buf) else Panic)"

definition write_byte :: "u8 list \<Rightarrow> nat \<Rightarrow> u8 \<Rightarrow> u8 list outcome" where
  "write_byte buf i b = (if i < length buf then Ok (buf[i := b]) else Panic)"

text \<open>A sequence of slice assignments.\<close>

primrec write_all :: "u8 list \<Rightarrow> (nat \<times> nat \<times> u8 list) list \<Rightarrow> u8 list outcome" where
  "write_all buf [] = Ok buf"
| "write_all buf (w # ws) =
     obind (case w of (start, stop, bs) \<Rightarrow> write_slice buf start stop bs) (\<lambda>buf. write_all buf ws)"

text \<open>\<^verbatim>\<open>vec![0u8; n]\<close>: a capacity above \<^verbatim>\<open>isize::MAX\<close> panics.\<close>

definition vec_zeroed :: "nat \<Rightarrow> u8 list outcome" where
  "vec_zeroed n = (if n > isize_max then Panic else Ok (replicate n 0))"

text \<open>\<^verbatim>\<open>Result::unwrap\<close>.\<close>

primrec unwrap :: "'a outcome \<Rightarrow> 'a outcome" where
  "unwrap (Ok x) = Ok x"
| "unwrap (Err e) = Panic"
| "unwrap Panic = Panic"

text \<open>Assignments inside a run of zeros, as the builders make them.\<close>

lemma write_slice_in:
  "length A = start \<Longrightarrow> length bs = stop - start \<Longrightarrow> start \<le> stop \<Longrightarrow> stop - start \<le> length Z \<Longrightarrow>
   write_slice (A @ Z @ C) start stop bs = Ok (A @ bs @ drop (stop - start) Z @ C)"
  by (auto simp: write_slice_def)

lemma write_byte_in: "length A = i \<Longrightarrow> write_byte (A @ z # C) i b = Ok (A @ b # C)"
  by (auto simp: write_byte_def)

section \<open>The superblock builders (tests of src/superblock.rs)\<close>

text \<open>
  The checksum of the body in the first four bytes. \<open>crc\<close> is the function of the \<^verbatim>\<open>crc\<close> package, a parameter
  as everywhere.
\<close>

definition write_csum :: "(u8 list \<Rightarrow> u32) \<Rightarrow> u8 list \<Rightarrow> u8 list outcome" where
  "write_csum crc buf =
     obind (slice buf CSUM_LEN (length buf)) (\<lambda>body. write_slice buf 0 4 (le_bytes (crc body)))"

definition build_minimal_valid_sb :: "(u8 list \<Rightarrow> u32) \<Rightarrow> u8 list outcome" where
  "build_minimal_valid_sb crc =
     obind (write_all (replicate SUPERBLOCK_SIZE 0)
       [(CSUM_LEN, CSUM_LEN + FSID_LEN, replicate FSID_LEN 0xAA),
        (48, 56, le_bytes SUPERBLOCK_PRIMARY_OFFSET),
        (64, 72, le_bytes BTRFS_MAGIC),
        (72, 80, le_bytes (1 :: u64)),
        (80, 88, le_bytes (0x100000 :: u64)),
        (88, 96, le_bytes (0x200000 :: u64)),
        (96, 104, le_bytes (0 :: u64)),
        (112, 120, le_bytes (push_bit 30 1 :: u64)),
        (120, 128, le_bytes (push_bit 20 1 :: u64)),
        (128, 136, le_bytes (6 :: u64)),
        (136, 144, le_bytes (1 :: u64)),
        (144, 148, le_bytes (4096 :: u32)),
        (148, 152, le_bytes (16384 :: u32)),
        (152, 156, le_bytes (16384 :: u32)),
        (156, 160, le_bytes (4096 :: u32)),
        (160, 164, le_bytes (0 :: u32)),
        (164, 172, le_bytes (1 :: u64)),
        (172, 180, le_bytes (0 :: u64)),
        (180, 188, le_bytes (0 :: u64)),
        (188, 196, le_bytes (0 :: u64))]) (write_csum crc)"

definition device_with_primary :: "u8 list \<Rightarrow> u8 list outcome" where
  "device_with_primary sb_bytes =
     obind (vec_zeroed (as_usize SUPERBLOCK_PRIMARY_OFFSET + SUPERBLOCK_SIZE)) (\<lambda>device.
     write_slice device (as_usize SUPERBLOCK_PRIMARY_OFFSET) (length device) sb_bytes)"

definition with_incompat :: "(u8 list \<Rightarrow> u32) \<Rightarrow> u64 \<Rightarrow> u8 list outcome" where
  "with_incompat crc bits =
     obind (build_minimal_valid_sb crc) (\<lambda>sb_bytes.
     obind (write_slice sb_bytes 188 196 (le_bytes bits)) (write_csum crc))"

text \<open>The bytes after the checksum field that the builders arrive at.\<close>

definition minimal_body :: "u64 \<Rightarrow> u8 list" where
  "minimal_body bits =
     replicate 16 0xAA @ le_bytes SUPERBLOCK_PRIMARY_OFFSET @ replicate 8 0 @ le_bytes BTRFS_MAGIC
     @ le_bytes (1 :: u64) @ le_bytes (0x100000 :: u64) @ le_bytes (0x200000 :: u64) @ replicate 16 0
     @ le_bytes (push_bit 30 1 :: u64) @ le_bytes (push_bit 20 1 :: u64) @ le_bytes (6 :: u64)
     @ le_bytes (1 :: u64) @ le_bytes (4096 :: u32) @ le_bytes (16384 :: u32) @ le_bytes (16384 :: u32)
     @ le_bytes (4096 :: u32) @ replicate 4 0 @ le_bytes (1 :: u64) @ replicate 16 0 @ le_bytes bits
     @ replicate 3900 0"

lemma length_minimal_body [simp]: "length (minimal_body bits) = 4064"
  by (simp add: minimal_body_def)

lemma le_bytes_zero [simp]: "le_bytes (0 :: 'a::len word) = replicate (LENGTH('a) div 8) 0"
proof -
  have "nat_le_bytes n 0 = replicate n 0" for n by (induction n) simp_all
  then show ?thesis by (simp add: le_bytes_def)
qed

lemma write_csum_body:
  "length head = 32 \<Longrightarrow> drop 4 head = replicate 28 0 \<Longrightarrow>
   write_csum crc (head @ body) = Ok (le_bytes (crc body) @ replicate 28 0 @ body)"
  by (simp add: write_csum_def slice_def write_slice_def CSUM_LEN_def)

lemma build_minimal_valid_sb_eq:
  "build_minimal_valid_sb crc = Ok (le_bytes (crc (minimal_body 0)) @ replicate 28 0 @ minimal_body 0)"
proof -
  have "build_minimal_valid_sb crc = write_csum crc (replicate 32 0 @ minimal_body 0)"
    by (simp add: build_minimal_valid_sb_def write_slice_def minimal_body_def format_consts replicate_append_same
        flip: replicate_add)
  then show ?thesis by (simp add: write_csum_body)
qed

lemma with_incompat_eq:
  "with_incompat crc bits = Ok (le_bytes (crc (minimal_body bits)) @ replicate 28 0 @ minimal_body bits)"
proof -
  let ?csum = "le_bytes (crc (minimal_body 0)) @ replicate 28 0"
  have "write_slice (?csum @ minimal_body 0) 188 196 (le_bytes bits) = Ok (?csum @ minimal_body bits)"
    by (simp add: write_slice_def minimal_body_def)
  then show ?thesis
    using write_csum_body [of ?csum crc "minimal_body bits"]
    by (simp add: with_incompat_def build_minimal_valid_sb_eq)
qed

section \<open>Loading what they build\<close>

definition incompat_sb :: "(u8 list \<Rightarrow> u32) \<Rightarrow> u64 \<Rightarrow> u8 list" where
  "incompat_sb crc bits = le_bytes (crc (minimal_body bits)) @ replicate 28 0 @ minimal_body bits"

lemma length_incompat_sb [simp]: "length (incompat_sb crc bits) = 4096"
  by (simp add: incompat_sb_def)

lemma incompat_sb_fields:
  "sb_magic (superblock_of (incompat_sb crc bits)) = BTRFS_MAGIC"
  "sb_csum_type (superblock_of (incompat_sb crc bits)) = 0"
  "sb_incompat_flags (superblock_of (incompat_sb crc bits)) = bits"
  "sb_sectorsize (superblock_of (incompat_sb crc bits)) = 4096"
  "sb_nodesize (superblock_of (incompat_sb crc bits)) = 16384"
  "sb_csum (superblock_of (incompat_sb crc bits)) = le_bytes (crc (minimal_body bits)) @ replicate 28 0"
  by (simp_all add: superblock_of_def incompat_sb_def minimal_body_def le_field_def from_le_bytes_le_bytes
      layout CSUM_LEN_def)

lemma device_with_primary_eq:
  "length sb = 4096 \<Longrightarrow> device_with_primary sb = Ok (replicate 0x10000 0 @ sb)"
  by (simp add: device_with_primary_def vec_zeroed_def write_slice_def isize_max_def format_consts)

lemma four_bytes: "length bs = 4 \<Longrightarrow> [bs ! 0, bs ! Suc 0, bs ! 2, bs ! 3] = bs"
  by (rule nth_equalityI) (auto simp: less_Suc_eq numeral_eq_Suc)

lemma verify_stored_crc:
  "verify_crc32c P body (le_bytes (pf_crc32c P body) @ rest)"
  using from_le_bytes_le_bytes [of "pf_crc32c P body"] four_bytes [of "le_bytes (pf_crc32c P body)"]
  by (simp add: verify_crc32c_def crc32c_def nth_append)

text \<open>What the feature check makes of one value of the flags.\<close>

definition incompat_verdict :: "u64 \<Rightarrow> string option" where
  "incompat_verdict bits =
    (if bits AND NOT IncompatFlags_all \<noteq> 0 then Some ''feat_unknown_incompat''
     else if bits AND INCOMPAT_ZONED \<noteq> 0 then Some ''feat_zoned''
     else if bits AND INCOMPAT_RAID_STRIPE_TREE \<noteq> 0 then Some ''feat_raid_stripe_tree''
     else if bits AND INCOMPAT_REMAP_TREE \<noteq> 0 then Some ''feat_remap_tree''
     else None)"

lemma flags_contain_rejected:
  assumes "f \<in> {INCOMPAT_ZONED, INCOMPAT_RAID_STRIPE_TREE, INCOMPAT_REMAP_TREE}"
  shows "flags_contain (w AND IncompatFlags_rejected) f \<longleftrightarrow> w AND f \<noteq> 0"
proof
  assume "flags_contain (w AND IncompatFlags_rejected) f"
  moreover from assms have "IncompatFlags_rejected AND f = f" by (auto simp: format_consts)
  ultimately have "w AND f = f" by (simp add: flags_contain_def and.assoc)
  with assms show "w AND f \<noteq> 0" by (auto simp: format_consts)
next
  assume "w AND f \<noteq> 0"
  with flag_clear [OF _ assms] show "flags_contain (w AND IncompatFlags_rejected) f" by blast
qed

lemma incompat_load:
  "superblock_load (slice_platform (replicate 0x10000 0 @ incompat_sb crc bits) crc alloc) 0x11000 =
    (case incompat_verdict bits of
       Some token \<Rightarrow> Err (UnsupportedFeature token)
     | None \<Rightarrow> Ok (superblock_of (incompat_sb crc bits)))"
proof -
  let ?img = "replicate 0x10000 0 @ incompat_sb crc bits" and ?sb = "superblock_of (incompat_sb crc bits)"
  let ?P = "slice_platform ?img crc alloc"
  have "length ?img \<le> usize_max" by (simp add: usize_max_def)
  then have "reader_read ?P 0x10000 4096 = Some (incompat_sb crc bits)"
    by (subst reader_read_slice_platform) simp_all
  moreover have "drop 32 (incompat_sb crc bits) = minimal_body bits" by (simp add: incompat_sb_def)
  moreover have "is_pow2_in_range 4096 4096 65536" "is_pow2_in_range 16384 4096 65536"
    by (simp_all add: is_pow2_in_range_def is_power_of_two_def upt_rec)
  moreover have "verify_crc32c ?P (minimal_body bits) (le_bytes (crc (minimal_body bits)) @ replicate 28 0)"
    using verify_stored_crc [of ?P "minimal_body bits"] by (simp add: slice_platform_def)
  ultimately have "try_load_one ?P 0x10000 =
      Ok (case incompat_verdict bits of Some token \<Rightarrow> CopyUnsupportedIncompat token | None \<Rightarrow> CopyValid ?sb)"
    by (simp add: try_load_one_def superblock_parse_eq slice_def incompat_sb_fields Let_def
        flags_contain_rejected incompat_verdict_def MIN_SECTOR_SIZE_def MAX_SECTOR_SIZE_def MIN_NODE_SIZE_def
        MAX_NODE_SIZE_def SUPERBLOCK_SIZE_def body_offset_for_csum_def CSUM_LEN_def CSUM_TYPE_CRC32C_def
        CSUM_TYPE_XXHASH_def CSUM_TYPE_SHA256_def CSUM_TYPE_BLAKE2_def)
  then show ?thesis
    by (simp add: superblock_load_def SUPERBLOCK_OFFSETS_def split: option.split)
qed

section \<open>Property\<close>

text \<open>
  C20. The feature check is exact for every value of the 64 incompatible-feature bits: the superblock that
  the crate's tests build with those bits is loaded with them when all bits are known and none is refused,
  and otherwise refused with the token of the first check that applies (unknown bits before the known
  refused ones), whatever the checksum function.
\<close>

theorem incompat_gate_exact:
  "\<exists>device. obind (with_incompat crc bits) device_with_primary = Ok device \<and>
     (case incompat_verdict bits of
        Some token \<Rightarrow>
          superblock_load (slice_platform device crc alloc) (word_of_nat (length device)) =
            Err (UnsupportedFeature token)
      | None \<Rightarrow> \<exists>sb. superblock_load (slice_platform device crc alloc) (word_of_nat (length device)) = Ok sb \<and>
          sb_incompat_flags sb = bits \<and> sb_nodesize sb = 16384)"
  by (intro exI [of _ "replicate 0x10000 0 @ incompat_sb crc bits"])
    (simp add: with_incompat_eq device_with_primary_eq incompat_load incompat_sb_fields
      flip: incompat_sb_def split: option.split)

end
