(* ===== verification/Client.thy ===== *)
theory Client
  imports Mount_Image Read_Bounds Buffers
begin

text \<open>
  Clients of the public interface, as the fixture tests (\<^verbatim>\<open>tests/fixtures.rs\<close>) and the README use it: a file is
  read in chunks at growing offsets until a read returns nothing. The loop is a partial function; it is
  shown to end on every device, and to deliver the contents of the file.
\<close>

section \<open>Reading in chunks\<close>

text \<open>
  The loop of \<^verbatim>\<open>read_chunked\<close>: \<open>None\<close> would be a loop that does not end, \<open>Some Panic\<close> a failed \<^verbatim>\<open>unwrap\<close>.
\<close>

partial_function (option) read_chunked_loop ::
  "codecs \<Rightarrow> btrfs \<Rightarrow> inode \<Rightarrow> u8 list \<Rightarrow> u8 list \<Rightarrow> u8 list outcome option" where
  "read_chunked_loop C fs inode chunk out =
    (case unwrap (btrfs_read_file_at C fs inode (word_of_nat (length out)) chunk) of
       Ok (n, chunk) \<Rightarrow>
         if n = 0 then Some (Ok out)
         else (case slice chunk 0 n of
             Ok bytes \<Rightarrow> read_chunked_loop C fs inode chunk (out @ bytes)
           | _ \<Rightarrow> Some Panic)
     | _ \<Rightarrow> Some Panic)"

definition read_chunked :: "codecs \<Rightarrow> btrfs \<Rightarrow> u8 list \<Rightarrow> u8 list outcome option" where
  "read_chunked C fs path =
    (case path_new path of
       None \<Rightarrow> Some Panic
     | Some p \<Rightarrow>
    (case unwrap (btrfs_resolve fs p) of
       Ok inode \<Rightarrow> read_chunked_loop C fs inode (replicate 65536 0) []
     | _ \<Rightarrow> Some Panic))"

lemma chunk_slice: "n \<le> length chunk \<Longrightarrow> slice chunk 0 n = Ok (take n chunk)"
  by (simp add: slice_def)

text \<open>On any device the loop ends: a read that returns something moves the offset towards the size.\<close>

lemma read_chunked_loop_returns:
  assumes "0 < length chunk" and "length chunk < 2 ^ 64"
    and "\<And>md. btrfs_metadata fs ino = Ok md \<Longrightarrow> length out \<le> unat (md_size md)" and "length out < 2 ^ 64"
  shows "\<exists>r. read_chunked_loop C fs ino chunk out = Some r \<and>
    (case r of Ok bs \<Rightarrow> \<exists>md. btrfs_metadata fs ino = Ok md \<and> is_file md \<and> length bs = unat (md_size md)
     | Err _ \<Rightarrow> False | Panic \<Rightarrow> True)"
  using assms
proof (induction "2 ^ 64 - length out" arbitrary: chunk out rule: less_induct)
  case less
  have off: "unat (word_of_nat (length out) :: u64) = length out"
    using less.prems(4) by (intro unat_word_of_nat_small) simp
  show ?case
  proof (cases "btrfs_read_file_at C fs ino (word_of_nat (length out)) chunk")
    case (Ok r)
    obtain n chunk' where r: "r = (n, chunk')" by fastforce
    from read_file_at_length [OF Ok [unfolded btrfs_read_file_at_def r] less.prems(2)] less.prems(1) off
    obtain md where md: "btrfs_metadata fs ino = Ok md" "is_file md"
      and n: "n = min (length chunk) (unat (md_size md) - length out)" "length chunk' = length chunk" "n \<le> length chunk"
      by (auto simp: btrfs_metadata_def)
    note le = less.prems(3) [OF md(1)]
    show ?thesis
    proof (cases "n = 0")
      case True
      with n less.prems(1) le have "length out = unat (md_size md)" by linarith
      with True Ok md show ?thesis by (subst read_chunked_loop.simps) (simp add: r)
    next
      case False
      have len: "length (out @ take n chunk') = length out + n" using n by simp
      have bound: "length out + n \<le> unat (md_size md)" using n(1) le by linarith
      have size: "unat (md_size md) < 2 ^ 64" by simp
      have "\<exists>r. read_chunked_loop C fs ino chunk' (out @ take n chunk') = Some r \<and>
        (case r of Ok bs \<Rightarrow> \<exists>md. btrfs_metadata fs ino = Ok md \<and> is_file md \<and> length bs = unat (md_size md)
         | Err _ \<Rightarrow> False | Panic \<Rightarrow> True)"
      proof (rule less.hyps)
        show "2 ^ 64 - length (out @ take n chunk') < 2 ^ 64 - length out" using len False less.prems(4) by linarith
        show "length (out @ take n chunk') < 2 ^ 64" using len bound size by linarith
        show "length (out @ take n chunk') \<le> unat (md_size md')" if "btrfs_metadata fs ino = Ok md'" for md'
          using that md(1) len bound by simp
      qed (use less.prems n in simp_all)
      with False Ok n(2,3) show ?thesis by (subst read_chunked_loop.simps) (simp add: r chunk_slice)
    qed
  qed (subst read_chunked_loop.simps, simp)+
qed

text \<open>On a file whose extents are laid out, it has read the contents up to the offset.\<close>

lemma read_chunked_loop_contents:
  assumes tree: "tree_ok (bt_reader fs) (bt_chunk_map fs) (gm_nodesize (bt_geometry fs)) (ino_tree_root ino)"
    and wf: "chunk_map_wf (bt_chunk_map fs)" and vol: "reads_volume (bt_reader fs) img"
    and md: "btrfs_metadata fs ino = Ok md" "is_file md"
    and ext: "file_extents (bt_reader fs) C (bt_chunk_map fs) (bt_geometry fs) (ino_tree_root ino) (ino_objectid ino) es"
      "laid_out 0 es"
  shows "0 < length chunk \<Longrightarrow> length chunk < 2 ^ 64 \<Longrightarrow> pos \<le> unat (md_size md) \<Longrightarrow>
    read_chunked_loop C fs ino chunk (file_bytes es 0 pos) = Some (Ok (file_bytes es 0 (unat (md_size md))))"
proof (induction "unat (md_size md) - pos" arbitrary: chunk pos rule: less_induct)
  case less
  let ?size = "unat (md_size md)"
  define n where "n = min (length chunk) (?size - pos)"
  have off: "unat (word_of_nat pos :: u64) = pos" using less.prems(3) by (rule unat_of_nat_le)
  have read: "btrfs_read_file_at C fs ino (word_of_nat pos) chunk = Ok (n, file_bytes es pos (pos + n) @ drop n chunk)"
    using read_file_at_bytes [OF tree wf vol md(1) [unfolded btrfs_metadata_def] md(2) less.prems(2) ext, of "word_of_nat pos"]
    by (simp add: btrfs_read_file_at_def off Let_def n_def)
  show ?case
  proof (cases "n = 0")
    case True
    with less.prems have "pos = ?size" by (auto simp: n_def min_def split: if_splits)
    with True read show ?thesis by (subst read_chunked_loop.simps) simp
  next
    case False
    let ?chunk = "file_bytes es pos (pos + n) @ drop n chunk"
    have n: "n \<le> ?size - pos" "n \<le> length chunk" by (simp_all add: n_def)
    have "read_chunked_loop C fs ino ?chunk (file_bytes es 0 (pos + n)) = Some (Ok (file_bytes es 0 ?size))"
    proof (rule less.hyps)
      show "?size - (pos + n) < ?size - pos" using False n(1) by linarith
      show "pos + n \<le> ?size" using n(1) less.prems(3) by linarith
    qed (use n less.prems in simp_all)
    moreover have "file_bytes es 0 (pos + n) = file_bytes es 0 pos @ file_bytes es pos (pos + n)"
      by (rule file_bytes_split) simp_all
    moreover have "slice ?chunk 0 n = Ok (file_bytes es pos (pos + n))" by (simp add: slice_def)
    ultimately show ?thesis
      using False read by (subst read_chunked_loop.simps) simp
  qed
qed

section \<open>What a client may call\<close>

lemma opened_wf: "btrfs_open P size_bytes = Ok fs \<Longrightarrow> fs_wf fs"
  using open_mounts [of P size_bytes fs] mount_establishes by (metis fs_wf_root)

lemma opened_operations_safe:
  assumes "fs_wf fs" and "codecs_ok C"
  shows "btrfs_resolve fs p \<noteq> Panic" "btrfs_read_file C fs p \<noteq> Panic" "btrfs_read_link C fs p \<noteq> Panic"
    "btrfs_read_dir fs p \<noteq> Panic" "btrfs_metadata fs ino \<noteq> Panic"
  using read_file_safe [OF assms(2) fs_wf_sectorsize [OF assms(1)]]
    read_link_safe [OF assms(2) fs_wf_sectorsize [OF assms(1)]]
  by (auto simp: btrfs_read_file_def btrfs_read_link_def btrfs_resolve_def btrfs_read_dir_def btrfs_metadata_def
      obind_Panic_iff resolve_path_safe read_dir_safe read_metadata_safe)

text \<open>Opening, which every client begins with.\<close>

lemma open_safe:
  assumes "\<And>sb. superblock_load P size_bytes = Ok sb \<Longrightarrow> unat (sb_sys_chunk_array_size sb) \<le> 2048"
  shows "btrfs_open P size_bytes \<noteq> Panic"
  using mount_safe [OF assms] by (auto simp: btrfs_open_def obind_Panic_iff resolve_default_subvol_safe)

section \<open>Properties\<close>

text \<open>
  C23. Reading a file in chunks always ends, on any device contents, well-formed or not: either a read is
  refused (and the test's \<^verbatim>\<open>unwrap\<close> panics), or the loop returns after delivering exactly as many bytes as
  the inode's size.
\<close>

theorem read_chunked_returns:
  "\<exists>r. read_chunked C fs path = Some r \<and>
    (case r of
       Ok bs \<Rightarrow> \<exists>p ino md. path_new path = Some p \<and> btrfs_resolve fs p = Ok ino \<and> btrfs_metadata fs ino = Ok md \<and> is_file md \<and>
         length bs = unat (md_size md)
     | Err _ \<Rightarrow> False
     | Panic \<Rightarrow> True)"
proof (cases "path_new path")
  case None
  then show ?thesis by (simp add: read_chunked_def)
next
  case (Some p)
  show ?thesis
  proof (cases "btrfs_resolve fs p")
    case (Ok ino)
    from read_chunked_loop_returns [of "replicate 65536 0" fs ino "[]" C] obtain r where
    "read_chunked_loop C fs ino (replicate 65536 0) [] = Some r"
    "case r of Ok bs \<Rightarrow> \<exists>md. btrfs_metadata fs ino = Ok md \<and> is_file md \<and> length bs = unat (md_size md)
     | Err _ \<Rightarrow> False | Panic \<Rightarrow> True"
    by auto
    with Ok Some show ?thesis by (cases r) (auto simp: read_chunked_def)
  qed (simp_all add: read_chunked_def Some)
qed

text \<open>
  C11. Reading in chunks is reading as a whole. Whatever the size of the client's buffer, the loop delivers
  the contents of a file whose extents are laid out in order; where \<^verbatim>\<open>read_file\<close> accepts the layout (no
  extent that it gets to starts past the end) and has the memory, both results are the same.
\<close>

theorem read_chunked_matches_read_file:
  assumes "path_new name = Some path" and "btrfs_resolve fs path = Ok ino"
    and "tree_ok (bt_reader fs) (bt_chunk_map fs) (gm_nodesize (bt_geometry fs)) (ino_tree_root ino)"
    and "chunk_map_wf (bt_chunk_map fs)" and "reads_volume (bt_reader fs) img"
    and "btrfs_metadata fs ino = Ok md" and "is_file md"
    and "file_extents (bt_reader fs) C (bt_chunk_map fs) (bt_geometry fs) (ino_tree_root ino) (ino_objectid ino) es"
    and "laid_out 0 es" and "0 < length buf" and "length buf < 2 ^ 64"
  shows "read_chunked_loop C fs ino buf [] = Some (Ok (file_bytes es 0 (unat (md_size md)))) \<and>
    read_chunked C fs name = Some (Ok (file_bytes es 0 (unat (md_size md)))) \<and>
    (within_file (unat (md_size md)) 0 es \<and> unat (md_size md) \<le> isize_max \<and>
       (\<forall>n \<le> unat (md_size md). pf_alloc (bt_reader fs) n) \<longrightarrow>
     read_chunked C fs name = Some (btrfs_read_file C fs path))"
proof -
  have loop: "read_chunked_loop C fs ino chunk [] = Some (Ok (file_bytes es 0 (unat (md_size md))))"
    if "0 < length chunk" "length chunk < 2 ^ 64" for chunk
    using read_chunked_loop_contents [OF assms(3-9) that, of 0] by (simp add: file_bytes_def)
  then have chunked: "read_chunked C fs name = Some (Ok (file_bytes es 0 (unat (md_size md))))"
    by (simp add: read_chunked_def assms(1,2))
  moreover have "btrfs_read_file C fs path = Ok (file_bytes es 0 (unat (md_size md)))"
    if "within_file (unat (md_size md)) 0 es" "unat (md_size md) \<le> isize_max"
      "\<forall>n \<le> unat (md_size md). pf_alloc (bt_reader fs) n"
    using read_file_bytes [OF assms(3-5) assms(6) [unfolded btrfs_metadata_def] assms(7) that(2,3) assms(8,9) that(1)]
    by (simp add: btrfs_read_file_def assms(2))
  ultimately show ?thesis using loop [OF assms(10,11)] by simp
qed

theorem read_chunked_matches_read_file_witness:
  "read_chunked stored_codecs (image_fs [1, 2, 3]) [0x2F, 0x61] = Some (Ok [1, 2, 3])"
proof -
  let ?md = "files_metadata 3 0x81A4" and ?fs = "image_fs [1, 2, 3]"
  have size: "unat (md_size ?md) = 3" by (simp add: files_metadata_def)
  have "btrfs_metadata ?fs \<lparr>ino_subvol = 5, ino_tree_root = 0, ino_objectid = 257\<rparr> = Ok ?md"
    using image_metadata [of "[1, 2, 3]"] by (simp add: btrfs_metadata_def)
  moreover have "is_file ?md" by (simp add: is_file_def files_metadata_def)
  ultimately show ?thesis
    using read_chunked_matches_read_file [OF _ image_resolve, of "[0x2F, 0x61]" "[1, 2, 3]" "image_bytes [1, 2, 3]" ?md stored_codecs
        "[(0, [1, 2, 3])]" "[0]"]
      image_tree(1) [of "[1, 2, 3]"] image_read(3) [of "[1, 2, 3]"] image_extents [of "[1, 2, 3]" stored_codecs]
    by (simp add: flat_map_wf size path_new_def path_a_def path_from_def isize_max_def file_bytes_def upt_rec)
qed

text \<open>
  C32. Operations respect the kind of an inode. A path has at most one kind; \<^verbatim>\<open>read_file\<close> and \<^verbatim>\<open>read_file_at\<close>
  refuse whatever is not a regular file with \<^verbatim>\<open>NotARegularFile\<close>, and \<^verbatim>\<open>read_link\<close> whatever is not a symlink with
  \<^verbatim>\<open>NotASymlink\<close>, so that no path can be read both as a file and as a link.
\<close>

theorem operations_respect_kinds:
  assumes "btrfs_resolve fs path = Ok ino" and "btrfs_metadata fs ino = Ok md"
    and "buf \<noteq> []" and "length buf < 2 ^ 64"
  shows "(is_file md \<or> btrfs_read_file C fs path = Err NotARegularFile \<and>
      btrfs_read_file_at C fs ino offset buf = Err NotARegularFile) \<and>
    (is_symlink md \<or> btrfs_read_link C fs path = Err NotASymlink) \<and>
    length (filter (\<lambda>kind. kind md) [is_file, is_dir, is_symlink]) \<le> 1 \<and>
    (btrfs_read_file C fs path = Err NotARegularFile \<or> btrfs_read_link C fs path = Err NotASymlink)"
  using assms kinds_exclusive [of md]
  by (auto simp: btrfs_read_file_def btrfs_read_link_def btrfs_read_file_at_def btrfs_metadata_def read_file_def
      read_link_def read_file_at_eq)

theorem operations_respect_kinds_witness:
  "btrfs_read_link stored_codecs (image_fs [1, 2, 3]) path_a = Err NotASymlink"
proof -
  let ?md = "files_metadata 3 0x81A4" and ?ino = "\<lparr>ino_subvol = 5, ino_tree_root = 0, ino_objectid = 257\<rparr>"
  have "btrfs_metadata (image_fs [1, 2, 3]) ?ino = Ok ?md"
    using image_metadata [of "[1, 2, 3]"] by (simp add: btrfs_metadata_def)
  moreover have "\<not> is_symlink ?md" by (simp add: is_symlink_def files_metadata_def)
  ultimately show ?thesis
    using operations_respect_kinds [OF image_resolve, of "[1, 2, 3]" ?md "[0]" stored_codecs 0] by simp
qed

end
