(* ===== verification/Dir_Names.thy ===== *)
theory Dir_Names
  imports Dir
begin

text \<open>
  Listing and lookup agree. A directory is stored twice: its \<^verbatim>\<open>DIR_INDEX\<close> items list the entries in order, and
  its \<^verbatim>\<open>DIR_ITEM\<close> items hold them packed under the hash of the name. \<^verbatim>\<open>read_dir\<close> reads the first,
  \<^verbatim>\<open>lookup_in_dir\<close> the second; on a directory whose two representations hold the same entries, both operations
  describe one map from names to inodes.
\<close>

abbreviation entry_name :: "dir_entry \<times> u8 list \<Rightarrow> u8 list" where
  "entry_name ed \<equiv> de_name (fst ed)"

text \<open>The directory holds the entries \<open>E\<close>, in both representations.\<close>

definition dir_holds :: "platform \<Rightarrow> trees \<Rightarrow> inode \<Rightarrow> (dir_entry \<times> u8 list) list \<Rightarrow> bool" where
  "dir_holds P T dir E \<longleftrightarrow>
     (let slots = tree_slots P (tr_chunk_map T) (tr_nodesize T) (ino_tree_root dir) in
      list_all2 (\<lambda>s ed. slot_data s = Ok (encode_packed [ed])) (filter (index_slot dir) slots) E \<and>
      list_all (\<lambda>ed. entry_ok ed \<and> \<not> entry_encrypted (fst ed)) E \<and> distinct (map entry_name E) \<and>
      (\<forall>name. case find (\<lambda>s. slot_key s = DiskKey (ino_objectid dir) DIR_ITEM_KEY (name_hash name)) slots of
         None \<Rightarrow> name \<notin> entry_name ` set E
       | Some s \<Rightarrow> \<exists>es. slot_data s = Ok (encode_packed es) \<and>
           set es = {ed \<in> set E. name_hash (entry_name ed) = name_hash name}))"

section \<open>The listing\<close>

lemma list_slots_Ok:
  "list_slots P T dir ss out = Ok out' \<Longrightarrow>
   \<exists>ents. out' = out @ ents \<and> list_all2 (\<lambda>s x. slot_entry P T dir s = Ok x) ss ents"
proof (induction ss arbitrary: out)
  case (Cons s ss)
  then obtain x where x: "slot_entry P T dir s = Ok x" and rest: "list_slots P T dir ss (out @ [x]) = Ok out'"
    by (auto simp: outcome_simps)
  from Cons.IH [OF rest] obtain ents where "out' = (out @ [x]) @ ents"
    "list_all2 (\<lambda>s x. slot_entry P T dir s = Ok x) ss ents" by blast
  with x show ?case by (intro exI [of _ "x # ents"]) simp
qed simp

text \<open>The target of an entry depends on the leaf only in the error it may report.\<close>

lemma entry_target_any_leaf: "entry_target P T dir name loc b = Ok i \<Longrightarrow> entry_target P T dir name loc b' = Ok i"
  by (auto simp: entry_target_def split: if_splits)

definition listed :: "platform \<Rightarrow> trees \<Rightarrow> inode \<Rightarrow> dir_entry \<times> u8 list \<Rightarrow> dir_list_entry \<Rightarrow> bool" where
  "listed P T dir ed x \<longleftrightarrow> dl_name x = entry_name ed \<and>
     (\<forall>b. entry_target P T dir (entry_name ed) (de_location (fst ed)) b = Ok (dl_inode x))"

lemma slot_entry_listed:
  assumes "slot_entry P T dir s = Ok x" and "slot_data s = Ok (encode_packed [ed])"
    and "entry_ok ed" and "\<not> entry_encrypted (fst ed)"
  shows "listed P T dir ed x"
proof -
  obtain e d where ed: "ed = (e, d)" by (cases ed)
  have "slot_entry P T dir s = obind (entry_target P T dir (de_name e) (de_location e) (tb_bytenr (fst s))) (\<lambda>inode.
       Ok \<lparr>dl_name = de_name e, dl_inode_number = key_objectid (de_location e), dl_kind_byte = de_ty e,
           dl_inode = inode\<rparr>)"
    using slot_entry_packed [of s e d P T dir] assms(2-4) by (simp add: ed)
  with assms(1) obtain i where
    "entry_target P T dir (de_name e) (de_location e) (tb_bytenr (fst s)) = Ok i" "dl_name x = de_name e" "dl_inode x = i"
    by (auto simp: obind_Ok_iff)
  then show ?thesis by (auto simp: listed_def ed intro: entry_target_any_leaf)
qed

lemma read_dir_listed:
  assumes "tree_ok P (tr_chunk_map T) (tr_nodesize T) (ino_tree_root dir)" and "dir_holds P T dir E"
    and "read_dir P T dir = Ok ents"
  shows "list_all2 (listed P T dir) E ents"
proof -
  let ?ss = "filter (index_slot dir) (tree_slots P (tr_chunk_map T) (tr_nodesize T) (ino_tree_root dir))"
  from assms(3) have "list_slots P T dir ?ss [] = Ok ents"
    by (simp add: read_dir_slots [OF assms(1)])
  from list_slots_Ok [OF this] have ents: "list_all2 (\<lambda>s x. slot_entry P T dir s = Ok x) ?ss ents" by simp
  from assms(2) have E: "list_all2 (\<lambda>s ed. slot_data s = Ok (encode_packed [ed])) ?ss E"
    "list_all (\<lambda>ed. entry_ok ed \<and> \<not> entry_encrypted (fst ed)) E"
    by (simp_all add: dir_holds_def Let_def)
  show ?thesis
    unfolding list_all2_conv_all_nth
  proof (intro conjI allI impI)
    show "length E = length ents" using ents E(1) by (metis list_all2_lengthD)
    fix i assume i: "i < length E"
    with ents E(1) have "i < length ?ss" by (metis list_all2_lengthD)
    with list_all2_nthD [OF ents] list_all2_nthD [OF E(1)] E(2) i show "listed P T dir (E ! i) (ents ! i)"
      by (intro slot_entry_listed [of P T dir "?ss ! i"]) (simp_all add: list_all_length)
  qed
qed

section \<open>The lookup\<close>

lemma find_entry:
  assumes "distinct (map entry_name E)" and "list_all (\<lambda>ed. \<not> entry_encrypted (fst ed)) E"
    and es: "set es = {ed \<in> set E. name_hash (entry_name ed) = name_hash name}"
  shows "find (\<lambda>e. entry_encrypted e \<or> de_name e = name) (map fst es) =
    map_option fst (find (\<lambda>ed. entry_name ed = name) E)"
proof (cases "find (\<lambda>ed. entry_name ed = name) E")
  case None
  with assms(2) es have "find (\<lambda>e. entry_encrypted e \<or> de_name e = name) (map fst es) = None"
    by (auto simp: find_None_iff list_all_iff)
  with None show ?thesis by simp
next
  case (Some ed)
  then have ed: "ed \<in> set E" "entry_name ed = name" by (auto simp: find_Some_iff)
  with es have "ed \<in> set es" by simp
  then obtain e where e: "find (\<lambda>e. entry_encrypted e \<or> de_name e = name) (map fst es) = Some e"
    using ed(2) by (cases "find (\<lambda>e. entry_encrypted e \<or> de_name e = name) (map fst es)") (auto simp: find_None_iff)
  then have "e \<in> set (map fst es)" "entry_encrypted e \<or> de_name e = name"
    unfolding find_Some_iff by (metis nth_mem, blast)
  then obtain ed' where ed': "ed' \<in> set es" "e = fst ed'" by auto
  with es assms(2) \<open>entry_encrypted e \<or> de_name e = name\<close> have "ed' \<in> set E" "entry_name ed' = name"
    by (auto simp: list_all_iff)
  with ed assms(1) have "ed' = ed" by (metis distinct_map inj_onD)
  with Some e ed' show ?thesis by simp
qed

lemma dir_holds_name:
  "dir_holds P T dir E \<Longrightarrow>
   case find (\<lambda>s. slot_key s = DiskKey (ino_objectid dir) DIR_ITEM_KEY (name_hash name))
     (tree_slots P (tr_chunk_map T) (tr_nodesize T) (ino_tree_root dir)) of
     None \<Rightarrow> name \<notin> entry_name ` set E
   | Some s \<Rightarrow> \<exists>es. slot_data s = Ok (encode_packed es) \<and>
       set es = {ed \<in> set E. name_hash (entry_name ed) = name_hash name}"
  unfolding dir_holds_def Let_def by blast

lemma lookup_in_dir_eq:
  assumes tree: "tree_ok P (tr_chunk_map T) (tr_nodesize T) (ino_tree_root dir)" and E: "dir_holds P T dir E"
  shows "\<exists>b. lookup_in_dir P T dir name =
    (case find (\<lambda>ed. entry_name ed = name) E of
       None \<Rightarrow> Err NotFound
     | Some ed \<Rightarrow> entry_target P T dir name (de_location (fst ed)) b)"
proof (cases "find (\<lambda>s. slot_key s = DiskKey (ino_objectid dir) DIR_ITEM_KEY (name_hash name))
    (tree_slots P (tr_chunk_map T) (tr_nodesize T) (ino_tree_root dir))")
  case None
  with dir_holds_name [OF E, of name] have "name \<notin> entry_name ` set E" by simp
  then have "find (\<lambda>ed. entry_name ed = name) E = None" unfolding find_None_iff by blast
  with None show ?thesis by (simp add: lookup_in_dir_def find_exact_eq [OF tree])
next
  case (Some s)
  with dir_holds_name [OF E, of name] obtain es where es: "slot_data s = Ok (encode_packed es)"
    "set es = {ed \<in> set E. name_hash (entry_name ed) = name_hash name}"
    by auto
  from E have all: "list_all (\<lambda>ed. entry_ok ed \<and> \<not> entry_encrypted (fst ed)) E" "distinct (map entry_name E)"
    by (simp_all add: dir_holds_def Let_def)
  then have ok: "list_all entry_ok es" "list_all (\<lambda>ed. \<not> entry_encrypted (fst ed)) E"
    using es(2) by (auto simp: list_all_iff)
  have "lookup_in_dir P T dir name = choose_entry P T dir name (tb_bytenr (fst s)) (map fst es)"
    using es(1) Some lookup_entry_loop_packed [OF ok(1), of P T dir name "tb_bytenr (fst s)" "[]"]
    by (cases s) (auto simp: lookup_in_dir_def find_exact_eq [OF tree] slot_data_def outcome_simps)
  moreover have "\<not> entry_encrypted (fst ed)" if "find (\<lambda>ed. entry_name ed = name) E = Some ed" for ed
    using that ok(2) by (auto simp: find_Some_iff list_all_length)
  ultimately show ?thesis
    by (intro exI [of _ "tb_bytenr (fst s)"])
      (simp add: choose_entry_def find_entry [OF all(2) ok(2) es(2)] split: option.split)
qed

lemma find_listed:
  "list_all2 (listed P T dir) E ents \<Longrightarrow>
   (case find (\<lambda>ed. entry_name ed = name) E of
      None \<Rightarrow> Err NotFound
    | Some ed \<Rightarrow> entry_target P T dir name (de_location (fst ed)) b) =
   (case find (\<lambda>x. dl_name x = name) ents of None \<Rightarrow> Err NotFound | Some x \<Rightarrow> Ok (dl_inode x))"
  by (induction rule: list_all2_induct) (auto simp: listed_def)

section \<open>Property\<close>

text \<open>
  C12. Listing and looking up are consistent. On a well-formed tree, in a directory whose two
  representations hold the same entries under distinct names, a listing that succeeds has exactly these
  names in order, and for every name, looking it up gives the inode the listing shows under it and
  \<^verbatim>\<open>NotFound\<close> exactly when the listing does not show it.
\<close>

theorem listing_agrees_with_lookup:
  assumes "tree_ok P (tr_chunk_map T) (tr_nodesize T) (ino_tree_root dir)" and "dir_holds P T dir E"
    and "read_dir P T dir = Ok ents"
  shows "map dl_name ents = map (\<lambda>ed. de_name (fst ed)) E \<and>
    (\<forall>name. lookup_in_dir P T dir name =
      (case find (\<lambda>x. dl_name x = name) ents of None \<Rightarrow> Err NotFound | Some x \<Rightarrow> Ok (dl_inode x)))"
proof -
  note listed = read_dir_listed [OF assms]
  have "map dl_name ents = map (\<lambda>ed. de_name (fst ed)) E"
    using listed by (intro nth_equalityI) (auto simp: list_all2_conv_all_nth listed_def)
  moreover have "lookup_in_dir P T dir name =
      (case find (\<lambda>x. dl_name x = name) ents of None \<Rightarrow> Err NotFound | Some x \<Rightarrow> Ok (dl_inode x))" for name
    using lookup_in_dir_eq [OF assms(1,2), of name] find_listed [OF listed, of name] by auto
  ultimately show ?thesis by blast
qed

text \<open>The directory of the example volume.\<close>

lemma example_dir_holds:
  "dir_holds fsP example_trees example_dir [example_entry [0x61] (DiskKey 257 1 0)]"
proof -
  let ?E = "[example_entry [0x61] (DiskKey 257 1 0)]"
  have "entry_name (hd ?E) = [0x61]" "entry_ok (hd ?E)" "\<not> entry_encrypted (fst (hd ?E))"
    by (simp_all add: example_entry_ok) (simp_all add: example_entry_def entry_encrypted_def format_consts)
  moreover have "filter (of_object 256 96) (tree_slots fsP flat_map fsN 0) = [(kv_leaf example_fs, 4)]"
    using example_listing(1) by (simp add: format_consts)
  ultimately show ?thesis
    by (auto simp: dir_holds_def Let_def example_fs_data example_fs_find example_fs_keys format_consts
        split: option.split)
qed

theorem listing_agrees_with_lookup_witness:
  "lookup_in_dir fsP example_trees example_dir [0x61] =
     Ok \<lparr>ino_subvol = 5, ino_tree_root = 0, ino_objectid = 257\<rparr> \<and>
   lookup_in_dir fsP example_trees example_dir [0x62] = Err NotFound"
proof -
  have "read_dir fsP example_trees example_dir = Ok [\<lparr>dl_name = [0x61], dl_inode_number = 257, dl_kind_byte = 1,
        dl_inode = \<lparr>ino_subvol = 5, ino_tree_root = 0, ino_objectid = 257\<rparr>\<rparr>]"
    using read_dir_slots [of fsP example_trees example_dir] example_fs_tree example_listing by simp
  from listing_agrees_with_lookup [OF _ example_dir_holds this] example_fs_tree show ?thesis by simp
qed

end
