(* ===== verification/Abstract_Fs.thy ===== *)
theory Abstract_Fs
  imports Client Dir_Names
begin

text \<open>
  What the public interface promises, without the format: a filesystem is a map from inodes to nodes, a path
  is a walk through the directories, and each operation returns what the map holds. \<open>fs_refines\<close> says that an
  opened filesystem stores such a map; the property shows that every operation of \<^verbatim>\<open>Btrfs\<close> then computes the
  abstract operation of its name.
\<close>

section \<open>The abstract filesystem\<close>

text \<open>A node of a filesystem; \<open>'i\<close> identifies inodes. A directory lists its entries in order.\<close>

datatype 'i node = AFile "u8 list" | ADir "(u8 list \<times> 'i) list" | ALink "u8 list"

type_synonym 'i afs = "'i \<Rightarrow> 'i node option"

definition aentries :: "'i afs \<Rightarrow> 'i \<Rightarrow> (u8 list \<times> 'i) list" where
  "aentries A i = (case A i of Some (ADir E) \<Rightarrow> E | _ \<Rightarrow> [])"

primrec awalk :: "'i afs \<Rightarrow> 'i \<Rightarrow> u8 list list \<Rightarrow> 'i option" where
  "awalk A i [] = Some i"
| "awalk A i (name # names) = Option.bind (map_of (aentries A i) name) (\<lambda>j. awalk A j names)"

definition aresolve :: "'i afs \<Rightarrow> 'i \<Rightarrow> path \<Rightarrow> 'i outcome" where
  "aresolve A root path = ok_or (awalk A root (path_components path)) NotFound"

definition afile :: "'i afs \<Rightarrow> 'i \<Rightarrow> u8 list outcome" where
  "afile A i = (case A i of Some (AFile bytes) \<Rightarrow> Ok bytes | _ \<Rightarrow> Err NotARegularFile)"

definition alink :: "'i afs \<Rightarrow> 'i \<Rightarrow> u8 list outcome" where
  "alink A i = (case A i of Some (ALink target) \<Rightarrow> Ok target | _ \<Rightarrow> Err NotASymlink)"

text \<open>A read at an offset: the count and the buffer, filled as far as the file goes.\<close>

definition afile_at :: "'i afs \<Rightarrow> 'i \<Rightarrow> nat \<Rightarrow> u8 list \<Rightarrow> (nat \<times> u8 list) outcome" where
  "afile_at A i offset buf =
     (if buf = [] then Ok (0, buf)
      else obind (afile A i) (\<lambda>bytes.
        let got = take (length buf) (drop offset bytes) in Ok (length got, got @ drop (length got) buf)))"

fun node_kind :: "'i node \<Rightarrow> metadata \<Rightarrow> bool" where
  "node_kind (AFile bytes) md \<longleftrightarrow> is_file md \<and> unat (md_size md) = length bytes"
| "node_kind (ADir E) md \<longleftrightarrow> is_dir md"
| "node_kind (ALink target) md \<longleftrightarrow> is_symlink md"

lemma awalk_append: "awalk A i (xs @ ys) = Option.bind (awalk A i xs) (\<lambda>j. awalk A j ys)"
  by (induction xs arbitrary: i) (simp_all add: Option.bind_assoc)

section \<open>How a filesystem stores it\<close>

text \<open>The tree an inode is in.\<close>

definition inode_tree :: "btrfs \<Rightarrow> inode \<Rightarrow> slot list" where
  "inode_tree fs i = tree_slots (bt_reader fs) (bt_chunk_map fs) (gm_nodesize (bt_geometry fs)) (ino_tree_root i)"

text \<open>The contents of a regular file are those of its extents.\<close>

definition stores_file :: "codecs \<Rightarrow> btrfs \<Rightarrow> inode \<Rightarrow> u8 list \<Rightarrow> bool" where
  "stores_file C fs i bytes \<longleftrightarrow>
     (\<exists>es. file_extents (bt_reader fs) C (bt_chunk_map fs) (bt_geometry fs) (ino_tree_root i) (ino_objectid i) es \<and>
        laid_out 0 es \<and> within_file (length bytes) 0 es \<and> length bytes \<le> isize_max \<and>
        bytes = file_bytes es 0 (length bytes))"

text \<open>The target of a symlink is the start of its inline extent, unpacked.\<close>

definition stores_link :: "codecs \<Rightarrow> btrfs \<Rightarrow> inode \<Rightarrow> nat \<Rightarrow> u8 list \<Rightarrow> bool" where
  "stores_link C fs i n target \<longleftrightarrow>
     (\<exists>s data header out. find (of_object (ino_objectid i) EXTENT_DATA_KEY) (inode_tree fs i) = Some s \<and>
        slot_data s = Ok data \<and> extent_header data (tb_bytenr (fst s)) = Ok header \<and>
        eh_ty header = FILE_EXTENT_INLINE \<and>
        (if eh_compression header = COMPRESS_NONE then Ok (drop 21 data)
         else decode C (eh_compression header) (drop 21 data) [] (gm_sectorsize (bt_geometry fs))) = Ok out \<and>
        target = take n out)"

text \<open>The entries of a directory, by name, lead to these inodes. What is not a directory has no entries.\<close>

definition stores_entries :: "btrfs \<Rightarrow> inode \<Rightarrow> (u8 list \<times> inode) list \<Rightarrow> bool" where
  "stores_entries fs i E \<longleftrightarrow>
     (\<exists>D. dir_holds (bt_reader fs) (fs_trees fs) i D \<and>
        list_all2 (\<lambda>ed (name, j). entry_name ed = name \<and>
          (\<forall>b. entry_target (bt_reader fs) (fs_trees fs) i name (de_location (fst ed)) b = Ok j)) D E)"

fun stores_node :: "codecs \<Rightarrow> btrfs \<Rightarrow> inode \<Rightarrow> metadata \<Rightarrow> inode node \<Rightarrow> bool" where
  "stores_node C fs i md (AFile bytes) \<longleftrightarrow> stores_file C fs i bytes"
| "stores_node C fs i md (ADir E) \<longleftrightarrow> True"
| "stores_node C fs i md (ALink target) \<longleftrightarrow> stores_link C fs i (unat (md_size md)) target"

definition fs_refines :: "codecs \<Rightarrow> btrfs \<Rightarrow> inode afs \<Rightarrow> bool" where
  "fs_refines C fs A \<longleftrightarrow>
     chunk_map_wf (bt_chunk_map fs) \<and> (\<exists>img. reads_volume (bt_reader fs) img) \<and> (\<forall>n. pf_alloc (bt_reader fs) n) \<and>
     bt_root fs \<in> dom A \<and>
     (\<forall>i nd. A i = Some nd \<longrightarrow>
        tree_ok (bt_reader fs) (bt_chunk_map fs) (gm_nodesize (bt_geometry fs)) (ino_tree_root i) \<and>
        (\<exists>md. btrfs_metadata fs i = Ok md \<and> node_kind nd md \<and> stores_node C fs i md nd) \<and>
        stores_entries fs i (aentries A i) \<and> snd ` set (aentries A i) \<subseteq> dom A)"

lemma fs_refinesD:
  assumes "fs_refines C fs A"
  shows "chunk_map_wf (bt_chunk_map fs)" "\<exists>img. reads_volume (bt_reader fs) img" "pf_alloc (bt_reader fs) n"
    "bt_root fs \<in> dom A"
  using assms by (auto simp: fs_refines_def)

lemma fs_refines_node:
  assumes "fs_refines C fs A" and "A i = Some nd"
  obtains md where
    "tree_ok (bt_reader fs) (bt_chunk_map fs) (gm_nodesize (bt_geometry fs)) (ino_tree_root i)"
    "btrfs_metadata fs i = Ok md" "node_kind nd md" "stores_node C fs i md nd"
    "stores_entries fs i (aentries A i)" "snd ` set (aentries A i) \<subseteq> dom A"
proof -
  from assms have "tree_ok (bt_reader fs) (bt_chunk_map fs) (gm_nodesize (bt_geometry fs)) (ino_tree_root i) \<and>
    (\<exists>md. btrfs_metadata fs i = Ok md \<and> node_kind nd md \<and> stores_node C fs i md nd) \<and>
    stores_entries fs i (aentries A i) \<and> snd ` set (aentries A i) \<subseteq> dom A"
    unfolding fs_refines_def by (elim conjE) simp
  with that show thesis by blast
qed

section \<open>Directories\<close>

lemma fs_trees_sel [simp]:
  "tr_chunk_map (fs_trees fs) = bt_chunk_map fs" "tr_nodesize (fs_trees fs) = gm_nodesize (bt_geometry fs)"
  by (simp_all add: fs_trees_def)

lemma find_stored:
  "list_all2 (\<lambda>ed (name, j). entry_name ed = name \<and> (\<forall>b. entry_target P T i name (de_location (fst ed)) b = Ok j)) D E \<Longrightarrow>
   (case find (\<lambda>ed. entry_name ed = name) D of
      None \<Rightarrow> Err NotFound | Some ed \<Rightarrow> entry_target P T i name (de_location (fst ed)) b) =
   ok_or (map_of E name) NotFound"
  by (induction rule: list_all2_induct) auto

lemma lookup_stored:
  assumes "tree_ok (bt_reader fs) (bt_chunk_map fs) (gm_nodesize (bt_geometry fs)) (ino_tree_root i)"
    and "stores_entries fs i E"
  shows "lookup_in_dir (bt_reader fs) (fs_trees fs) i name = ok_or (map_of E name) NotFound"
proof -
  from assms(2) obtain D where D: "dir_holds (bt_reader fs) (fs_trees fs) i D"
    "list_all2 (\<lambda>ed (name, j). entry_name ed = name \<and>
      (\<forall>b. entry_target (bt_reader fs) (fs_trees fs) i name (de_location (fst ed)) b = Ok j)) D E"
    by (auto simp: stores_entries_def)
  from lookup_in_dir_eq [OF _ D(1), of name] assms(1) find_stored [OF D(2), of name] show ?thesis by auto
qed

lemma list_slots_stored:
  assumes "list_all2 (\<lambda>s ed. slot_data s = Ok (encode_packed [ed])) ss D"
    and "list_all (\<lambda>ed. entry_ok ed \<and> \<not> entry_encrypted (fst ed)) D"
    and "list_all2 (\<lambda>ed (name, j). entry_name ed = name \<and> (\<forall>b. entry_target P T i name (de_location (fst ed)) b = Ok j)) D E"
  shows "\<exists>ents. list_slots P T i ss out = Ok (out @ ents) \<and> map (\<lambda>x. (dl_name x, dl_inode x)) ents = E"
  using assms
proof (induction ss arbitrary: D E out)
  case (Cons s ss)
  then obtain ed D' where D: "D = ed # D'" "slot_data s = Ok (encode_packed [ed])"
    "list_all2 (\<lambda>s ed. slot_data s = Ok (encode_packed [ed])) ss D'"
    by (auto simp: list_all2_Cons1)
  with Cons.prems(3) obtain j E' where E: "E = (entry_name ed, j) # E'"
    "\<And>b. entry_target P T i (entry_name ed) (de_location (fst ed)) b = Ok j"
    "list_all2 (\<lambda>ed (name, j). entry_name ed = name \<and> (\<forall>b. entry_target P T i name (de_location (fst ed)) b = Ok j)) D' E'"
    by (auto simp: list_all2_Cons1)
  let ?x = "\<lparr>dl_name = entry_name ed, dl_inode_number = key_objectid (de_location (fst ed)),
      dl_kind_byte = de_ty (fst ed), dl_inode = j\<rparr>"
  have "slot_entry P T i s = Ok ?x"
    using slot_entry_packed [of s "fst ed" "snd ed" P T i] D Cons.prems(2) E(2) by simp
  moreover from Cons.IH [OF D(3) _ E(3), of "out @ [?x]"] Cons.prems(2) D(1) obtain ents where
    "list_slots P T i ss (out @ [?x]) = Ok ((out @ [?x]) @ ents)" "map (\<lambda>x. (dl_name x, dl_inode x)) ents = E'"
    by auto
  ultimately show ?case using E(1) by (intro exI [of _ "?x # ents"]) simp
qed simp

lemma read_dir_stored:
  assumes "tree_ok (bt_reader fs) (bt_chunk_map fs) (gm_nodesize (bt_geometry fs)) (ino_tree_root i)"
    and "stores_entries fs i E"
  obtains ents where "read_dir (bt_reader fs) (fs_trees fs) i = Ok ents"
    "map (\<lambda>x. (dl_name x, dl_inode x)) ents = E"
proof -
  from assms(2) obtain D where D: "dir_holds (bt_reader fs) (fs_trees fs) i D"
    "list_all2 (\<lambda>ed (name, j). entry_name ed = name \<and>
      (\<forall>b. entry_target (bt_reader fs) (fs_trees fs) i name (de_location (fst ed)) b = Ok j)) D E"
    by (auto simp: stores_entries_def)
  from D(1) have
    "list_all2 (\<lambda>s ed. slot_data s = Ok (encode_packed [ed])) (filter (index_slot i) (inode_tree fs i)) D"
    "list_all (\<lambda>ed. entry_ok ed \<and> \<not> entry_encrypted (fst ed)) D"
    by (simp_all add: dir_holds_def Let_def inode_tree_def)
  from list_slots_stored [OF this D(2), of "[]"] that show ?thesis
    using read_dir_slots [of "bt_reader fs" "fs_trees fs" i] assms(1) by (auto simp: inode_tree_def)
qed

lemma resolve_stored:
  assumes "fs_refines C fs A"
  shows "i \<in> dom A \<Longrightarrow>
    resolve_components (bt_reader fs) (fs_trees fs) i names = ok_or (awalk A i names) NotFound \<and>
    (\<forall>j. awalk A i names = Some j \<longrightarrow> j \<in> dom A)"
proof (induction names arbitrary: i)
  case (Cons name names)
  then obtain nd where "A i = Some nd" by blast
  from fs_refines_node [OF assms this] have
    lookup: "lookup_in_dir (bt_reader fs) (fs_trees fs) i name = ok_or (map_of (aentries A i) name) NotFound"
    and closed: "snd ` set (aentries A i) \<subseteq> dom A"
    by (metis lookup_stored)+
  show ?case
  proof (cases "map_of (aentries A i) name")
    case None
    with lookup show ?thesis by simp
  next
    case (Some j)
    with closed have "j \<in> dom A" using map_of_SomeD [OF Some] by force
    with Some lookup Cons.IH [of j] show ?thesis by simp
  qed
qed simp

section \<open>Files and links\<close>

lemma read_file_stored:
  assumes "fs_refines C fs A" and "i \<in> dom A"
  shows "read_file (bt_reader fs) C (bt_chunk_map fs) (bt_geometry fs) (ino_tree_root i) (ino_objectid i) = afile A i"
proof -
  from assms(2) obtain nd where nd: "A i = Some nd" by blast
  from assms(1) obtain img where vol: "reads_volume (bt_reader fs) img" by (auto dest: fs_refinesD)
  from fs_refines_node [OF assms(1) nd] obtain md where
    tree: "tree_ok (bt_reader fs) (bt_chunk_map fs) (gm_nodesize (bt_geometry fs)) (ino_tree_root i)"
    and md: "btrfs_metadata fs i = Ok md" and kind: "node_kind nd md" and st: "stores_node C fs i md nd" .
  show ?thesis
  proof (cases nd)
    case (AFile bytes)
    with st obtain es where es:
      "file_extents (bt_reader fs) C (bt_chunk_map fs) (bt_geometry fs) (ino_tree_root i) (ino_objectid i) es"
      "laid_out 0 es" "within_file (length bytes) 0 es" "length bytes \<le> isize_max"
      and bytes: "file_bytes es 0 (length bytes) = bytes"
      by (fastforce simp: stores_file_def)
    have f: "is_file md" "unat (md_size md) = length bytes" using kind AFile by simp_all
    from read_file_bytes [OF tree fs_refinesD(1) [OF assms(1)] vol md [unfolded btrfs_metadata_def] f(1) _ _ es(1,2)]
      es(3,4) fs_refinesD(3) [OF assms(1)] f(2) bytes nd AFile
    show ?thesis by (simp add: afile_def)
  qed (use nd md kind kinds_exclusive [of md] in \<open>auto simp: afile_def read_file_def btrfs_metadata_def\<close>)
qed

lemma read_file_at_stored:
  assumes "fs_refines C fs A" and "i \<in> dom A" and "length buf < 2 ^ 64"
  shows "btrfs_read_file_at C fs i offset buf = afile_at A i (unat offset) buf"
proof (cases "buf = []")
  case True
  then show ?thesis by (simp add: btrfs_read_file_at_def read_file_at_eq afile_at_def)
next
  case False
  from assms(2) obtain nd where nd: "A i = Some nd" by blast
  from assms(1) obtain img where vol: "reads_volume (bt_reader fs) img" by (auto dest: fs_refinesD)
  from fs_refines_node [OF assms(1) nd] obtain md where
    tree: "tree_ok (bt_reader fs) (bt_chunk_map fs) (gm_nodesize (bt_geometry fs)) (ino_tree_root i)"
    and md: "btrfs_metadata fs i = Ok md" and kind: "node_kind nd md" and st: "stores_node C fs i md nd" .
  show ?thesis
  proof (cases nd)
    case (AFile bytes)
    with st obtain es where es:
      "file_extents (bt_reader fs) C (bt_chunk_map fs) (bt_geometry fs) (ino_tree_root i) (ino_objectid i) es"
      "laid_out 0 es" and bytes: "file_bytes es 0 (length bytes) = bytes"
      by (fastforce simp: stores_file_def)
    have f: "is_file md" "unat (md_size md) = length bytes" using kind AFile by simp_all
    define n where "n = min (length buf) (length bytes - unat offset)"
    have got: "take (length buf) (drop (unat offset) bytes) = file_bytes es (unat offset) (unat offset + n)"
    proof (cases "unat offset \<le> length bytes")
      case True
      then have "file_bytes es (unat offset) (unat offset + n) = take n (drop (unat offset) bytes)"
        using file_bytes_sub [of "unat offset" "unat offset + n" "length bytes" es] bytes by (simp add: n_def)
      then show ?thesis by (simp add: n_def min_def)
    qed (simp add: n_def file_bytes_def)
    show ?thesis
      using read_file_at_bytes [OF tree fs_refinesD(1) [OF assms(1)] vol md [unfolded btrfs_metadata_def] f(1) assms(3) es(1,2),
          of offset] False f(2) nd AFile
      by (simp add: btrfs_read_file_at_def afile_at_def afile_def got Let_def flip: n_def)
        (simp add: n_def min.commute)
  qed (use nd md kind kinds_exclusive [of md] False assms(3) in
      \<open>auto simp: btrfs_read_file_at_def read_file_at_eq afile_at_def afile_def btrfs_metadata_def\<close>)
qed

lemma read_link_stored:
  assumes "fs_refines C fs A" and "i \<in> dom A"
  shows "read_link (bt_reader fs) C (bt_chunk_map fs) (bt_geometry fs) (ino_tree_root i) (ino_objectid i) = alink A i"
proof -
  from assms(2) obtain nd where nd: "A i = Some nd" by blast
  from fs_refines_node [OF assms(1) nd] obtain md where
    tree: "tree_ok (bt_reader fs) (bt_chunk_map fs) (gm_nodesize (bt_geometry fs)) (ino_tree_root i)"
    and md: "btrfs_metadata fs i = Ok md" and kind: "node_kind nd md" and st: "stores_node C fs i md nd" .
  show ?thesis
  proof (cases nd)
    case (ALink target)
    with st obtain s data header out where
      s: "find (of_object (ino_objectid i) EXTENT_DATA_KEY) (inode_tree fs i) = Some s"
      and data: "slot_data s = Ok data" "extent_header data (tb_bytenr (fst s)) = Ok header"
        "eh_ty header = FILE_EXTENT_INLINE"
      and out: "(if eh_compression header = COMPRESS_NONE then Ok (drop 21 data)
         else decode C (eh_compression header) (drop 21 data) [] (gm_sectorsize (bt_geometry fs))) = Ok out"
        "target = take (unat (md_size md)) out"
      by (auto simp: stores_link_def)
    have "is_symlink md" using kind ALink by simp
    from read_link_eq [OF tree md [unfolded btrfs_metadata_def] this s [unfolded inode_tree_def], of C] data out nd ALink
    show ?thesis by (simp add: alink_def)
  qed (use nd md kind kinds_exclusive [of md] in \<open>auto simp: alink_def read_link_def btrfs_metadata_def\<close>)
qed

lemma read_chunked_stored:
  assumes "fs_refines C fs A" and "i \<in> dom A"
  shows "read_chunked_loop C fs i (replicate 65536 0) [] = Some (unwrap (afile A i))"
proof -
  from assms(2) obtain nd where nd: "A i = Some nd" by blast
  from assms(1) obtain img where vol: "reads_volume (bt_reader fs) img" by (auto dest: fs_refinesD)
  from fs_refines_node [OF assms(1) nd] obtain md where
    tree: "tree_ok (bt_reader fs) (bt_chunk_map fs) (gm_nodesize (bt_geometry fs)) (ino_tree_root i)"
    and md: "btrfs_metadata fs i = Ok md" and kind: "node_kind nd md" and st: "stores_node C fs i md nd" .
  have chunk: "(0 :: nat) < length (replicate 65536 (0 :: u8))" "length (replicate 65536 (0 :: u8)) < 2 ^ 64" by simp_all
  show ?thesis
  proof (cases nd)
    case (AFile bytes)
    with st obtain es where es:
      "file_extents (bt_reader fs) C (bt_chunk_map fs) (bt_geometry fs) (ino_tree_root i) (ino_objectid i) es"
      "laid_out 0 es" and bytes: "file_bytes es 0 (length bytes) = bytes"
      by (fastforce simp: stores_file_def)
    have f: "is_file md" "unat (md_size md) = length bytes" using kind AFile by simp_all
    from read_chunked_loop_contents [OF tree fs_refinesD(1) [OF assms(1)] vol md f(1) es chunk, of 0] f(2) bytes nd AFile
    show ?thesis by (simp add: afile_def file_bytes_def del: replicate.simps)
  next
    case (ADir E)
    with read_file_at_stored [OF assms chunk(2), of 0] nd show ?thesis
      by (subst read_chunked_loop.simps) (simp add: afile_def afile_at_def)
  next
    case (ALink target)
    with read_file_at_stored [OF assms chunk(2), of 0] nd show ?thesis
      by (subst read_chunked_loop.simps) (simp add: afile_def afile_at_def)
  qed
qed

section \<open>The operations of the interface\<close>

text \<open>Every operation by path is the abstract one after the abstract walk.\<close>

lemma resolve_refines:
  assumes "fs_refines C fs A"
  shows "btrfs_resolve fs path = aresolve A (bt_root fs) path"
    and "btrfs_resolve fs path = Ok i \<Longrightarrow> i \<in> dom A"
  using resolve_stored [OF assms fs_refinesD(4) [OF assms], of "path_components path"]
  by (auto simp: btrfs_resolve_def resolve_path_def aresolve_def ok_or_Ok_iff)

lemma operations_refine:
  assumes "fs_refines C fs A"
  shows "btrfs_read_file C fs path = obind (aresolve A (bt_root fs) path) (afile A)"
    and "btrfs_read_link C fs path = obind (aresolve A (bt_root fs) path) (alink A)"
    and "obind (btrfs_read_dir fs path) (\<lambda>ents. Ok (map (\<lambda>x. (dl_name x, dl_inode x)) ents)) =
      obind (aresolve A (bt_root fs) path) (\<lambda>i. Ok (aentries A i))"
proof -
  note res = resolve_refines [OF assms, of path]
  show "btrfs_read_file C fs path = obind (aresolve A (bt_root fs) path) (afile A)"
    unfolding btrfs_read_file_def res(1) [symmetric] using read_file_stored [OF assms] res(2) by (auto intro!: obind_cong)
  show "btrfs_read_link C fs path = obind (aresolve A (bt_root fs) path) (alink A)"
    unfolding btrfs_read_link_def res(1) [symmetric] using read_link_stored [OF assms] res(2) by (auto intro!: obind_cong)
  have "obind (read_dir (bt_reader fs) (fs_trees fs) i) (\<lambda>ents. Ok (map (\<lambda>x. (dl_name x, dl_inode x)) ents)) =
      Ok (aentries A i)" if i: "i \<in> dom A" for i
  proof -
    from i obtain nd where "A i = Some nd" by blast
    from fs_refines_node [OF assms this] read_dir_stored obtain ents where
      "read_dir (bt_reader fs) (fs_trees fs) i = Ok ents" "map (\<lambda>x. (dl_name x, dl_inode x)) ents = aentries A i"
      by metis
    then show ?thesis by simp
  qed
  then show "obind (btrfs_read_dir fs path) (\<lambda>ents. Ok (map (\<lambda>x. (dl_name x, dl_inode x)) ents)) =
      obind (aresolve A (bt_root fs) path) (\<lambda>i. Ok (aentries A i))"
    unfolding btrfs_read_dir_def res(1) [symmetric] obind_assoc using res(2) by (auto intro!: obind_cong)
qed

lemma chunked_refines:
  assumes "fs_refines C fs A" and "path_new name = Some path"
  shows "read_chunked C fs name = Some (unwrap (obind (aresolve A (bt_root fs) path) (afile A)))"
proof (cases "btrfs_resolve fs path")
  case (Ok i)
  with resolve_refines(1) [OF assms(1), of path] have "aresolve A (bt_root fs) path = Ok i" by simp
  with Ok resolve_refines(2) [OF assms(1), of path] read_chunked_stored [OF assms(1), of i] assms(2)
  show ?thesis by (simp add: read_chunked_def del: replicate.simps)
qed (use resolve_refines(1) [OF assms(1), of path] assms(2) in \<open>simp_all add: read_chunked_def\<close>)

lemma metadata_refines:
  assumes "fs_refines C fs A" and "A i = Some nd"
  shows "\<exists>md. btrfs_metadata fs i = Ok md \<and> node_kind nd md"
  using fs_refines_node [OF assms] by metis

end
