(* ===== verification/Tree_Builder.thy ===== *)
theory Tree_Builder
  imports Buffers Leaf_Volume Sys_Chunk_Array
begin

text \<open>
  The block and volume builders of the tests of \<^verbatim>\<open>src/btree.rs\<close> and \<^verbatim>\<open>src/chunk_tree.rs\<close>: a leaf whose item
  data grow from its end, an interior node, and a device with one identity-mapped chunk. Each builder is
  compared with the layout it arrives at, and a block it writes is read back by \<^verbatim>\<open>read_tree_block\<close> with every
  item, under any checksum function.
\<close>

section \<open>Leaves\<close>

definition write_leaf_item :: "u8 list \<Rightarrow> nat \<Rightarrow> leaf_item \<Rightarrow> u8 list outcome" where
  "write_leaf_item block item_at item =
     obind (write_slice block item_at (item_at + 8) (le_bytes (key_objectid (li_key item)))) (\<lambda>block.
     obind (write_byte block (item_at + 8) (key_item_type (li_key item))) (\<lambda>block.
     obind (write_slice block (item_at + 9) (item_at + 17) (le_bytes (key_offset (li_key item)))) (\<lambda>block.
     obind (write_slice block (item_at + 17) (item_at + 21) (le_bytes (li_offset item))) (\<lambda>block.
     write_slice block (item_at + 21) (item_at + 25) (le_bytes (li_size item))))))"

primrec build_leaf_items :: "kv list \<Rightarrow> nat \<Rightarrow> nat \<Rightarrow> u8 list \<Rightarrow> u8 list outcome" where
  "build_leaf_items [] i data_end block = Ok block"
| "build_leaf_items (item # items) i data_end block =
    (case item of (key, data) \<Rightarrow>
     if length data > data_end then Panic
     else
     let data_end = data_end - length data in
     if Header_SIZE > data_end then Panic
     else
     let data_offset_from_header_end = word_of_nat (data_end - Header_SIZE);
         item_at = Header_SIZE + i * LeafItem_SIZE in
     obind (write_leaf_item block item_at
              \<lparr>li_key = key, li_offset = data_offset_from_header_end, li_size = word_of_nat (length data)\<rparr>)
       (\<lambda>block.
     obind (write_slice block data_end (data_end + length data) data) (\<lambda>block.
     build_leaf_items items (i + 1) data_end block)))"

definition build_leaf :: "(u8 list \<Rightarrow> u32) \<Rightarrow> u32 \<Rightarrow> u64 \<Rightarrow> kv list \<Rightarrow> u8 list outcome" where
  "build_leaf crc nodesize bytenr items =
     obind (vec_zeroed (as_usize nodesize)) (\<lambda>block.
     obind (write_all block
       [(48, 56, le_bytes bytenr), (80, 88, le_bytes (1 :: u64)), (88, 96, le_bytes (1 :: u64)),
        (96, 100, le_bytes (word_of_nat (length items) :: u32))]) (\<lambda>block.
     obind (write_byte block 100 0) (\<lambda>block.
     obind (build_leaf_items items 0 (as_usize nodesize) block) (write_csum crc))))"

section \<open>Interior nodes\<close>

definition write_key_ptr :: "u8 list \<Rightarrow> nat \<Rightarrow> key_ptr \<Rightarrow> u8 list outcome" where
  "write_key_ptr block at kp =
     obind (write_slice block at (at + 8) (le_bytes (key_objectid (kp_key kp)))) (\<lambda>block.
     obind (write_byte block (at + 8) (key_item_type (kp_key kp))) (\<lambda>block.
     obind (write_slice block (at + 9) (at + 17) (le_bytes (key_offset (kp_key kp)))) (\<lambda>block.
     obind (write_slice block (at + 17) (at + 25) (le_bytes (kp_blockptr kp))) (\<lambda>block.
     write_slice block (at + 25) (at + 33) (le_bytes (kp_generation kp))))))"

primrec build_node_ptrs :: "(disk_key \<times> u64) list \<Rightarrow> nat \<Rightarrow> u8 list \<Rightarrow> u8 list outcome" where
  "build_node_ptrs [] i block = Ok block"
| "build_node_ptrs (ptr # ptrs) i block =
    (case ptr of (key, child) \<Rightarrow>
     obind (write_key_ptr block (Header_SIZE + i * KeyPtr_SIZE)
              \<lparr>kp_key = key, kp_blockptr = child, kp_generation = 1\<rparr>) (\<lambda>block.
     build_node_ptrs ptrs (i + 1) block))"

definition build_node ::
  "(u8 list \<Rightarrow> u32) \<Rightarrow> u32 \<Rightarrow> u64 \<Rightarrow> u8 \<Rightarrow> (disk_key \<times> u64) list \<Rightarrow> u8 list outcome" where
  "build_node crc nodesize bytenr level ptrs =
     obind (vec_zeroed (as_usize nodesize)) (\<lambda>block.
     obind (write_all block
       [(48, 56, le_bytes bytenr), (80, 88, le_bytes (1 :: u64)), (88, 96, le_bytes (1 :: u64)),
        (96, 100, le_bytes (word_of_nat (length ptrs) :: u32))]) (\<lambda>block.
     obind (write_byte block 100 level) (\<lambda>block.
     obind (build_node_ptrs ptrs 0 block) (write_csum crc))))"

section \<open>Volumes\<close>

definition build_sys_chunk_entry :: "u64 \<Rightarrow> u64 \<Rightarrow> u16 \<Rightarrow> (u64 \<times> u64) list \<Rightarrow> u8 list" where
  "build_sys_chunk_entry logical chunk_length num_stripes stripes =
     le_bytes (3 :: u64) @ [CHUNK_ITEM_KEY] @ le_bytes logical
     @ le_bytes chunk_length @ le_bytes (3 :: u64) @ le_bytes (65536 :: u64) @ le_bytes (0 :: u64)
     @ le_bytes (4096 :: u32) @ le_bytes (4096 :: u32) @ le_bytes (4096 :: u32)
     @ le_bytes num_stripes @ le_bytes (0 :: u16)
     @ concat (map (\<lambda>(devid, offset). le_bytes devid @ le_bytes offset @ replicate UUID_LEN 0) stripes)"

definition synth_volume :: "u32 \<Rightarrow> u8 list \<Rightarrow> u64 \<Rightarrow> (chunk_map \<times> u8 list) outcome" where
  "synth_volume nodesize leaf root_logical =
     obind (vec_zeroed (as_usize root_logical + length leaf)) (\<lambda>device.
     obind (write_slice device (as_usize root_logical) (length device) leaf) (\<lambda>device.
     let entry = le_bytes (3 :: u64) @ [CHUNK_ITEM_KEY] @ le_bytes root_logical
           @ le_bytes (ucast nodesize :: u64) @ le_bytes (3 :: u64) @ le_bytes (65536 :: u64)
           @ le_bytes (0 :: u64) @ le_bytes (4096 :: u32) @ le_bytes (4096 :: u32) @ le_bytes (4096 :: u32)
           @ le_bytes (1 :: u16) @ le_bytes (0 :: u16) @ le_bytes (1 :: u64) @ le_bytes root_logical
           @ replicate UUID_LEN 0;
         used = length entry in
     obind (vec_resize entry 2048) (\<lambda>entry.
     obind (unwrap (parse_system_chunk_array chunk_map_default entry used)) (\<lambda>map.
     Ok (map, device)))))"

definition synth_tree :: "u64 \<Rightarrow> u8 list list \<Rightarrow> (chunk_map \<times> u8 list) outcome" where
  "synth_tree base blocks =
    (let joined = concat blocks in synth_volume (word_of_nat (length joined)) joined base)"

section \<open>What the block builders write\<close>

definition built_header :: "u32 \<Rightarrow> u64 \<Rightarrow> nat \<Rightarrow> u8 \<Rightarrow> header" where
  "built_header csum bytenr nritems level =
     \<lparr>hd_csum = le_bytes csum @ replicate 28 0, hd_fsid = replicate 16 0, hd_bytenr = bytenr, hd_flags = 0,
      hd_chunk_tree_uuid = replicate 16 0, hd_generation = 1, hd_owner = 1, hd_nritems = word_of_nat nritems,
      hd_level = level\<rparr>"

text \<open>The header after its checksum.\<close>

definition header_tail :: "u64 \<Rightarrow> nat \<Rightarrow> u8 \<Rightarrow> u8 list" where
  "header_tail bytenr nritems level =
     replicate 16 0 @ le_bytes bytenr @ replicate 24 0 @ le_bytes (1 :: u64) @ le_bytes (1 :: u64)
     @ le_bytes (word_of_nat nritems :: u32) @ [level]"

lemma length_header_tail [simp]: "length (header_tail b n l) = 69"
  by (simp add: header_tail_def)

lemma encode_built_header: "encode_header (built_header c b n l) = le_bytes c @ replicate 28 0 @ header_tail b n l"
  by (simp add: encode_header_def built_header_def header_tail_def replicate_add [of 8 16, simplified])

lemma built_header_ok [simp]: "header_ok (built_header c b n l)"
  by (simp add: header_ok_def built_header_def)

lemma built_header_sel [simp]:
  "hd_bytenr (built_header c b n l) = b" "hd_nritems (built_header c b n l) = word_of_nat n"
  "hd_level (built_header c b n l) = l"
  by (simp_all add: built_header_def)

text \<open>The header writes, on a zeroed block.\<close>

lemma header_writes:
  assumes "101 \<le> n"
  shows "obind (write_all (replicate n 0)
       [(48, 56, le_bytes bytenr), (80, 88, le_bytes (1 :: u64)), (88, 96, le_bytes (1 :: u64)),
        (96, 100, le_bytes (word_of_nat k :: u32))]) (\<lambda>block. obind (write_byte block 100 l) f) =
    f ((replicate 32 0 @ header_tail bytenr k l) @ replicate (n - 101) 0)"
proof -
  obtain m where n: "n = 101 + m" using assms by (metis le_iff_add)
  show ?thesis
    unfolding n by (simp add: write_slice_def write_byte_def header_tail_def list_update_append
        replicate_add [of 32 16, simplified])
qed

text \<open>One record, at the start of a run of zeros.\<close>

lemma write_leaf_item_in:
  assumes "length A = at" and "25 \<le> m"
  shows "write_leaf_item (A @ replicate m 0 @ C) at it = Ok (A @ encode_leaf_item it @ replicate (m - 25) 0 @ C)"
proof -
  obtain k where m: "m = 25 + k" using assms(2) by (metis le_iff_add)
  show ?thesis
    unfolding m using assms(1) replicate_Suc [of "16 + k" "0 :: u8"]
    by (simp add: write_leaf_item_def write_slice_def write_byte_def encode_leaf_item_def encode_disk_key_def
        list_update_append)
qed

lemma write_key_ptr_in:
  assumes "length A = at" and "33 \<le> m"
  shows "write_key_ptr (A @ replicate m 0 @ C) at kp = Ok (A @ encode_key_ptr kp @ replicate (m - 33) 0 @ C)"
proof -
  obtain k where m: "m = 33 + k" using assms(2) by (metis le_iff_add)
  show ?thesis
    unfolding m using assms(1) replicate_Suc [of "24 + k" "0 :: u8"]
    by (simp add: write_key_ptr_def write_slice_def write_byte_def encode_key_ptr_def encode_disk_key_def
        list_update_append)
qed

section \<open>The leaves that are built\<close>

text \<open>The items of a leaf whose data end at \<open>e\<close>, each before the one written just before it.\<close>

primrec tail_items :: "nat \<Rightarrow> kv list \<Rightarrow> leaf_item list" where
  "tail_items e [] = []"
| "tail_items e (kv # kvs) =
     \<lparr>li_key = fst kv, li_offset = word_of_nat (e - length (snd kv) - 101),
      li_size = word_of_nat (length (snd kv))\<rparr> # tail_items (e - length (snd kv)) kvs"

lemma length_tail_items [simp]: "length (tail_items e kvs) = length kvs"
  by (induction kvs arbitrary: e) simp_all

lemma build_leaf_items_in:
  assumes "length A = 101 + 25 * i" and "m = 25 * length kvs + length (concat (map snd kvs)) + g"
    and "e = 101 + 25 * i + m"
  shows "build_leaf_items kvs i e (A @ replicate m 0 @ D) =
    Ok (A @ concat (map encode_leaf_item (tail_items e kvs)) @ replicate g 0 @ concat (rev (map snd kvs)) @ D)"
  using assms
proof (induction kvs arbitrary: A D e i m)
  case Nil
  then show ?case by simp
next
  case (Cons kv kvs)
  obtain k d where kv [simp]: "kv = (k, d)" by fastforce
  define m' where "m' = 25 * length kvs + length (concat (map snd kvs)) + g"
  define e' where "e' = e - length d"
  define it where "it = \<lparr>li_key = k, li_offset = word_of_nat (e' - Header_SIZE), li_size = word_of_nat (length d)\<rparr>"
  have m: "m = 25 + (m' + length d)" using Cons.prems by (simp add: m'_def)
  have e: "e' = 101 + 25 * (i + 1) + m'" "e = e' + length d" using Cons.prems m by (simp_all add: e'_def)
  have rec: "write_leaf_item (A @ replicate m 0 @ D) (Header_SIZE + i * LeafItem_SIZE) it =
      Ok (A @ encode_leaf_item it @ replicate (m' + length d) 0 @ D)"
    using Cons.prems by (subst write_leaf_item_in) (simp_all add: layout m)
  have data: "write_slice (A @ encode_leaf_item it @ replicate (m' + length d) 0 @ D) e' (e' + length d) d =
      Ok (A @ encode_leaf_item it @ replicate m' 0 @ d @ D)"
    using Cons.prems write_slice_in [of "A @ encode_leaf_item it @ replicate m' 0" e' d
        "e' + length d" "replicate (length d) 0" D]
    by (simp add: e replicate_add)
  have "build_leaf_items kvs (i + 1) e' ((A @ encode_leaf_item it) @ replicate m' 0 @ d @ D) =
      Ok ((A @ encode_leaf_item it) @ concat (map encode_leaf_item (tail_items e' kvs)) @ replicate g 0
        @ concat (rev (map snd kvs)) @ d @ D)"
    using Cons.prems by (intro Cons.IH) (simp_all add: m'_def e(1))
  moreover have "\<not> length d > e" "\<not> Header_SIZE > e'" using e by (simp_all add: Header_SIZE_def layout)
  moreover have "tail_items e (kv # kvs) = it # tail_items e' kvs"
    by (simp add: it_def e'_def Header_SIZE_def layout)
  ultimately show ?case
    using rec data by (simp add: Let_def e'_def [symmetric] it_def [symmetric] del: of_nat_diff tail_items.simps)
qed

lemma nodesize_fits: "as_usize (n :: u32) = unat n" "\<not> isize_max < unat n"
proof -
  show "\<not> isize_max < unat n"
    using less_imp_le [OF unat_u32_less [of n]] by (simp add: isize_max_def not_less order.trans [rotated])
  then show "as_usize n = unat n" by (simp add: as_usize_def usize_max_def isize_max_def)
qed

definition built_leaf_body :: "nat \<Rightarrow> u64 \<Rightarrow> kv list \<Rightarrow> u8 list" where
  "built_leaf_body ns bytenr kvs =
     header_tail bytenr (length kvs) 0 @ concat (map encode_leaf_item (tail_items ns kvs))
     @ replicate (ns - kv_size kvs) 0 @ concat (rev (map snd kvs))"

definition built_leaf :: "(u8 list \<Rightarrow> u32) \<Rightarrow> nat \<Rightarrow> u64 \<Rightarrow> kv list \<Rightarrow> tree_block" where
  "built_leaf crc ns bytenr kvs =
     leaf_block (built_header (crc (built_leaf_body ns bytenr kvs)) bytenr (length kvs) 0)
       (tail_items ns kvs) (replicate (ns - kv_size kvs) 0 @ concat (rev (map snd kvs)))"

lemma tb_body_built_leaf:
  "tb_body (built_leaf crc ns bytenr kvs) =
     (le_bytes (crc (built_leaf_body ns bytenr kvs)) @ replicate 28 0) @ built_leaf_body ns bytenr kvs"
  by (simp add: built_leaf_def leaf_block_def encode_built_header built_leaf_body_def)

lemma build_leaf_eq:
  assumes "kv_size kvs \<le> unat nodesize"
  shows "build_leaf crc nodesize bytenr kvs = Ok (tb_body (built_leaf crc (unat nodesize) bytenr kvs))"
proof -
  let ?n = "unat nodesize" and ?g = "unat nodesize - kv_size kvs"
  note u = nodesize_fits [of nodesize]
  have n: "?n - 101 = 25 * length kvs + length (concat (map snd kvs)) + ?g" "101 \<le> ?n"
    using assms by (simp_all add: kv_size_def)
  have items: "build_leaf_items kvs 0 ?n ((replicate 32 0 @ header_tail bytenr (length kvs) 0) @ replicate (?n - 101) 0) =
      Ok (replicate 32 0 @ built_leaf_body ?n bytenr kvs)"
    using build_leaf_items_in [of "replicate 32 0 @ header_tail bytenr (length kvs) 0" 0 "?n - 101" kvs ?g ?n "[]"] n
    by (simp add: built_leaf_body_def)
  have "build_leaf crc nodesize bytenr kvs = write_csum crc (replicate 32 0 @ built_leaf_body ?n bytenr kvs)"
    unfolding build_leaf_def u vec_zeroed_def
    using items u(2) by (simp add: header_writes [OF n(2)] del: write_all.simps)
  then show ?thesis by (simp add: write_csum_body tb_body_built_leaf)
qed

text \<open>Every item is read back.\<close>

lemma tail_items_nth:
  assumes "i < length kvs"
  shows "tail_items e kvs ! i =
    \<lparr>li_key = fst (kvs ! i), li_offset = word_of_nat (e - length (concat (map snd (take (Suc i) kvs))) - 101),
     li_size = word_of_nat (length (snd (kvs ! i)))\<rparr>"
  using assms
proof (induction kvs arbitrary: e i)
  case (Cons kv kvs)
  then show ?case by (cases i) (simp_all add: diff_diff_left add.assoc)
qed simp

lemma built_leaf_header [simp]:
  "tb_header (built_leaf crc ns bytenr kvs) = built_header (crc (built_leaf_body ns bytenr kvs)) bytenr (length kvs) 0"
  by (simp add: built_leaf_def)

lemma built_leaf_nritems: "length kvs < 2 ^ 32 \<Longrightarrow> tb_nritems (built_leaf crc ns bytenr kvs) = length kvs"
  by (simp add: unat_word_of_nat_small)

lemma built_leaf_item:
  assumes "length kvs < 2 ^ 32" and "i < length kvs"
  shows "tb_leaf_item (built_leaf crc ns bytenr kvs) i = Ok (tail_items ns kvs ! i)"
  unfolding built_leaf_def
  using assms by (subst leaf_block_item) (simp_all add: unat_word_of_nat_small)

lemma built_leaf_length:
  "kv_size kvs \<le> ns \<Longrightarrow> length (tb_body (built_leaf crc ns bytenr kvs)) = ns"
proof -
  have "length (concat (map encode_leaf_item its)) = 25 * length its" for its
    by (induction its) simp_all
  moreover have "length (concat (rev xss)) = length (concat xss)" for xss :: "u8 list list"
    by (induction xss) simp_all
  ultimately show "kv_size kvs \<le> ns \<Longrightarrow> ?thesis"
    by (simp add: tb_body_built_leaf built_leaf_body_def kv_size_def)
qed

lemma built_leaf_data:
  assumes "kv_size kvs \<le> ns" and "ns < 2 ^ 32" and i: "i < length kvs"
  shows "tb_leaf_item_data (built_leaf crc ns bytenr kvs) (tail_items ns kvs ! i) = Ok (snd (kvs ! i))"
proof -
  let ?len = "length (snd (kvs ! i))" and ?b = "tb_body (built_leaf crc ns bytenr kvs)"
  define post where "post = concat (rev (map snd (take i kvs)))"
  define start where "start = ns - length post - ?len"
  have lpost: "length (concat (map snd (take (Suc i) kvs))) = length post + ?len"
  proof -
    have "length (concat (rev xss)) = length (concat xss)" for xss :: "u8 list list"
      by (induction xss) simp_all
    then show ?thesis using i by (simp add: post_def take_Suc_conv_app_nth)
  qed
  have "map snd kvs = map snd (take i kvs) @ snd (kvs ! i) # map snd (drop (Suc i) kvs)"
    using id_take_nth_drop [OF i] by (metis list.simps(9) map_append)
  then have split: "concat (rev (map snd kvs)) = concat (rev (map snd (drop (Suc i) kvs))) @ snd (kvs ! i) @ post"
    by (simp add: post_def)
  obtain pre where body: "?b = pre @ snd (kvs ! i) @ post"
    unfolding tb_body_built_leaf built_leaf_body_def split by auto
  have lens: "length pre + ?len + length post = ns"
    using arg_cong [OF body, of length] built_leaf_length [OF assms(1), of crc bytenr] by simp
  then have pre: "length pre = start" by (simp add: start_def)
  have ge: "101 \<le> start"
  proof -
    have "length (concat (map snd (take (Suc i) kvs))) \<le> length (concat (map snd kvs))"
      by (metis append_take_drop_id concat_append le_add1 length_append map_append)
    then show ?thesis using assms(1) lpost by (simp add: start_def kv_size_def)
  qed
  have un: "unat (li_offset (tail_items ns kvs ! i)) = start - 101" "unat (li_size (tail_items ns kvs ! i)) = ?len"
    using lens pre assms(2) by (simp_all add: tail_items_nth [OF i] lpost start_def diff_diff_left unat_word_of_nat_small)
  have "as_usize (li_offset (tail_items ns kvs ! i)) = start - 101" "as_usize (li_size (tail_items ns kvs ! i)) = ?len"
    using lens pre assms(2) un by (simp_all add: as_usize_def usize_max_def)
  then show ?thesis
    using lens pre ge assms(2)
    by (simp add: tb_leaf_item_data_def Header_SIZE_def layout usize_checked_add_def slice_def body usize_max_def)
qed

section \<open>The nodes that are built\<close>

definition node_ptrs :: "(disk_key \<times> u64) list \<Rightarrow> key_ptr list" where
  "node_ptrs = map (\<lambda>(key, child). \<lparr>kp_key = key, kp_blockptr = child, kp_generation = 1\<rparr>)"

lemma length_node_ptrs [simp]: "length (node_ptrs ptrs) = length ptrs"
  by (simp add: node_ptrs_def)

lemma build_node_ptrs_in:
  assumes "length A = 101 + 33 * i" and "m = 33 * length ptrs + g"
  shows "build_node_ptrs ptrs i (A @ replicate m 0) = Ok (A @ concat (map encode_key_ptr (node_ptrs ptrs)) @ replicate g 0)"
  using assms
proof (induction ptrs arbitrary: A i m)
  case (Cons p ptrs)
  obtain k c where p [simp]: "p = (k, c)" by fastforce
  let ?kp = "\<lparr>kp_key = k, kp_blockptr = c, kp_generation = 1\<rparr>"
  have "write_key_ptr (A @ replicate m 0) (Header_SIZE + i * KeyPtr_SIZE) ?kp =
      Ok (A @ encode_key_ptr ?kp @ replicate (m - 33) 0)"
    using Cons.prems write_key_ptr_in [of A "Header_SIZE + i * KeyPtr_SIZE" m "[]" ?kp] by (simp add: layout)
  with Cons.prems Cons.IH [of "A @ encode_key_ptr ?kp" "i + 1" "m - 33"] show ?case
    by (simp add: node_ptrs_def)
qed (simp add: node_ptrs_def)

definition node_size :: "(disk_key \<times> u64) list \<Rightarrow> nat" where
  "node_size ptrs = 101 + 33 * length ptrs"

definition built_node_body :: "nat \<Rightarrow> u64 \<Rightarrow> u8 \<Rightarrow> (disk_key \<times> u64) list \<Rightarrow> u8 list" where
  "built_node_body ns bytenr level ptrs =
     header_tail bytenr (length ptrs) level @ concat (map encode_key_ptr (node_ptrs ptrs))
     @ replicate (ns - node_size ptrs) 0"

definition built_node :: "(u8 list \<Rightarrow> u32) \<Rightarrow> nat \<Rightarrow> u64 \<Rightarrow> u8 \<Rightarrow> (disk_key \<times> u64) list \<Rightarrow> tree_block" where
  "built_node crc ns bytenr level ptrs =
     node_block (built_header (crc (built_node_body ns bytenr level ptrs)) bytenr (length ptrs) level)
       (node_ptrs ptrs) (replicate (ns - node_size ptrs) 0)"

lemma tb_body_built_node:
  "tb_body (built_node crc ns bytenr level ptrs) =
     (le_bytes (crc (built_node_body ns bytenr level ptrs)) @ replicate 28 0) @ built_node_body ns bytenr level ptrs"
  by (simp add: built_node_def node_block_def encode_built_header built_node_body_def)

lemma built_node_header [simp]:
  "tb_header (built_node crc ns bytenr level ptrs) =
     built_header (crc (built_node_body ns bytenr level ptrs)) bytenr (length ptrs) level"
  by (simp add: built_node_def)

lemma built_node_nritems: "length ptrs < 2 ^ 32 \<Longrightarrow> tb_nritems (built_node crc ns bytenr level ptrs) = length ptrs"
  by (simp add: unat_word_of_nat_small)

lemma built_node_ptr:
  assumes "length ptrs < 2 ^ 32" and "i < length ptrs"
  shows "tb_key_ptr (built_node crc ns bytenr level ptrs) i =
    Ok \<lparr>kp_key = fst (ptrs ! i), kp_blockptr = snd (ptrs ! i), kp_generation = 1\<rparr>"
  unfolding built_node_def
  using assms by (subst node_block_ptr) (simp_all add: unat_word_of_nat_small node_ptrs_def split_beta)

lemma built_node_length:
  "node_size ptrs \<le> ns \<Longrightarrow> length (tb_body (built_node crc ns bytenr level ptrs)) = ns"
proof -
  have "length (concat (map encode_key_ptr kps)) = 33 * length kps" for kps
    by (induction kps) simp_all
  then show "node_size ptrs \<le> ns \<Longrightarrow> ?thesis"
    by (simp add: tb_body_built_node built_node_body_def node_size_def)
qed

lemma build_node_eq:
  assumes "node_size ptrs \<le> unat nodesize"
  shows "build_node crc nodesize bytenr level ptrs = Ok (tb_body (built_node crc (unat nodesize) bytenr level ptrs))"
proof -
  let ?n = "unat nodesize" and ?g = "unat nodesize - node_size ptrs"
  note u = nodesize_fits [of nodesize]
  have n: "?n - 101 = 33 * length ptrs + ?g" "101 \<le> ?n"
    using assms by (simp_all add: node_size_def)
  have ptrs: "build_node_ptrs ptrs 0 ((replicate 32 0 @ header_tail bytenr (length ptrs) level) @ replicate (?n - 101) 0) =
      Ok (replicate 32 0 @ built_node_body ?n bytenr level ptrs)"
    using build_node_ptrs_in [of "replicate 32 0 @ header_tail bytenr (length ptrs) level" 0 "?n - 101" ptrs ?g] n
    by (simp add: built_node_body_def)
  have "build_node crc nodesize bytenr level ptrs = write_csum crc (replicate 32 0 @ built_node_body ?n bytenr level ptrs)"
    unfolding build_node_def u vec_zeroed_def
    using ptrs u(2) by (simp add: header_writes [OF n(2)] del: write_all.simps)
  then show ?thesis by (simp add: write_csum_body tb_body_built_node)
qed

section \<open>The volumes that are built\<close>

text \<open>\<^verbatim>\<open>build_sys_chunk_entry\<close> writes the system chunk that its arguments describe.\<close>

definition test_chunk :: "u64 \<Rightarrow> u64 \<Rightarrow> u16 \<Rightarrow> (u64 \<times> u64) list \<Rightarrow> sys_chunk" where
  "test_chunk logical chunk_length num_stripes stripes =
     (3, logical,
      \<lparr>ch_length = chunk_length, ch_owner = 3, ch_stripe_len = 65536, ch_ty = 0, ch_io_align = 4096,
       ch_io_width = 4096, ch_sector_size = 4096, ch_num_stripes = num_stripes, ch_sub_stripes = 0,
       ch_stripes_offset = 65\<rparr>,
      map (\<lambda>(devid, offset). \<lparr>st_devid = devid, st_offset = offset, st_dev_uuid = replicate UUID_LEN 0\<rparr>) stripes)"

lemma build_sys_chunk_entry_eq:
  "build_sys_chunk_entry logical n k stripes = encode_sys_chunk (test_chunk logical n k stripes)"
  by (simp add: build_sys_chunk_entry_def test_chunk_def encode_sys_chunk_def encode_defs comp_def case_prod_unfold)

lemma test_chunk_ok: "sys_chunk_ok (test_chunk logical n k stripes) \<longleftrightarrow> length stripes = unat k"
  by (auto simp: sys_chunk_ok_def test_chunk_def UUID_LEN_def)

definition volume_map :: "u64 \<Rightarrow> nat \<Rightarrow> chunk_map" where
  "volume_map base n =
     \<lparr>mappings = [sys_chunk_mapping (test_chunk base (word_of_nat n) 1 [(1, base)])], local_devid = None\<rparr>"

lemmas volume_map_defs = volume_map_def sys_chunk_mapping_def test_chunk_def

lemma synth_volume_eq:
  assumes "length blocks = unat nodesize" and "unat base + length blocks \<le> isize_max"
  shows "synth_volume nodesize blocks base =
    Ok (volume_map base (length blocks), replicate (unat base) 0 @ blocks)"
proof -
  let ?c = "test_chunk base (word_of_nat (length blocks)) 1 [(1, base)]"
  have u: "(ucast nodesize :: u64) = word_of_nat (length blocks)"
    by (simp add: assms(1) unsigned_ucast_eq unat_ucast_u32_u64 flip: word_unat_eq_iff)
  have dev: "vec_zeroed (as_usize base + length blocks) = Ok (replicate (unat base) 0 @ replicate (length blocks) 0)"
    using assms(2) by (simp add: vec_zeroed_def replicate_add)
  have "insert_all chunk_map_default [sys_chunk_mapping ?c] = Ok (volume_map base (length blocks))"
    using assms(2)
    by (simp add: chunk_map_insert_def chunk_map_default_def get_before_def get_at_def checked_add_def
        partition_point_def volume_map_defs isize_max_def unat_word_of_nat_small)
  then have parse: "parse_system_chunk_array chunk_map_default (encode_sys_chunk ?c @ replicate 1951 0) 97 =
      Ok (volume_map base (length blocks))"
    using sys_chunk_array_roundtrip [of "[?c]" chunk_map_default "[]" "replicate 1951 0"]
    by (simp add: parse_system_chunk_array_def test_chunk_ok)
      (simp add: encode_sys_chunk_def test_chunk_def encode_defs UUID_LEN_def)
  from parse show ?thesis
    unfolding synth_volume_def dev u
    by (simp add: write_slice_def vec_resize_def isize_max_def encode_sys_chunk_def test_chunk_def encode_defs UUID_LEN_def)
qed

lemma volume_map_wf: "unat base + n < 2 ^ 64 \<Longrightarrow> chunk_map_wf (volume_map base n)"
  by (simp add: chunk_map_wf_def chunk_end_def volume_map_defs unat_word_of_nat_small)

lemma volume_map_None [simp]: "volume_map base n\<lparr>local_devid := None\<rparr> = volume_map base n"
  by (simp add: volume_map_def)

lemma volume_map_devid_wf [simp]: "chunk_map_wf (volume_map base n\<lparr>local_devid := d\<rparr>) \<longleftrightarrow> chunk_map_wf (volume_map base n)"
  by (simp add: chunk_map_wf_def)

lemma volume_resolve_devid:
  assumes "unat base \<le> unat a" and "unat a < unat base + n" and "unat base + n < 2 ^ 64" and "d = None \<or> d = Some 1"
  shows "chunk_map_resolve (volume_map base n\<lparr>local_devid := d\<rparr>) a =
    Ok \<lparr>rs_devid = 1, rs_physical = a, rs_contiguous_bytes = word_of_nat (unat base + n - unat a)\<rparr>"
proof -
  have n: "unat (word_of_nat n :: u64) = n" using assms(3) by (simp add: unat_word_of_nat_small)
  have "n < 2 ^ 64" using assms(3) by simp
  moreover have "chunk_map_wf (volume_map base n\<lparr>local_devid := d\<rparr>)" using assms(3) by (simp add: volume_map_wf)
  ultimately show ?thesis using assms n
    by (auto simp: chunk_map_resolve_reference resolve_reference_def volume_map_defs chunk_covers_def
        pick_stripe_def chunk_profile_def translate_in_chunk_def chunk_end_def simp del: of_nat_diff)
qed

lemmas volume_resolve = volume_resolve_devid [where d = None, simplified]

text \<open>
  A block of the right form at any place of such a volume is read back. \<open>pre\<close> and \<open>post\<close> are the blocks
  around it, \<open>front\<close> is what the device holds before the chunk.
\<close>

lemma built_verify:
  "tb_body b = (le_bytes (crc body) @ replicate 28 0) @ body \<Longrightarrow> pf_crc32c P = crc \<Longrightarrow>
   verify_crc32c P (drop 32 (tb_body b)) (take 32 (tb_body b))"
  using verify_stored_crc [of P body] by simp

lemma volume_read:
  assumes b: "length (tb_body b) = unat ns" "101 \<le> unat ns"
    and hd: "tb_header b = header_of (tb_body b)" "tb_bytenr b = a"
    and crc: "tb_body b = (le_bytes (crc body) @ replicate 28 0) @ body"
    and asc: "validate_keys_strictly_ascending b = Ok ()"
    and blocks: "blocks = pre @ tb_body b @ post" and a: "unat a = unat base + length pre"
    and fit: "unat base + length blocks \<le> isize_max"
    and front: "length front = unat base" and d: "d = None \<or> d = Some 1"
  shows "read_tree_block (slice_platform (front @ blocks) crc alloc)
    (volume_map base (length blocks)\<lparr>local_devid := d\<rparr>) ns a = Ok b"
proof -
  let ?P = "slice_platform (front @ blocks) crc alloc"
  let ?r = "\<lparr>rs_devid = 1, rs_physical = a, rs_contiguous_bytes = word_of_nat (unat base + length blocks - unat a)\<rparr>"
  have lt: "unat base + length blocks < 2 ^ 64" "unat a < unat base + length blocks" "unat base \<le> unat a"
    using fit b a by (simp_all add: isize_max_def blocks)
  have res: "chunk_map_resolve (volume_map base (length blocks)\<lparr>local_devid := d\<rparr>) a = Ok ?r"
    using lt d by (intro volume_resolve_devid) simp_all
  have len: "unat ns \<le> unat base + length blocks - unat a" using b a by (simp add: blocks)
  show ?thesis
  proof (rule read_tree_block_contiguous [OF res])
    show "ucast ns \<le> rs_contiguous_bytes ?r"
      using len lt by (simp add: word_le_nat_alt unat_ucast_u32_u64 unat_word_of_nat_small del: of_nat_diff)
    have "length (front @ blocks) \<le> usize_max"
      using fit front by (simp add: isize_max_def usize_max_def)
    then show "reader_read ?P (rs_physical ?r) (unat ns) = Some (tb_body b)"
      using a b(1) front by (subst reader_read_slice_platform) (simp_all add: blocks)
    show "verify_crc32c ?P (drop 32 (tb_body b)) (take 32 (tb_body b))"
      by (rule built_verify [of b crc body, OF crc]) (simp add: slice_platform_def)
  qed (use b hd asc in auto)
qed

end
