(* ===== verification/Written_Tree.thy ===== *)
theory Written_Tree
  imports Tree_Builder
begin

text \<open>
  Trees of any shape, written with the block builders and laid out as \<^verbatim>\<open>two_leaf_tree\<close> of the tests of
  \<^verbatim>\<open>src/btree.rs\<close> lays its blocks out: a node, then the trees of its children, from left to right, in blocks
  of the node size. A node's separators are the first keys of its children. The theory shows that the device
  holds a well-formed tree with exactly the items it was written from, so that a lookup on it is a lookup in
  the list of the items.
\<close>

section \<open>Abstract trees\<close>

datatype wtree = WLeaf "kv list" | WNode "wtree list"

fun witems :: "wtree \<Rightarrow> kv list" where
  "witems (WLeaf kvs) = kvs"
| "witems (WNode ts) = concat (map witems ts)"

fun wsize :: "wtree \<Rightarrow> nat" where
  "wsize (WLeaf kvs) = 1"
| "wsize (WNode ts) = Suc (sum_list (map wsize ts))"

fun wheight :: "wtree \<Rightarrow> nat" where
  "wheight (WLeaf kvs) = 0"
| "wheight (WNode ts) = Suc (fold max (map wheight ts) 0)"

definition first_key :: "wtree \<Rightarrow> disk_key" where
  "first_key t = fst (hd (witems t))"

text \<open>Every block has room for its entries, and only the root may be an empty leaf.\<close>

fun wtree_fits :: "nat \<Rightarrow> wtree \<Rightarrow> bool" where
  "wtree_fits ns (WLeaf kvs) \<longleftrightarrow> kv_size kvs \<le> ns"
| "wtree_fits ns (WNode ts) \<longleftrightarrow>
     ts \<noteq> [] \<and> 101 + 33 * length ts \<le> ns \<and> list_all (\<lambda>t. witems t \<noteq> [] \<and> wtree_fits ns t) ts"

section \<open>Writing\<close>

text \<open>The address of a block, by its place on the device.\<close>

definition block_addr :: "u32 \<Rightarrow> u64 \<Rightarrow> nat \<Rightarrow> u64" where
  "block_addr nodesize base i = base + word_of_nat (i * unat nodesize)"

primrec child_ptrs :: "u32 \<Rightarrow> u64 \<Rightarrow> nat \<Rightarrow> wtree list \<Rightarrow> (disk_key \<times> u64) list" where
  "child_ptrs ns base i [] = []"
| "child_ptrs ns base i (t # ts) = (first_key t, block_addr ns base i) # child_ptrs ns base (i + wsize t) ts"

function (sequential) write_tree :: "(u8 list \<Rightarrow> u32) \<Rightarrow> u32 \<Rightarrow> u64 \<Rightarrow> nat \<Rightarrow> wtree \<Rightarrow> u8 list list outcome"
  and write_forest :: "(u8 list \<Rightarrow> u32) \<Rightarrow> u32 \<Rightarrow> u64 \<Rightarrow> nat \<Rightarrow> wtree list \<Rightarrow> u8 list list outcome" where
  "write_tree crc ns base i (WLeaf kvs) =
     obind (build_leaf crc ns (block_addr ns base i) kvs) (\<lambda>b. Ok [b])"
| "write_tree crc ns base i (WNode ts) =
     obind (build_node crc ns (block_addr ns base i) (word_of_nat (wheight (WNode ts)))
              (child_ptrs ns base (i + 1) ts)) (\<lambda>b.
     obind (write_forest crc ns base (i + 1) ts) (\<lambda>bs. Ok (b # bs)))"
| "write_forest crc ns base i [] = Ok []"
| "write_forest crc ns base i (t # ts) =
     obind (write_tree crc ns base i t) (\<lambda>bs.
     obind (write_forest crc ns base (i + wsize t) ts) (\<lambda>cs. Ok (bs @ cs)))"
  by pat_completeness auto

termination
  by (relation "measure (\<lambda>x. case x of Inl (_, _, _, _, t) \<Rightarrow> size t | Inr (_, _, _, _, ts) \<Rightarrow> size_list size ts)")
    auto

text \<open>The blocks that come out, and the tree they form.\<close>

function (sequential) wblocks :: "(u8 list \<Rightarrow> u32) \<Rightarrow> u32 \<Rightarrow> u64 \<Rightarrow> nat \<Rightarrow> wtree \<Rightarrow> tree_block list"
  and fblocks :: "(u8 list \<Rightarrow> u32) \<Rightarrow> u32 \<Rightarrow> u64 \<Rightarrow> nat \<Rightarrow> wtree list \<Rightarrow> tree_block list" where
  "wblocks crc ns base i (WLeaf kvs) = [built_leaf crc (unat ns) (block_addr ns base i) kvs]"
| "wblocks crc ns base i (WNode ts) =
     built_node crc (unat ns) (block_addr ns base i) (word_of_nat (wheight (WNode ts)))
       (child_ptrs ns base (i + 1) ts) # fblocks crc ns base (i + 1) ts"
| "fblocks crc ns base i [] = []"
| "fblocks crc ns base i (t # ts) = wblocks crc ns base i t @ fblocks crc ns base (i + wsize t) ts"
  by pat_completeness auto

termination
  by (relation "measure (\<lambda>x. case x of Inl (_, _, _, _, t) \<Rightarrow> size t | Inr (_, _, _, _, ts) \<Rightarrow> size_list size ts)")
    auto

function (sequential) wdtree :: "(u8 list \<Rightarrow> u32) \<Rightarrow> u32 \<Rightarrow> u64 \<Rightarrow> nat \<Rightarrow> wtree \<Rightarrow> dtree"
  and fdtrees :: "(u8 list \<Rightarrow> u32) \<Rightarrow> u32 \<Rightarrow> u64 \<Rightarrow> nat \<Rightarrow> wtree list \<Rightarrow> dtree list" where
  "wdtree crc ns base i (WLeaf kvs) = DLeaf (built_leaf crc (unat ns) (block_addr ns base i) kvs)"
| "wdtree crc ns base i (WNode ts) =
     DNode (built_node crc (unat ns) (block_addr ns base i) (word_of_nat (wheight (WNode ts)))
       (child_ptrs ns base (i + 1) ts)) (fdtrees crc ns base (i + 1) ts)"
| "fdtrees crc ns base i [] = []"
| "fdtrees crc ns base i (t # ts) = wdtree crc ns base i t # fdtrees crc ns base (i + wsize t) ts"
  by pat_completeness auto

termination
  by (relation "measure (\<lambda>x. case x of Inl (_, _, _, _, t) \<Rightarrow> size t | Inr (_, _, _, _, ts) \<Rightarrow> size_list size ts)")
    auto

lemma length_child_ptrs [simp]: "length (child_ptrs ns base i ts) = length ts"
  by (induction ts arbitrary: i) simp_all

lemma length_wblocks [simp]:
  "length (wblocks crc ns base i t) = wsize t"
  "length (fblocks crc ns base i ts) = sum_list (map wsize ts)"
  by (induction crc ns base i t and crc ns base i ts rule: wblocks_fblocks.induct) simp_all

lemma length_fdtrees [simp]: "length (fdtrees crc ns base i ts) = length ts"
  by (induction ts arbitrary: i) simp_all

lemma node_size_child_ptrs [simp]: "node_size (child_ptrs ns base i ts) = 101 + 33 * length ts"
  by (simp add: node_size_def)

lemma write_tree_eq:
  "wtree_fits (unat ns) t \<Longrightarrow> write_tree crc ns base i t = Ok (map tb_body (wblocks crc ns base i t))"
  "list_all (wtree_fits (unat ns)) ts \<Longrightarrow>
   write_forest crc ns base i ts = Ok (map tb_body (fblocks crc ns base i ts))"
  by (induction crc ns base i t and crc ns base i ts rule: wblocks_fblocks.induct)
    (simp_all add: build_leaf_eq build_node_eq list_all_iff)

section \<open>The blocks are well-formed\<close>

text \<open>What \<open>volume_read\<close> asks of a block.\<close>

definition block_good :: "(u8 list \<Rightarrow> u32) \<Rightarrow> u32 \<Rightarrow> u64 \<Rightarrow> tree_block \<Rightarrow> bool" where
  "block_good crc ns a b \<longleftrightarrow>
     length (tb_body b) = unat ns \<and> tb_header b = header_of (tb_body b) \<and> tb_bytenr b = a \<and>
     (\<exists>body. tb_body b = (le_bytes (crc body) @ replicate 28 0) @ body) \<and>
     validate_keys_strictly_ascending b = Ok ()"

lemma size_bounds:
  "kv_size kvs \<le> unat (ns :: u32) \<Longrightarrow> length kvs < 4294967296"
  "node_size ptrs \<le> unat ns \<Longrightarrow> length ptrs < 4294967296"
  unfolding kv_size_def node_size_def using unat_u32_less [of ns] by linarith+

text \<open>The check of the key order, on a block whose keys can be read.\<close>

lemma check_ascending_exact:
  "(\<And>i. i \<in> set is \<Longrightarrow> key i = Ok (f i)) \<Longrightarrow>
   check_ascending key l prev is =
     (if sorted_wrt (<) (prev # map f is) then Ok () else Err (CorruptBtree ''key_order'' l))"
proof (induction "is" arbitrary: prev)
  case (Cons i "is")
  have "sorted_wrt (<) (prev # map f (i # is)) \<longleftrightarrow> prev < f i \<and> sorted_wrt (<) (f i # map f is)"
    using less_trans by auto
  with Cons show ?case by (auto simp: not_le)
qed simp

lemma validate_exact:
  assumes key: "\<And>i. i < length ks \<Longrightarrow> (if tb_level b = 0 then tb_leaf_key b else tb_node_key b) i = Ok (ks ! i)"
    and n: "tb_nritems b = length ks"
  shows "validate_keys_strictly_ascending b =
    (if sorted_wrt (<) ks then Ok () else Err (CorruptBtree ''key_order'' (tb_bytenr b)))"
proof (cases "length ks < 2")
  case True
  then have "sorted_wrt (<) ks" by (cases ks; cases "tl ks") auto
  then show ?thesis using True n by (simp add: validate_keys_strictly_ascending_def)
next
  case False
  let ?key = "if tb_level b = 0 then tb_leaf_key b else tb_node_key b"
  have "ks = map ((!) ks) [0..<length ks]" by (simp add: map_nth)
  also have "[0..<length ks] = 0 # [1..<length ks]" using False upt_conv_Cons [of 0 "length ks"] by fastforce
  finally have ks: "ks ! 0 # map ((!) ks) [1..<length ks] = ks" by simp
  have "check_ascending ?key (tb_bytenr b) (ks ! 0) [1..<length ks] =
      (if sorted_wrt (<) ks then Ok () else Err (CorruptBtree ''key_order'' (tb_bytenr b)))"
    using check_ascending_exact [of "[1..<length ks]" ?key "(!) ks" "tb_bytenr b" "ks ! 0"] key
    unfolding ks by simp
  moreover have "?key 0 = Ok (ks ! 0)" by (rule key) (use False in linarith)
  ultimately show ?thesis
    using False n by (auto simp: validate_keys_strictly_ascending_def Let_def split: if_splits)
qed

lemma built_leaf_parsed: "header_of (tb_body (built_leaf crc ns a kvs)) = tb_header (built_leaf crc ns a kvs)"
  by (simp add: built_leaf_def leaf_block_def header_of_encoded)

lemma built_leaf_validate:
  assumes "kv_size kvs \<le> unat (ns :: u32)"
  shows "validate_keys_strictly_ascending (built_leaf crc (unat ns) a kvs) =
    (if sorted_wrt (<) (map fst kvs) then Ok () else Err (CorruptBtree ''key_order'' a))"
  using size_bounds(1) [OF assms]
  by (subst validate_exact [of "map fst kvs"])
    (simp_all add: tb_leaf_key_def built_leaf_item tail_items_nth unat_word_of_nat_small)

lemma built_leaf_good:
  assumes fits: "kv_size kvs \<le> unat ns" and sorted: "sorted_wrt (<) (map fst kvs)"
  shows "block_good crc ns a (built_leaf crc (unat ns) a kvs)"
  using built_leaf_length [OF fits, of crc a] built_leaf_validate [OF fits, of crc a] built_leaf_parsed [of crc "unat ns" a kvs]
    sorted
  unfolding block_good_def by (auto simp: tb_body_built_leaf)

lemma built_node_good:
  assumes fits: "node_size ptrs \<le> unat ns" and level: "level \<noteq> 0" and sorted: "sorted_wrt (<) (map fst ptrs)"
  shows "block_good crc ns a (built_node crc (unat ns) a level ptrs)"
proof -
  note len = size_bounds(2) [OF fits]
  have "validate_keys_strictly_ascending (built_node crc (unat ns) a level ptrs) = Ok ()"
    by (subst validate_exact [of "map fst ptrs"])
      (simp_all add: len level sorted tb_node_key_def built_node_ptr unat_word_of_nat_small)
  moreover have "header_of (tb_body (built_node crc (unat ns) a level ptrs)) = tb_header (built_node crc (unat ns) a level ptrs)"
    by (simp add: built_node_def node_block_def header_of_encoded)
  ultimately show ?thesis
    using built_node_length [OF fits, of crc a level]
    unfolding block_good_def by (auto simp: tb_body_built_node)
qed

section \<open>Order of the items\<close>

lemma sorted_forest_parts:
  "sorted_wrt (<) (map fst (concat (map witems ts))) \<Longrightarrow> t \<in> set ts \<Longrightarrow> sorted_wrt (<) (map fst (witems t))"
  by (induction ts) (auto simp: sorted_wrt_append)

lemma first_key_in: "witems t \<noteq> [] \<Longrightarrow> first_key t \<in> fst ` set (witems t)"
  by (simp add: first_key_def)

lemma first_key_le:
  "sorted_wrt (<) (map fst (witems t)) \<Longrightarrow> k \<in> fst ` set (witems t) \<Longrightarrow> first_key t \<le> k"
  by (cases "witems t") (auto simp: first_key_def less_imp_le)

lemma sorted_forest_keys:
  assumes "sorted_wrt (<) (map fst (concat (map witems ts)))" and "list_all (\<lambda>t. witems t \<noteq> []) ts"
  shows "sorted_wrt (<) (map first_key ts)"
  using assms
proof (induction ts)
  case (Cons t ts)
  then have "first_key t < first_key u" if "u \<in> set ts" for u
    using that first_key_in [of t] first_key_in [of u] by (fastforce simp: sorted_wrt_append list_all_iff)
  with Cons show ?case by (simp add: sorted_wrt_append)
qed simp

lemma sorted_forest_below:
  assumes "sorted_wrt (<) (map fst (concat (map witems ts)))" and "list_all (\<lambda>t. witems t \<noteq> []) ts"
    and "i < j" and "j < length ts" and "k \<in> fst ` set (witems (ts ! i))"
  shows "k < first_key (ts ! j)"
  using assms
proof (induction ts arbitrary: i j)
  case (Cons t ts)
  then obtain j' where j: "j = Suc j'" "j' < length ts" by (cases j) auto
  show ?case
  proof (cases i)
    case 0
    then show ?thesis
      using Cons.prems j first_key_in [of "ts ! j'"] nth_mem [OF j(2)]
      by (fastforce simp: sorted_wrt_append list_all_iff)
  next
    case (Suc i')
    with Cons.prems j show ?thesis by (simp add: Cons.IH sorted_wrt_append)
  qed
qed simp

lemma fst_child_ptrs [simp]: "map fst (child_ptrs ns base i ts) = map first_key ts"
  by (induction ts arbitrary: i) simp_all

lemma wheight_child: "t \<in> set ts \<Longrightarrow> wheight t < wheight (WNode ts)"
proof -
  have "a \<le> fold max xs a \<and> (x \<in> set xs \<longrightarrow> x \<le> fold max xs a)" for x a :: nat and xs
  proof (induction xs arbitrary: a)
    case (Cons y xs)
    from Cons [of "max y a"] show ?case by auto
  qed simp
  then show "t \<in> set ts \<Longrightarrow> ?thesis" by (simp add: less_Suc_eq_le)
qed

lemma word8_nonzero: "0 < n \<Longrightarrow> n < 256 \<Longrightarrow> (word_of_nat n :: u8) \<noteq> 0"
  by (auto simp: word_of_nat_eq_0_iff dest: nat_dvd_not_less)

lemma wblocks_good:
  "wtree_fits (unat ns) t \<Longrightarrow> sorted_wrt (<) (map fst (witems t)) \<Longrightarrow> wheight t < 256 \<Longrightarrow> j < wsize t \<Longrightarrow>
   block_good crc ns (block_addr ns base (i + j)) (wblocks crc ns base i t ! j)"
  "list_all (\<lambda>t. wtree_fits (unat ns) t \<and> sorted_wrt (<) (map fst (witems t)) \<and> wheight t < 256) ts \<Longrightarrow>
   j < sum_list (map wsize ts) \<Longrightarrow>
   block_good crc ns (block_addr ns base (i + j)) (fblocks crc ns base i ts ! j)"
proof (induction crc ns base i t and crc ns base i ts arbitrary: j and j rule: wblocks_fblocks.induct)
  case (1 crc ns base i kvs)
  then show ?case by (simp add: built_leaf_good)
next
  case (2 crc ns base i ts)
  show ?case
  proof (cases j)
    case 0
    have "(word_of_nat (wheight (WNode ts)) :: u8) \<noteq> 0" using "2.prems" by (intro word8_nonzero) simp_all
    moreover have "sorted_wrt (<) (map first_key ts)"
      using "2.prems" by (intro sorted_forest_keys) (auto simp: list_all_iff)
    ultimately show ?thesis using "2.prems" 0 by (simp add: built_node_good)
  next
    case (Suc j')
    have "list_all (\<lambda>t. wtree_fits (unat ns) t \<and> sorted_wrt (<) (map fst (witems t)) \<and> wheight t < 256) ts"
      using "2.prems" wheight_child [of _ ts] sorted_forest_parts [of ts] by (fastforce simp: list_all_iff)
    with "2.prems" Suc "2.IH" [of j'] show ?thesis by simp
  qed
next
  case (3 crc ns base i)
  then show ?case by simp
next
  case (4 crc ns base i t ts)
  show ?case
  proof (cases "j < wsize t")
    case True
    with 4 show ?thesis by (simp add: nth_append)
  next
    case False
    with 4 show ?thesis using "4.IH"(2) [of "j - wsize t"] by (simp add: nth_append)
  qed
qed

section \<open>The device holds the tree\<close>

lemma block_addr_unat:
  "unat base + i * unat ns < 2 ^ 64 \<Longrightarrow> unat (block_addr ns base i) = unat base + i * unat ns"
proof -
  assume fit: "unat base + i * unat ns < 2 ^ 64"
  then have "unat (word_of_nat (i * unat ns) :: u64) = i * unat ns" by (intro unat_word_of_nat_small) simp
  with fit show ?thesis by (simp add: block_addr_def unat_plus_no_wrap)
qed

lemma length_wblocks_body:
  "wtree_fits (unat ns) t \<Longrightarrow> b \<in> set (wblocks crc ns base i t) \<Longrightarrow> length (tb_body b) = unat ns"
  "list_all (wtree_fits (unat ns)) ts \<Longrightarrow> b \<in> set (fblocks crc ns base i ts) \<Longrightarrow> length (tb_body b) = unat ns"
  by (induction crc ns base i t and crc ns base i ts rule: wblocks_fblocks.induct)
    (auto simp: built_leaf_length built_node_length list_all_iff)

lemma length_concat_same: "(\<And>x. x \<in> set xs \<Longrightarrow> length (f x) = n) \<Longrightarrow> length (concat (map f xs)) = length xs * n"
  by (induction xs) auto

lemma write_volume:
  assumes "wtree_fits (unat ns) t" and "wsize t * unat ns < 2 ^ 32"
    and "unat base + wsize t * unat ns \<le> isize_max"
  shows "obind (write_tree crc ns base 0 t) (synth_tree base) =
    Ok (volume_map base (wsize t * unat ns),
        replicate (unat base) 0 @ concat (map tb_body (wblocks crc ns base 0 t)))"
proof -
  have len: "length (concat (map tb_body (wblocks crc ns base 0 t))) = wsize t * unat ns"
    using length_concat_same [of "wblocks crc ns base 0 t" tb_body "unat ns"] length_wblocks_body(1) [OF assms(1)]
    by simp
  with assms(2) have "length (concat (map tb_body (wblocks crc ns base 0 t))) =
      unat (word_of_nat (wsize t * unat ns) :: u32)"
    by (subst unat_word_of_nat_small) simp_all
  from synth_volume_eq [OF this, of base] show ?thesis
    using assms by (simp add: write_tree_eq synth_tree_def len Let_def)
qed

lemma written_block_read:
  assumes good: "\<forall>j < length bs. block_good crc ns (block_addr ns base j) (bs ! j)" and ns: "101 \<le> unat ns"
    and fit: "unat base + length bs * unat ns \<le> isize_max" and j: "j < length bs"
    and front: "length front = unat base" and d: "d = None \<or> d = Some 1"
  shows "read_tree_block (slice_platform (front @ concat (map tb_body bs)) crc alloc)
    (volume_map base (length bs * unat ns)\<lparr>local_devid := d\<rparr>) ns (block_addr ns base j) = Ok (bs ! j)"
proof -
  let ?blocks = "concat (map tb_body bs)" and ?pre = "concat (map tb_body (take j bs))"
  have same: "length (tb_body b) = unat ns" if "b \<in> set bs" for b
    using that good by (auto simp: block_good_def in_set_conv_nth)
  have split: "?blocks = ?pre @ tb_body (bs ! j) @ concat (map tb_body (drop (j + 1) bs))"
    "length ?pre = j * unat ns"
    using concat_split_nth [of bs tb_body "unat ns" j] same j by blast+
  have len: "length ?blocks = length bs * unat ns" by (rule length_concat_same [OF same])
  from good j have b: "block_good crc ns (block_addr ns base j) (bs ! j)" by blast
  then obtain body where body: "tb_body (bs ! j) = (le_bytes (crc body) @ replicate 28 0) @ body"
    by (auto simp: block_good_def)
  have "j * unat ns \<le> length bs * unat ns" using j by (intro mult_right_mono) simp_all
  with fit have "unat base + j * unat ns \<le> isize_max" by linarith
  then have "unat base + j * unat ns < 2 ^ 64" by (simp add: isize_max_def)
  from block_addr_unat [OF this] have a: "unat (block_addr ns base j) = unat base + length ?pre" using split(2) by simp
  show ?thesis
    unfolding len [symmetric]
  proof (rule volume_read [where crc = crc and body = body and pre = ?pre])
    show "unat base + length ?blocks \<le> isize_max" using fit by (simp only: len)
  qed (use b ns body split(1) a front d in \<open>unfold block_good_def, blast\<close>)+
qed

text \<open>Loading, from readable blocks.\<close>

lemma wdtree_loads:
  "(\<And>j. j < wsize t \<Longrightarrow> read_tree_block P cm ns (block_addr ns base (i + j)) = Ok (wblocks crc ns base i t ! j)) \<Longrightarrow>
   wtree_fits (unat ns) t \<Longrightarrow> wheight t \<le> fuel \<Longrightarrow> wheight t < 256 \<Longrightarrow>
   load_tree P cm ns fuel (block_addr ns base i) = Some (wdtree crc ns base i t)"
  "(\<And>j. j < sum_list (map wsize ts) \<Longrightarrow>
      read_tree_block P cm ns (block_addr ns base (i + j)) = Ok (fblocks crc ns base i ts ! j)) \<Longrightarrow>
   list_all (\<lambda>t. wtree_fits (unat ns) t \<and> wheight t \<le> fuel \<and> wheight t < 256) ts \<Longrightarrow>
   map (\<lambda>p. load_tree P cm ns fuel (snd p)) (child_ptrs ns base i ts) = map Some (fdtrees crc ns base i ts)"
proof (induction crc ns base i t and crc ns base i ts arbitrary: fuel and fuel rule: wblocks_fblocks.induct)
  case (1 crc ns base i kvs)
  from "1.prems"(1) [of 0] show ?case by (cases fuel) simp_all
next
  case (2 crc ns base i ts)
  let ?ptrs = "child_ptrs ns base (i + 1) ts"
  let ?b = "built_node crc (unat ns) (block_addr ns base i) (word_of_nat (wheight (WNode ts))) ?ptrs"
  obtain f where f: "fuel = Suc f" using "2.prems"(3) by (cases fuel) simp_all
  have read: "read_tree_block P cm ns (block_addr ns base i) = Ok ?b" using "2.prems"(1) [of 0] by simp
  have "list_all (\<lambda>t. wtree_fits (unat ns) t \<and> wheight t \<le> f \<and> wheight t < 256) ts"
    using "2.prems"(2-4) wheight_child [of _ ts] f by (fastforce simp: list_all_iff)
  then have kids: "map (\<lambda>p. load_tree P cm ns f (snd p)) ?ptrs = map Some (fdtrees crc ns base (i + 1) ts)"
  proof (rule "2.IH" [rotated])
    fix j assume "j < sum_list (map wsize ts)"
    with "2.prems"(1) [of "Suc j"]
    show "read_tree_block P cm ns (block_addr ns base (i + 1 + j)) = Ok (fblocks crc ns base (i + 1) ts ! j)" by simp
  qed
  have len: "length ts < 4294967296" using "2.prems"(2) size_bounds(2) [of ?ptrs ns] by simp
  have "map (\<lambda>k. case tb_key_ptr ?b k of Ok kp \<Rightarrow> load_tree P cm ns f (kp_blockptr kp) | _ \<Rightarrow> None) [0..<length ts] =
      map (\<lambda>p. load_tree P cm ns f (snd p)) ?ptrs"
    using len by (intro nth_equalityI) (simp_all add: built_node_ptr)
  moreover have "tb_nritems ?b = length ts" using len by (simp add: unat_word_of_nat_small)
  moreover have "tb_level ?b \<noteq> 0" using word8_nonzero [OF _ "2.prems"(4)] by simp
  ultimately show ?case
    using read kids by (simp add: f those_Some_iff del: wheight.simps)
next
  case (3 crc ns base i)
  then show ?case by simp
next
  case (4 crc ns base i t ts)
  have "load_tree P cm ns fuel (block_addr ns base i) = Some (wdtree crc ns base i t)"
  proof (rule "4.IH"(1))
    fix j assume j: "j < wsize t"
    with "4.prems"(1) [of j] show "read_tree_block P cm ns (block_addr ns base (i + j)) = Ok (wblocks crc ns base i t ! j)"
      by (simp add: nth_append)
  qed (use "4.prems"(2) in simp_all)
  moreover have "map (\<lambda>p. load_tree P cm ns fuel (snd p)) (child_ptrs ns base (i + wsize t) ts) =
      map Some (fdtrees crc ns base (i + wsize t) ts)"
  proof (rule "4.IH"(2))
    fix j assume j: "j < sum_list (map wsize ts)"
    with "4.prems"(1) [of "wsize t + j"]
    show "read_tree_block P cm ns (block_addr ns base (i + wsize t + j)) = Ok (fblocks crc ns base (i + wsize t) ts ! j)"
      by (simp add: nth_append add.assoc)
  qed (use "4.prems"(2) in simp_all)
  ultimately show ?case by simp
qed

section \<open>The tree is well-formed and holds the items\<close>

lemma wdtree_slots:
  "wtree_fits (unat ns) t \<Longrightarrow>
   map (\<lambda>s. (slot_key s, slot_data s)) (dtree_slots (wdtree crc ns base i t)) =
     map (\<lambda>(k, d). (k, Ok d)) (witems t)"
  "list_all (wtree_fits (unat ns)) ts \<Longrightarrow>
   map (\<lambda>s. (slot_key s, slot_data s)) (concat (map dtree_slots (fdtrees crc ns base i ts))) =
     map (\<lambda>(k, d). (k, Ok d)) (concat (map witems ts))"
proof (induction crc ns base i t and crc ns base i ts rule: wblocks_fblocks.induct)
  case (1 crc ns base i kvs)
  let ?b = "built_leaf crc (unat ns) (block_addr ns base i) kvs"
  from 1 have fits: "kv_size kvs \<le> unat ns" by simp
  note len = size_bounds(1) [OF fits]
  have "slot_key (?b, j) = fst (kvs ! j) \<and> slot_data (?b, j) = Ok (snd (kvs ! j))" if "j < length kvs" for j
    using that len built_leaf_data [OF fits _ that, of crc "block_addr ns base i"]
    by (simp add: slot_key_def slot_data_def tb_leaf_key_def built_leaf_item) (simp add: tail_items_nth)
  moreover have "tb_nritems ?b = length kvs" using len by (simp add: unat_word_of_nat_small)
  ultimately show ?case
    by (simp add: leaf_slots_def) (rule nth_equalityI; simp add: split_beta)
qed (auto simp: list_all_iff)

lemma wdtree_keys:
  assumes "wtree_fits (unat ns) t"
  shows "map slot_key (dtree_slots (wdtree crc ns base i t)) = map fst (witems t)"
  using arg_cong [OF wdtree_slots(1) [OF assms], of "map fst"] by (simp add: comp_def case_prod_unfold)

lemma nth_fdtrees:
  "j < length ts \<Longrightarrow> \<exists>i'. fdtrees crc ns base i ts ! j = wdtree crc ns base i' (ts ! j)"
  by (induction ts arbitrary: i j) (auto simp: nth_Cons split: nat.split)

lemma wdtree_wf:
  "wtree_fits (unat ns) t \<Longrightarrow> sorted_wrt (<) (map fst (witems t)) \<Longrightarrow> dtree_wf (wdtree crc ns base i t)"
  "list_all (\<lambda>t. wtree_fits (unat ns) t \<and> sorted_wrt (<) (map fst (witems t))) ts \<Longrightarrow>
   list_all dtree_wf (fdtrees crc ns base i ts)"
proof (induction crc ns base i t and crc ns base i ts rule: wblocks_fblocks.induct)
  case (1 crc ns base i kvs)
  then show ?case
    using size_bounds(1) [of kvs ns] by (auto simp: list_all_iff built_leaf_item unat_word_of_nat_small)
next
  case (2 crc ns base i ts)
  let ?ptrs = "child_ptrs ns base (i + 1) ts"
  let ?b = "built_node crc (unat ns) (block_addr ns base i) (word_of_nat (wheight (WNode ts))) ?ptrs"
  have len: "length ts < 4294967296" using "2.prems"(1) size_bounds(2) [of ?ptrs ns] by simp
  have fits: "list_all (wtree_fits (unat ns)) ts" "list_all (\<lambda>t. witems t \<noteq> []) ts"
    using "2.prems"(1) by (simp_all add: list_all_iff)
  have sorted: "sorted_wrt (<) (map fst (concat (map witems ts)))" using "2.prems"(2) by simp
  have sep: "sep_key ?b j = first_key (ts ! j)" if "j < length ts" for j
  proof -
    have "fst (?ptrs ! j) = first_key (ts ! j)" using that fst_child_ptrs [of ns base "i + 1" ts] by (metis length_child_ptrs nth_map)
    then show ?thesis using that len by (simp add: sep_key_def tb_node_key_def built_node_ptr)
  qed
  have "child_bounds ?b (length ts) j (dtree_slots (fdtrees crc ns base (i + 1) ts ! j))" if j: "j < length ts" for j
  proof -
    obtain i' where i': "fdtrees crc ns base (i + 1) ts ! j = wdtree crc ns base i' (ts ! j)"
      using nth_fdtrees [OF j] by blast
    have t: "wtree_fits (unat ns) (ts ! j)" "witems (ts ! j) \<noteq> []" using fits j by (simp_all add: list_all_length)
    let ?ss = "dtree_slots (wdtree crc ns base i' (ts ! j))"
    have keys: "map slot_key ?ss = map fst (witems (ts ! j))" by (rule wdtree_keys [OF t(1)])
    then have set: "slot_key ` set ?ss = fst ` set (witems (ts ! j))" by (metis set_map)
    have "sorted_wrt (<) (map fst (witems (ts ! j)))" using sorted_forest_parts [OF sorted] j by simp
    then have "\<forall>k \<in> slot_key ` set ?ss. sep_key ?b j \<le> k" using sep [OF j] first_key_le set by metis
    moreover have "\<forall>k \<in> slot_key ` set ?ss. k < sep_key ?b (j + 1)" if "j + 1 < length ts"
      using sep [OF that] sorted_forest_below [OF sorted fits(2) _ that, of j] set by simp
    moreover have "?ss \<noteq> []" using keys t(2) by auto
    ultimately show ?thesis unfolding child_bounds_def i' by auto
  qed
  moreover have "list_all dtree_wf (fdtrees crc ns base (i + 1) ts)"
    using "2.IH" fits sorted_forest_parts [OF sorted] by (simp add: list_all_iff)
  moreover have "fdtrees crc ns base (i + 1) ts \<noteq> []" using "2.prems"(1) by (cases ts) simp_all
  ultimately show ?case by (simp add: list_all_iff)
qed simp_all

section \<open>Lookups on what was written\<close>

text \<open>The conditions on a tree: it fits, its keys ascend, it is no higher than the code descends.\<close>

definition wtree_ok :: "u32 \<Rightarrow> u64 \<Rightarrow> wtree \<Rightarrow> bool" where
  "wtree_ok ns base t \<longleftrightarrow>
     wtree_fits (unat ns) t \<and> sorted_wrt (<) (map fst (witems t)) \<and> wheight t \<le> 16 \<and>
     wsize t * unat ns < 2 ^ 32 \<and> unat base + wsize t * unat ns \<le> isize_max"

definition written_device :: "(u8 list \<Rightarrow> u32) \<Rightarrow> u32 \<Rightarrow> u64 \<Rightarrow> wtree \<Rightarrow> u8 list" where
  "written_device crc ns base t = replicate (unat base) 0 @ concat (map tb_body (wblocks crc ns base 0 t))"

lemma wtree_fits_101: "wtree_fits n t \<Longrightarrow> 101 \<le> n"
  by (cases t) (simp_all add: kv_size_def)

lemma written_tree_at:
  fixes crc :: "u8 list \<Rightarrow> u32" and alloc :: "nat \<Rightarrow> bool" and ns :: u32 and base :: u64 and front :: "u8 list"
    and d :: "u64 option"
  assumes "wtree_ok ns base t" and front: "length front = unat base" and d: "d = None \<or> d = Some 1"
  defines "P \<equiv> slice_platform (front @ concat (map tb_body (wblocks crc ns base 0 t))) crc alloc"
    and "cm \<equiv> volume_map base (wsize t * unat ns)\<lparr>local_devid := d\<rparr>"
  shows "tree_ok P cm ns base"
    and "map (\<lambda>s. (slot_key s, slot_data s)) (tree_slots P cm ns base) = map (\<lambda>(k, d). (k, Ok d)) (witems t)"
proof -
  from assms(1) have ok: "wtree_fits (unat ns) t" "sorted_wrt (<) (map fst (witems t))" "wheight t \<le> 16"
    "unat base + wsize t * unat ns \<le> isize_max"
    by (simp_all add: wtree_ok_def)
  have "\<forall>j < wsize t. block_good crc ns (block_addr ns base j) (wblocks crc ns base 0 t ! j)"
    using wblocks_good(1) [OF ok(1,2), of _ crc base 0] ok(3) by simp
  then have read: "read_tree_block P cm ns (block_addr ns base (0 + j)) = Ok (wblocks crc ns base 0 t ! j)"
    if "j < wsize t" for j
    using written_block_read [of "wblocks crc ns base 0 t" crc ns base j front d alloc] that ok(4) wtree_fits_101 [OF ok(1)]
      front d
    by (simp add: P_def cm_def)
  have "load_tree P cm ns 16 (block_addr ns base 0) = Some (wdtree crc ns base 0 t)"
    by (rule wdtree_loads(1) [OF read]) (use ok in simp_all)
  then have load: "tree_of P cm ns base = Some (wdtree crc ns base 0 t)"
    by (simp add: tree_of_def MAX_TREE_DEPTH_def block_addr_def)
  show "tree_ok P cm ns base" using wdtree_wf(1) [OF ok(1,2)] by (simp add: tree_ok_def load)
  show "map (\<lambda>s. (slot_key s, slot_data s)) (tree_slots P cm ns base) = map (\<lambda>(k, d). (k, Ok d)) (witems t)"
    using wdtree_slots(1) [OF ok(1)] by (simp add: tree_slots_def load)
qed

lemmas written_tree = written_tree_at [of ns base t "replicate (unat base) 0" None for ns base t, simplified,
  folded written_device_def]

text \<open>The data under a key.\<close>

definition lookup_data :: "platform \<Rightarrow> chunk_map \<Rightarrow> u32 \<Rightarrow> u64 \<Rightarrow> disk_key \<Rightarrow> u8 list option outcome" where
  "lookup_data P cm ns root key =
     obind (find_exact P cm ns root key) (\<lambda>found.
     case found of None \<Rightarrow> Ok None | Some s \<Rightarrow> obind (slot_data s) (\<lambda>data. Ok (Some data)))"

lemma find_slot_map_of:
  assumes "map (\<lambda>s. (slot_key s, slot_data s)) ss = map (\<lambda>(k, d). (k, Ok d)) kvs"
  shows "(case find (\<lambda>s. slot_key s = key) ss of None \<Rightarrow> Ok None
    | Some s \<Rightarrow> obind (slot_data s) (\<lambda>data. Ok (Some data))) = Ok (map_of kvs key)"
  using assms
proof (induction ss arbitrary: kvs)
  case (Cons s ss)
  then show ?case by (cases kvs) auto
qed simp

text \<open>
  C8. Writing and reading are inverse on whole trees. A tree of any shape, with up to sixteen interior
  levels, written with the block builders of the crate's tests and laid out from \<open>base\<close> in one chunk, is
  a well-formed tree for the walker under any checksum function; its slots hold the items in order, and
  looking a key up returns the bytes written under it, or nothing when the key was not written.
\<close>

theorem written_tree_is_map:
  assumes "wtree_ok ns base t"
  shows "\<exists>cm device. obind (write_tree crc ns base 0 t) (synth_tree base) = Ok (cm, device) \<and>
    tree_ok (slice_platform device crc alloc) cm ns base \<and>
    map slot_key (tree_slots (slice_platform device crc alloc) cm ns base) = map fst (witems t) \<and>
    (\<forall>key. lookup_data (slice_platform device crc alloc) cm ns base key = Ok (map_of (witems t) key))"
proof -
  let ?P = "slice_platform (written_device crc ns base t) crc alloc" and ?cm = "volume_map base (wsize t * unat ns)"
  note tree = written_tree [OF assms, of crc alloc]
  have "obind (write_tree crc ns base 0 t) (synth_tree base) = Ok (?cm, written_device crc ns base t)"
    using assms by (simp add: write_volume wtree_ok_def written_device_def)
  moreover have "map slot_key (tree_slots ?P ?cm ns base) = map fst (witems t)"
    using arg_cong [OF tree(2), of "map fst"] by (simp add: comp_def case_prod_unfold)
  moreover have "lookup_data ?P ?cm ns base key = Ok (map_of (witems t) key)" for key
    using find_slot_map_of [OF tree(2)] by (simp add: lookup_data_def find_exact_eq [OF tree(1)])
  ultimately show ?thesis using tree(1) by blast
qed

section \<open>The trees of the tests\<close>

definition test_key :: "u64 \<Rightarrow> disk_key" where
  "test_key objectid = DiskKey objectid 1 0"

definition two_leaf_tree :: "(u8 list \<Rightarrow> u32) \<Rightarrow> u32 \<Rightarrow> u64 \<Rightarrow> (chunk_map \<times> u8 list) outcome" where
  "two_leaf_tree crc nodesize base =
    (let n = ucast nodesize in
     obind (build_node crc nodesize base 1 [(test_key 1, base + n), (test_key 5, base + 2 * n)]) (\<lambda>root.
     obind (build_leaf crc nodesize (base + n) [(test_key 1, [0x31]), (test_key 2, [0x32])]) (\<lambda>a.
     obind (build_leaf crc nodesize (base + 2 * n) [(test_key 5, [0x35]), (test_key 6, [0x36])]) (\<lambda>b.
     synth_tree base [root, a, b]))))"

definition two_leaves :: wtree where
  "two_leaves = WNode
     [WLeaf [(test_key 1, [0x31]), (test_key 2, [0x32])], WLeaf [(test_key 5, [0x35]), (test_key 6, [0x36])]]"

lemma two_leaf_tree_written: "two_leaf_tree crc ns base = obind (write_tree crc ns base 0 two_leaves) (synth_tree base)"
proof -
  have "word_of_nat (unat ns) = (ucast ns :: u64)" by (simp add: unsigned_ucast_eq flip: word_unat_eq_iff)
  then have "block_addr ns base 0 = base" "block_addr ns base (Suc 0) = base + ucast ns"
    "block_addr ns base (Suc (Suc 0)) = base + 2 * ucast ns"
    by (simp_all add: block_addr_def)
  then show ?thesis
    by (simp add: two_leaf_tree_def two_leaves_def first_key_def Let_def obind_assoc)
qed

lemma two_leaves_ok: "wtree_ok 4096 0x100000 two_leaves"
  by (simp add: wtree_ok_def two_leaves_def kv_size_def test_key_def disk_key_less_iff isize_max_def)

theorem written_tree_is_map_witness:
  "\<exists>cm device. two_leaf_tree (\<lambda>_. 0) 4096 0x100000 = Ok (cm, device) \<and>
    tree_ok (slice_platform device (\<lambda>_. 0) (\<lambda>_. True)) cm 4096 0x100000 \<and>
    lookup_data (slice_platform device (\<lambda>_. 0) (\<lambda>_. True)) cm 4096 0x100000 (test_key 6) = Ok (Some [0x36]) \<and>
    lookup_data (slice_platform device (\<lambda>_. 0) (\<lambda>_. True)) cm 4096 0x100000 (test_key 3) = Ok None"
proof -
  obtain cm device where w:
    "obind (write_tree (\<lambda>_. 0) 4096 0x100000 0 two_leaves) (synth_tree 0x100000) = Ok (cm, device)"
    "tree_ok (slice_platform device (\<lambda>_. 0) (\<lambda>_. True)) cm 4096 0x100000"
    "\<forall>key. lookup_data (slice_platform device (\<lambda>_. 0) (\<lambda>_. True)) cm 4096 0x100000 key = Ok (map_of (witems two_leaves) key)"
    using written_tree_is_map [OF two_leaves_ok, of "\<lambda>_. 0" "\<lambda>_. True"] by blast
  show ?thesis
    by (rule exI [of _ cm], rule exI [of _ device])
      (simp add: two_leaf_tree_written w, simp add: two_leaves_def test_key_def)
qed

end
