(* ===== verification/Written_Fs.thy ===== *)
theory Written_Fs
  imports Abstract_Fs Written_Tree
begin

unbundle bit_operations_syntax

text \<open>
  Storing a filesystem. Any abstract filesystem, given as a list of numbered nodes, is turned into the items
  that btrfs keeps for it: inode items, directory entries packed under the hash of their name, directory
  entries by index, inline extents. Any tree that holds these items refines the filesystem, so that every
  operation reads back what was stored.
\<close>

section \<open>The items of a filesystem\<close>

type_synonym fs_spec = "(u64 \<times> u64 node) list"

fun node_mode :: "'i node \<Rightarrow> u32" where
  "node_mode (AFile bytes) = 0x81A4"
| "node_mode (ADir E) = 0x41ED"
| "node_mode (ALink target) = 0xA1FF"

fun node_type :: "'i node \<Rightarrow> u8" where
  "node_type (AFile bytes) = 1"
| "node_type (ADir E) = 2"
| "node_type (ALink target) = 7"

fun node_bytes :: "'i node \<Rightarrow> u8 list" where
  "node_bytes (AFile bytes) = bytes"
| "node_bytes (ADir E) = []"
| "node_bytes (ALink target) = target"

definition stored_entry :: "fs_spec \<Rightarrow> u8 list \<times> u64 \<Rightarrow> packed_entry" where
  "stored_entry A e = (case e of (name, oid) \<Rightarrow>
     (\<lparr>de_location = DiskKey oid INODE_ITEM_KEY 0, de_transid = 1, de_data_len = 0,
       de_name_len = word_of_nat (length name),
       de_ty = (case map_of A oid of Some nd \<Rightarrow> node_type nd | None \<Rightarrow> 0), de_name = name\<rparr>, []))"

definition inline_extent :: "u8 list \<Rightarrow> u8 list" where
  "inline_extent bytes = replicate 8 0 @ le_bytes (word_of_nat (length bytes) :: u64) @ replicate 5 0 @ bytes"

definition inode_kv :: "u64 \<Rightarrow> u64 node \<Rightarrow> kv" where
  "inode_kv oid nd = (DiskKey oid INODE_ITEM_KEY 0, inode_bytes (word_of_nat (length (node_bytes nd))) (node_mode nd))"

definition entry_hashes :: "(u8 list \<times> u64) list \<Rightarrow> u64 list" where
  "entry_hashes E = sort (remdups (map (\<lambda>e. name_hash (fst e)) E))"

definition hash_kv :: "fs_spec \<Rightarrow> u64 \<Rightarrow> (u8 list \<times> u64) list \<Rightarrow> u64 \<Rightarrow> kv" where
  "hash_kv A oid E h =
     (DiskKey oid DIR_ITEM_KEY h, encode_packed (map (stored_entry A) (filter (\<lambda>e. name_hash (fst e) = h) E)))"

definition index_kv :: "fs_spec \<Rightarrow> u64 \<Rightarrow> nat \<Rightarrow> u8 list \<times> u64 \<Rightarrow> kv" where
  "index_kv A oid i e = (DiskKey oid DIR_INDEX_KEY (word_of_nat i), encode_packed [stored_entry A e])"

definition index_kvs :: "fs_spec \<Rightarrow> u64 \<Rightarrow> (u8 list \<times> u64) list \<Rightarrow> kv list" where
  "index_kvs A oid E = map2 (index_kv A oid) [2..<2 + length E] E"

fun content_kvs :: "fs_spec \<Rightarrow> u64 \<Rightarrow> u64 node \<Rightarrow> kv list" where
  "content_kvs A oid (AFile bytes) = (if bytes = [] then [] else [(DiskKey oid EXTENT_DATA_KEY 0, inline_extent bytes)])"
| "content_kvs A oid (ADir E) = map (hash_kv A oid E) (entry_hashes E) @ index_kvs A oid E"
| "content_kvs A oid (ALink target) = [(DiskKey oid EXTENT_DATA_KEY 0, inline_extent target)]"

definition node_kvs :: "fs_spec \<Rightarrow> u64 \<times> u64 node \<Rightarrow> kv list" where
  "node_kvs A n = inode_kv (fst n) (snd n) # content_kvs A (fst n) (snd n)"

definition fs_kvs :: "fs_spec \<Rightarrow> kv list" where
  "fs_kvs A = concat (map (node_kvs A) A)"

text \<open>
  What a filesystem has to satisfy to be stored: inode numbers ascend from 256, the number of the root
  directory; names in a directory are distinct and short enough for their length field; entries lead to
  nodes; contents fit an inline extent.
\<close>

fun node_ok :: "u64 set \<Rightarrow> u64 node \<Rightarrow> bool" where
  "node_ok known (AFile bytes) \<longleftrightarrow> length bytes < 2 ^ 32"
| "node_ok known (ADir E) \<longleftrightarrow>
     length E < 2 ^ 32 \<and> distinct (map fst E) \<and> list_all (\<lambda>(name, oid). length name < 2 ^ 16 \<and> oid \<in> known) E"
| "node_ok known (ALink target) \<longleftrightarrow> length target < 2 ^ 32"

definition spec_ok :: "fs_spec \<Rightarrow> bool" where
  "spec_ok A \<longleftrightarrow>
     sorted_wrt (<) (map fst A) \<and> (\<exists>E. A \<noteq> [] \<and> hd A = (FIRST_FREE_OBJECTID, ADir E)) \<and>
     list_all (\<lambda>n. node_ok (fst ` set A) (snd n)) A"

text \<open>The abstract filesystem it is, in the tree at \<open>root\<close> of the subvolume \<open>subvol\<close>.\<close>

definition spec_afs :: "u64 \<Rightarrow> u64 \<Rightarrow> fs_spec \<Rightarrow> inode afs" where
  "spec_afs subvol root A i =
     (if ino_subvol i = subvol \<and> ino_tree_root i = root
      then map_option (map_node (\<lambda>oid. \<lparr>ino_subvol = subvol, ino_tree_root = root, ino_objectid = oid\<rparr>))
        (map_of A (ino_objectid i))
      else None)"

section \<open>Slots that hold items\<close>

definition slots_hold :: "slot list \<Rightarrow> kv list \<Rightarrow> bool" where
  "slots_hold ss kvs \<longleftrightarrow> map (\<lambda>s. (slot_key s, slot_data s)) ss = map (\<lambda>(k, d). (k, Ok d)) kvs"

definition object_kvs :: "u64 \<Rightarrow> u8 \<Rightarrow> kv list \<Rightarrow> kv list" where
  "object_kvs oid ty kvs = filter (\<lambda>kv. key_objectid (fst kv) = oid \<and> key_item_type (fst kv) = ty) kvs"

lemma slots_hold_Nil [simp]: "slots_hold [] kvs \<longleftrightarrow> kvs = []" "slots_hold ss [] \<longleftrightarrow> ss = []"
  by (auto simp: slots_hold_def)

lemma slots_hold_Cons:
  "slots_hold (s # ss) kvs \<longleftrightarrow>
     (\<exists>k d kvs'. kvs = (k, d) # kvs' \<and> slot_key s = k \<and> slot_data s = Ok d \<and> slots_hold ss kvs')"
  by (cases kvs) (auto simp: slots_hold_def)

lemma slots_hold_single: "slots_hold ss [(k, d)] \<longleftrightarrow> (\<exists>s. ss = [s] \<and> slot_key s = k \<and> slot_data s = Ok d)"
  by (cases ss) (auto simp: slots_hold_Cons)

lemma slots_hold_object:
  "slots_hold ss kvs \<Longrightarrow> slots_hold (filter (of_object oid ty) ss) (object_kvs oid ty kvs)"
  by (induction ss arbitrary: kvs) (auto simp: slots_hold_Cons object_kvs_def of_object_def)

lemma slots_hold_find:
  "slots_hold ss kvs \<Longrightarrow>
   case find (of_object oid ty) ss of
     None \<Rightarrow> object_kvs oid ty kvs = []
   | Some s \<Rightarrow> \<exists>k d rest. object_kvs oid ty kvs = (k, d) # rest \<and> slot_key s = k \<and> slot_data s = Ok d"
  by (induction ss arbitrary: kvs) (auto simp: slots_hold_Cons object_kvs_def of_object_def split: option.splits)

lemma slots_hold_key:
  "slots_hold ss kvs \<Longrightarrow>
   case find (\<lambda>s. slot_key s = key) ss of
     None \<Rightarrow> map_of kvs key = None
   | Some s \<Rightarrow> \<exists>d. map_of kvs key = Some d \<and> slot_data s = Ok d"
  by (induction ss arbitrary: kvs) (auto simp: slots_hold_Cons split: option.splits)

section \<open>The items in order\<close>

lemma index_kvs_key: "kv \<in> set (index_kvs A oid E) \<Longrightarrow> \<exists>off. fst kv = DiskKey oid DIR_INDEX_KEY off"
  by (auto simp: index_kvs_def index_kv_def simp del: upt_Suc)

lemma node_kvs_object: "kv \<in> set (node_kvs A n) \<Longrightarrow> key_objectid (fst kv) = fst n"
  by (cases "snd n") (auto simp: node_kvs_def inode_kv_def hash_kv_def split: if_splits dest!: index_kvs_key)

lemma word_of_nat_less_iff:
  "a < 2 ^ 64 \<Longrightarrow> b < 2 ^ 64 \<Longrightarrow> (word_of_nat a :: u64) < word_of_nat b \<longleftrightarrow> a < b"
  by (simp add: word_less_nat_alt unat_word_of_nat_small)

lemma content_kvs_sorted:
  assumes "node_ok known nd"
  shows "sorted_wrt (<) (map fst (inode_kv oid nd # content_kvs A oid nd))"
proof (cases nd)
  case (ADir E)
  have hashes: "sorted_wrt (<) (map fst (map (hash_kv A oid E) (entry_hashes E)))"
    using strict_sorted_iff [of "entry_hashes E"]
    by (simp add: sorted_wrt_map hash_kv_def disk_key_less_iff entry_hashes_def)
  have "map fst (index_kvs A oid E) =
      map (\<lambda>i. DiskKey oid DIR_INDEX_KEY (word_of_nat i)) [2..<2 + length E]"
    by (intro nth_equalityI) (simp_all add: index_kvs_def index_kv_def del: upt_Suc)
  moreover have "sorted_wrt (<) (map (\<lambda>i. DiskKey oid DIR_INDEX_KEY (word_of_nat i)) [2..<2 + length E])"
    unfolding sorted_wrt_map
    by (rule sorted_wrt_mono_rel [OF _ sorted_wrt_upt]) (use assms ADir in \<open>auto simp: disk_key_less_iff word_of_nat_less_iff simp del: of_nat_Suc upt_Suc\<close>)
  ultimately have "sorted_wrt (<) (map fst (index_kvs A oid E))" by simp
  with hashes show ?thesis
    by (auto simp: ADir sorted_wrt_append inode_kv_def hash_kv_def disk_key_less_iff format_consts
        dest!: index_kvs_key)
qed (auto simp: inode_kv_def disk_key_less_iff format_consts)

lemma fs_kvs_sorted:
  assumes "spec_ok A"
  shows "sorted_wrt (<) (map fst (fs_kvs A))"
proof -
  have "sorted_wrt (<) (map fst (concat (map (node_kvs B) ns)))"
    if "sorted_wrt (<) (map fst ns)" "list_all (\<lambda>n. node_ok known (snd n)) ns" for B known ns
    using that
  proof (induction ns)
    case (Cons n ns)
    have "sorted_wrt (<) (map fst (node_kvs B n))"
      using Cons.prems content_kvs_sorted [of known "snd n" "fst n" B] by (simp add: node_kvs_def)
    moreover have "k < k'" if "k \<in> fst ` set (node_kvs B n)" "k' \<in> fst ` set (concat (map (node_kvs B) ns))" for k k'
    proof -
      from that(1) have "key_objectid k = fst n" by (auto dest: node_kvs_object)
      moreover from that(2) have "\<exists>m \<in> set ns. key_objectid k' = fst m" by (auto dest: node_kvs_object)
      ultimately have "key_objectid k < key_objectid k'" using Cons.prems(1) by auto
      then show "k < k'" by (cases k; cases k') (simp add: disk_key_less_iff)
    qed
    ultimately show ?case using Cons by (simp add: sorted_wrt_append)
  qed simp
  with assms show ?thesis unfolding fs_kvs_def spec_ok_def by blast
qed

section \<open>The items of one inode\<close>

lemma object_kvs_append: "object_kvs oid ty (xs @ ys) = object_kvs oid ty xs @ object_kvs oid ty ys"
  by (simp add: object_kvs_def)

lemma object_kvs_none: "\<forall>kv \<in> set kvs. key_objectid (fst kv) \<noteq> oid \<Longrightarrow> object_kvs oid ty kvs = []"
  by (auto simp: object_kvs_def)

lemma object_kvs_nodes:
  "sorted_wrt (<) (map fst ns) \<Longrightarrow> (oid, nd) \<in> set ns \<Longrightarrow>
   object_kvs oid ty (concat (map (node_kvs A) ns)) = object_kvs oid ty (node_kvs A (oid, nd))"
proof (induction ns)
  case (Cons n ns)
  show ?case
  proof (cases "n = (oid, nd)")
    case True
    have "\<forall>kv \<in> set (concat (map (node_kvs A) ns)). key_objectid (fst kv) \<noteq> oid"
      using Cons.prems(1) True by (fastforce dest: node_kvs_object)
    from object_kvs_none [OF this, of ty] True show ?thesis by (simp add: object_kvs_append)
  next
    case False
    then have "(oid, nd) \<in> set ns" using Cons.prems by auto
    moreover from this Cons.prems(1) have "fst n < oid" by auto
    then have "object_kvs oid ty (node_kvs A n) = []"
      by (intro object_kvs_none) (auto dest!: node_kvs_object)
    ultimately show ?thesis using Cons by (simp add: object_kvs_append)
  qed
qed simp

lemma object_kvs_uniform:
  assumes "\<forall>kv \<in> set kvs. \<exists>off. fst kv = DiskKey oid ty off"
  shows "object_kvs oid ty' kvs = (if ty' = ty then kvs else [])"
proof -
  from assms have "\<forall>kv \<in> set kvs. key_objectid (fst kv) = oid \<and> key_item_type (fst kv) = ty" by auto
  then show ?thesis by (auto simp: object_kvs_def filter_empty_conv intro: filter_True)
qed

lemma object_kvs_entries:
  "object_kvs oid ty (map (hash_kv A oid E) hs) = (if ty = DIR_ITEM_KEY then map (hash_kv A oid E) hs else [])"
  "object_kvs oid ty (index_kvs A oid E) = (if ty = DIR_INDEX_KEY then index_kvs A oid E else [])"
  by (rule object_kvs_uniform, simp add: hash_kv_def)
    (rule object_kvs_uniform, simp add: index_kvs_key)

lemma object_kvs_single:
  "object_kvs oid ty ((DiskKey oid ty' off, d) # kvs) =
   (if ty = ty' then (DiskKey oid ty' off, d) # object_kvs oid ty kvs else object_kvs oid ty kvs)"
  "object_kvs oid ty [] = []"
  by (auto simp: object_kvs_def)

lemma object_kvs_node:
  "object_kvs oid INODE_ITEM_KEY (node_kvs A (oid, nd)) = [inode_kv oid nd]"
  "object_kvs oid EXTENT_DATA_KEY (node_kvs A (oid, nd)) =
     (case nd of ADir E \<Rightarrow> [] | _ \<Rightarrow> content_kvs A oid nd)"
  "object_kvs oid DIR_INDEX_KEY (node_kvs A (oid, nd)) =
     (case nd of ADir E \<Rightarrow> index_kvs A oid E | _ \<Rightarrow> [])"
  "object_kvs oid DIR_ITEM_KEY (node_kvs A (oid, nd)) =
     (case nd of ADir E \<Rightarrow> map (hash_kv A oid E) (entry_hashes E) | _ \<Rightarrow> [])"
  by (cases nd; simp add: node_kvs_def inode_kv_def object_kvs_single object_kvs_append object_kvs_entries format_consts)+

text \<open>A key of the \<^verbatim>\<open>DIR_ITEM\<close> kind, looked up among all items.\<close>

lemma map_of_object:
  "map_of kvs (DiskKey oid ty off) = map_of (object_kvs oid ty kvs) (DiskKey oid ty off)"
  by (induction kvs) (auto simp: object_kvs_def)

lemma map_of_hash_kvs:
  "map_of (map (hash_kv A oid E) hs) (DiskKey oid DIR_ITEM_KEY h) =
   (if h \<in> set hs
    then Some (encode_packed (map (stored_entry A) (filter (\<lambda>e. name_hash (fst e) = h) E))) else None)"
  by (induction hs) (auto simp: hash_kv_def)

lemma set_entry_hashes [simp]: "set (entry_hashes E) = (\<lambda>e. name_hash (fst e)) ` set E"
  by (simp add: entry_hashes_def)

section \<open>A tree that holds the items refines the filesystem\<close>

text \<open>The tree at \<open>root\<close> holds the items, after items \<open>pre\<close> of objects below the first inode number.\<close>

definition holds_fs :: "btrfs \<Rightarrow> u64 \<Rightarrow> kv list \<Rightarrow> fs_spec \<Rightarrow> bool" where
  "holds_fs fs root pre A \<longleftrightarrow>
     tree_ok (bt_reader fs) (bt_chunk_map fs) (gm_nodesize (bt_geometry fs)) root \<and>
     slots_hold (tree_slots (bt_reader fs) (bt_chunk_map fs) (gm_nodesize (bt_geometry fs)) root) (pre @ fs_kvs A) \<and>
     (\<forall>kv \<in> set pre. key_objectid (fst kv) < FIRST_FREE_OBJECTID) \<and> spec_ok A"

lemma holds_fsD:
  assumes "holds_fs fs root pre A"
  shows "tree_ok (bt_reader fs) (bt_chunk_map fs) (gm_nodesize (bt_geometry fs)) root"
    "slots_hold (tree_slots (bt_reader fs) (bt_chunk_map fs) (gm_nodesize (bt_geometry fs)) root) (pre @ fs_kvs A)"
    "spec_ok A"
  using assms by (simp_all add: holds_fs_def)

lemma spec_node:
  assumes "spec_ok A" and "map_of A oid = Some nd"
  shows "(oid, nd) \<in> set A" "FIRST_FREE_OBJECTID \<le> oid" "node_ok (fst ` set A) nd"
proof -
  show mem: "(oid, nd) \<in> set A" by (rule map_of_SomeD [OF assms(2)])
  from assms(1) obtain E A' where A: "A = (FIRST_FREE_OBJECTID, ADir E) # A'" by (cases A) (auto simp: spec_ok_def)
  then show "FIRST_FREE_OBJECTID \<le> oid" using assms(1) mem by (auto simp: spec_ok_def less_imp_le)
  show "node_ok (fst ` set A) nd" using assms(1) mem by (auto simp: spec_ok_def list_all_iff)
qed

lemma spec_distinct:
  assumes "spec_ok A"
  shows "distinct (map fst A)"
  using assms by (simp add: spec_ok_def strict_sorted_iff)

lemma spec_root: "spec_ok A \<Longrightarrow> \<exists>E. map_of A FIRST_FREE_OBJECTID = Some (ADir E)"
  by (cases A) (auto simp: spec_ok_def)

lemma held_object:
  assumes "holds_fs fs root pre A" and "map_of A oid = Some nd"
  shows "object_kvs oid ty (pre @ fs_kvs A) = object_kvs oid ty (node_kvs A (oid, nd))"
proof -
  note nd = spec_node [OF holds_fsD(3) [OF assms(1)] assms(2)]
  have "object_kvs oid ty pre = []"
    using assms(1) nd(2) by (intro object_kvs_none) (auto simp: holds_fs_def)
  moreover have "object_kvs oid ty (fs_kvs A) = object_kvs oid ty (node_kvs A (oid, nd))"
    using object_kvs_nodes [OF _ nd(1), of ty A] holds_fsD(3) [OF assms(1)] by (simp add: fs_kvs_def spec_ok_def)
  ultimately show ?thesis by (simp add: object_kvs_append)
qed

lemma held_find:
  assumes "holds_fs fs root pre A" and "map_of A oid = Some nd"
  shows "case find (of_object oid ty)
      (tree_slots (bt_reader fs) (bt_chunk_map fs) (gm_nodesize (bt_geometry fs)) root) of
    None \<Rightarrow> object_kvs oid ty (node_kvs A (oid, nd)) = []
  | Some s \<Rightarrow> \<exists>k d rest. object_kvs oid ty (node_kvs A (oid, nd)) = (k, d) # rest \<and> slot_key s = k \<and> slot_data s = Ok d"
  unfolding held_object [OF assms, symmetric] by (rule slots_hold_find [OF holds_fsD(2) [OF assms(1)]])

lemma held_slots:
  assumes "holds_fs fs root pre A" and "map_of A oid = Some nd"
  shows "slots_hold (filter (of_object oid ty)
      (tree_slots (bt_reader fs) (bt_chunk_map fs) (gm_nodesize (bt_geometry fs)) root))
    (object_kvs oid ty (node_kvs A (oid, nd)))"
  using slots_hold_object [OF holds_fsD(2) [OF assms(1)], of oid ty] by (simp add: held_object [OF assms])

subsection \<open>Metadata\<close>

lemma node_bytes_small: "node_ok known nd \<Longrightarrow> length (node_bytes nd) < 2 ^ 32"
  by (cases nd) simp_all

lemma held_metadata:
  assumes "holds_fs fs root pre A" and "map_of A oid = Some nd"
  shows "read_metadata (bt_reader fs) (bt_chunk_map fs) (gm_nodesize (bt_geometry fs)) root oid =
    Ok (files_metadata (word_of_nat (length (node_bytes nd))) (node_mode nd))"
proof -
  have "oid \<noteq> EMPTY_SUBVOL_DIR_OBJECTID"
    using spec_node(2) [OF holds_fsD(3) [OF assms(1)] assms(2)] by (auto simp: format_consts)
  with held_find [OF assms, of INODE_ITEM_KEY] show ?thesis
    by (auto simp: read_metadata_eq [OF holds_fsD(1) [OF assms(1)]] object_kvs_node inode_kv_def inode_bytes_fields
        files_metadata_def split: option.splits)
qed

lemma node_kind_metadata:
  assumes "node_ok known nd"
  shows "node_kind nd (files_metadata (word_of_nat (length (node_bytes nd))) (node_mode nd))"
    and "unat (md_size (files_metadata (word_of_nat (length (node_bytes nd))) mode)) = length (node_bytes nd)"
proof -
  show s: "unat (md_size (files_metadata (word_of_nat (length (node_bytes nd))) mode)) = length (node_bytes nd)" for mode
    using node_bytes_small [OF assms] by (simp add: files_metadata_def unat_word_of_nat_small)
  show "node_kind nd (files_metadata (word_of_nat (length (node_bytes nd))) (node_mode nd))"
    using s by (cases nd) (simp_all add: is_file_def is_dir_def is_symlink_def, simp_all add: files_metadata_def)
qed

subsection \<open>Contents\<close>

lemma inline_header:
  "extent_header (inline_extent bytes) l =
   Ok \<lparr>eh_generation = 0, eh_ram_bytes = word_of_nat (length bytes), eh_compression = COMPRESS_NONE, eh_encryption = 0,
       eh_other_encoding = 0, eh_ty = FILE_EXTENT_INLINE\<rparr>"
  by (simp add: extent_header_eq inline_extent_def extent_data_header_of_def le_field_def from_le_bytes_le_bytes
      nth_append format_consts)

lemma inline_payload [simp]: "drop 21 (inline_extent bytes) = bytes"
  by (simp add: inline_extent_def)

lemma inline_content:
  assumes "length bytes < 2 ^ 32"
  shows "extent_content P C cm ss (inline_extent bytes) = Ok bytes"
proof -
  have un: "unat (word_of_nat (length bytes) :: u64) = length bytes"
    using assms by (intro unat_word_of_nat_small) simp
  show ?thesis
    using assms
    by (simp add: inline_extent_def extent_content_def extent_logical_length_def copy_extent_slice_def extent_header_eq
        extent_data_header_of_def le_field_def from_le_bytes_le_bytes format_consts layout nth_append slice_def
        usize_checked_add_def usize_max_def copy_from_slice_def Let_def un)
qed

lemma held_file:
  assumes "holds_fs fs root pre A" and "map_of A (ino_objectid i) = Some (AFile bytes)" and "ino_tree_root i = root"
  shows "stores_file C fs i bytes"
proof -
  have small: "length bytes < 2 ^ 32" using spec_node(3) [OF holds_fsD(3) [OF assms(1)] assms(2)] by simp
  let ?es = "if bytes = [] then [] else [(0, bytes)]"
  have "slots_hold (filter (of_object (ino_objectid i) EXTENT_DATA_KEY)
      (tree_slots (bt_reader fs) (bt_chunk_map fs) (gm_nodesize (bt_geometry fs)) root))
      (content_kvs A (ino_objectid i) (AFile bytes))"
    using held_slots [OF assms(1,2), of EXTENT_DATA_KEY] by (simp add: object_kvs_node)
  then have "file_extents (bt_reader fs) C (bt_chunk_map fs) (bt_geometry fs) root (ino_objectid i) ?es"
    using inline_content [OF small]
    by (cases "bytes = []") (auto simp: file_extents_def holds_extent_def slots_hold_single)
  moreover have "file_bytes ?es 0 (length bytes) = bytes"
    using file_bytes_inside [of 0 0 "length bytes" bytes "[]"] by (simp add: file_bytes_def)
  ultimately show ?thesis
    using small assms(3) by (auto simp: stores_file_def isize_max_def intro!: exI [of _ ?es])
qed

lemma held_link:
  assumes "holds_fs fs root pre A" and "map_of A (ino_objectid i) = Some (ALink target)" and "ino_tree_root i = root"
  shows "stores_link C fs i (length target) target"
proof -
  let ?h = "\<lparr>eh_generation = 0, eh_ram_bytes = word_of_nat (length target), eh_compression = COMPRESS_NONE,
    eh_encryption = 0, eh_other_encoding = 0, eh_ty = FILE_EXTENT_INLINE\<rparr>"
  from held_find [OF assms(1,2), of EXTENT_DATA_KEY] obtain s where
    "find (of_object (ino_objectid i) EXTENT_DATA_KEY) (inode_tree fs i) = Some s" "slot_data s = Ok (inline_extent target)"
    by (auto simp: object_kvs_node inode_tree_def assms(3) split: option.splits)
  then show ?thesis
    unfolding stores_link_def
    by (intro exI [of _ s] exI [of _ "inline_extent target"] exI [of _ ?h] exI [of _ target]) (simp add: inline_header)
qed

subsection \<open>Directories\<close>

lemma stored_entry_name [simp]: "entry_name (stored_entry A e) = fst e"
  by (simp add: stored_entry_def split: prod.split)

lemma stored_entry_location [simp]: "de_location (fst (stored_entry A e)) = DiskKey (snd e) INODE_ITEM_KEY 0"
  by (simp add: stored_entry_def split: prod.split)

lemma stored_entry_ok:
  assumes "length (fst e) < 2 ^ 16"
  shows "entry_ok (stored_entry A e)" and "\<not> entry_encrypted (fst (stored_entry A e))"
proof -
  have "node_type nd AND FT_ENCRYPTED = 0" for nd :: "u64 node" by (cases nd) (simp_all add: format_consts)
  then show "\<not> entry_encrypted (fst (stored_entry A e))"
    by (simp add: entry_encrypted_def stored_entry_def split: prod.split option.split)
  show "entry_ok (stored_entry A e)"
    using assms by (auto simp: entry_ok_def stored_entry_def unat_word_of_nat_small split: prod.split)
qed

lemma slots_hold_nth:
  assumes "slots_hold ss kvs"
  shows "length ss = length kvs" and "n < length kvs \<Longrightarrow> slot_data (ss ! n) = Ok (snd (kvs ! n))"
proof -
  show len: "length ss = length kvs" using assms by (auto simp: slots_hold_def dest: map_eq_imp_length_eq)
  assume "n < length kvs"
  with arg_cong [OF assms [unfolded slots_hold_def], of "\<lambda>xs. snd (xs ! n)"] len
  show "slot_data (ss ! n) = Ok (snd (kvs ! n))" by (simp add: case_prod_unfold)
qed

lemma held_index:
  "slots_hold ss (index_kvs A oid E) \<Longrightarrow>
   list_all2 (\<lambda>s ed. slot_data s = Ok (encode_packed [ed])) ss (map (stored_entry A) E)"
  using slots_hold_nth [of ss "index_kvs A oid E"]
  by (simp add: list_all2_conv_all_nth index_kvs_def index_kv_def del: upt_Suc)

fun node_entries :: "'i node \<Rightarrow> (u8 list \<times> 'i) list" where
  "node_entries (ADir E) = E"
| "node_entries nd = []"

lemma node_entries_ok:
  "node_ok known nd \<Longrightarrow>
   distinct (map fst (node_entries nd)) \<and> (\<forall>e \<in> set (node_entries nd). length (fst e) < 2 ^ 16 \<and> snd e \<in> known)"
  by (cases nd) (auto simp: list_all_iff)

lemma held_dir:
  assumes "holds_fs fs root pre A" and nd: "map_of A (ino_objectid i) = Some nd" and root: "ino_tree_root i = root"
  shows "dir_holds (bt_reader fs) (fs_trees fs) i (map (stored_entry A) (node_entries nd))"
proof -
  let ?E = "node_entries nd" and ?oid = "ino_objectid i"
  let ?slots = "tree_slots (bt_reader fs) (bt_chunk_map fs) (gm_nodesize (bt_geometry fs)) root"
  note ok = node_entries_ok [OF spec_node(3) [OF holds_fsD(3) [OF assms(1)] nd]]
  have "slots_hold (filter (index_slot i) ?slots) (index_kvs A ?oid ?E)"
    using held_slots [OF assms(1) nd, of DIR_INDEX_KEY] by (cases nd) (simp_all add: object_kvs_node index_kvs_def)
  note index = held_index [OF this]
  have hash: "case find (\<lambda>s. slot_key s = DiskKey ?oid DIR_ITEM_KEY (name_hash name)) ?slots of
      None \<Rightarrow> name \<notin> entry_name ` set (map (stored_entry A) ?E)
    | Some s \<Rightarrow> \<exists>es. slot_data s = Ok (encode_packed es) \<and>
        set es = {ed \<in> set (map (stored_entry A) ?E). name_hash (entry_name ed) = name_hash name}" for name
  proof -
    let ?k = "DiskKey ?oid DIR_ITEM_KEY (name_hash name)"
    have "map_of (pre @ fs_kvs A) ?k = map_of (object_kvs ?oid DIR_ITEM_KEY (node_kvs A (?oid, nd))) ?k"
      by (simp only: map_of_object [of "pre @ fs_kvs A"] held_object [OF assms(1) nd])
    also have "\<dots> = (if name_hash name \<in> (\<lambda>e. name_hash (fst e)) ` set ?E
        then Some (encode_packed (map (stored_entry A) (filter (\<lambda>e. name_hash (fst e) = name_hash name) ?E))) else None)"
      by (cases nd) (simp_all add: object_kvs_node map_of_hash_kvs)
    also have "map (stored_entry A) (filter (\<lambda>e. name_hash (fst e) = name_hash name) ?E) =
        filter (\<lambda>ed. name_hash (entry_name ed) = name_hash name) (map (stored_entry A) ?E)"
      by (simp add: filter_map comp_def)
    finally have map: "map_of (pre @ fs_kvs A) ?k = (if name_hash name \<in> (\<lambda>e. name_hash (fst e)) ` set ?E
        then Some (encode_packed (filter (\<lambda>ed. name_hash (entry_name ed) = name_hash name) (map (stored_entry A) ?E)))
        else None)" .
    have "entry_name ` set (map (stored_entry A) ?E) = fst ` set ?E" by (simp add: image_image)
    then show ?thesis
      using slots_hold_key [OF holds_fsD(2) [OF assms(1)], of ?k] unfolding map
      by (cases "find (\<lambda>s. slot_key s = ?k) ?slots"; simp split: if_splits; force)
  qed
  have "list_all (\<lambda>ed. entry_ok ed \<and> \<not> entry_encrypted (fst ed)) (map (stored_entry A) ?E)"
    "distinct (map entry_name (map (stored_entry A) ?E))"
    using ok by (simp_all add: list_all_iff stored_entry_ok comp_def)
  with index hash show ?thesis by (simp add: dir_holds_def root)
qed

lemma spec_afs_entries:
  "ino_subvol i = subvol \<Longrightarrow> ino_tree_root i = root \<Longrightarrow> map_of A (ino_objectid i) = Some nd \<Longrightarrow>
   aentries (spec_afs subvol root A) i = map (\<lambda>(name, oid). (name, i\<lparr>ino_objectid := oid\<rparr>)) (node_entries nd)"
  by (cases nd; cases i) (auto simp: aentries_def spec_afs_def)

lemma held_entries:
  assumes "holds_fs fs root pre A" and "map_of A (ino_objectid i) = Some nd" and "ino_tree_root i = root"
    and "ino_subvol i = subvol"
  shows "stores_entries fs i (aentries (spec_afs subvol root A) i)"
proof -
  have "list_all2 (\<lambda>ed (name, j). entry_name ed = name \<and>
      (\<forall>b. entry_target (bt_reader fs) (fs_trees fs) i name (de_location (fst ed)) b = Ok j))
      (map (stored_entry A) E) (map (\<lambda>(name, oid). (name, i\<lparr>ino_objectid := oid\<rparr>)) E)" for E
    by (induction E) (auto simp: entry_target_def)
  with held_dir [OF assms(1-3)] spec_afs_entries [OF assms(4,3,2)] show ?thesis by (auto simp: stores_entries_def)
qed

lemma holds_fs_refines:
  assumes "holds_fs fs root pre A" and "chunk_map_wf (bt_chunk_map fs)" and "reads_volume (bt_reader fs) img"
    and "\<forall>n. pf_alloc (bt_reader fs) n"
    and "bt_root fs = \<lparr>ino_subvol = subvol, ino_tree_root = root, ino_objectid = FIRST_FREE_OBJECTID\<rparr>"
  shows "fs_refines C fs (spec_afs subvol root A)"
proof -
  have node: "tree_ok (bt_reader fs) (bt_chunk_map fs) (gm_nodesize (bt_geometry fs)) (ino_tree_root i) \<and>
      (\<exists>md. btrfs_metadata fs i = Ok md \<and> node_kind nd' md \<and> stores_node C fs i md nd') \<and>
      stores_entries fs i (aentries (spec_afs subvol root A) i) \<and>
      snd ` set (aentries (spec_afs subvol root A) i) \<subseteq> dom (spec_afs subvol root A)"
    if nd': "spec_afs subvol root A i = Some nd'" for i nd'
  proof -
    from nd' obtain nd where i: "ino_subvol i = subvol" "ino_tree_root i = root" and nd: "map_of A (ino_objectid i) = Some nd"
      and eq: "nd' = map_node (\<lambda>oid. \<lparr>ino_subvol = subvol, ino_tree_root = root, ino_objectid = oid\<rparr>) nd"
      by (auto simp: spec_afs_def split: if_splits)
    note ok = spec_node(3) [OF holds_fsD(3) [OF assms(1)] nd]
    let ?md = "files_metadata (word_of_nat (length (node_bytes nd))) (node_mode nd)"
    have md: "btrfs_metadata fs i = Ok ?md"
      using held_metadata [OF assms(1) nd] by (simp add: btrfs_metadata_def i)
    have "node_kind nd' ?md" using node_kind_metadata(1) [OF ok] by (cases nd) (simp_all add: eq)
    moreover have "stores_node C fs i ?md nd'"
      using held_file [OF assms(1)] held_link [OF assms(1)] nd i(2) node_kind_metadata(2) [OF ok]
      by (cases nd) (simp_all add: eq)
    moreover have "snd ` set (aentries (spec_afs subvol root A) i) \<subseteq> dom (spec_afs subvol root A)"
      using node_entries_ok [OF ok] i unfolding spec_afs_entries [OF i nd]
      by (auto simp: spec_afs_def dom_map_of_conv_image_fst [symmetric])
    ultimately show ?thesis
      using held_entries [OF assms(1) nd i(2) i(1)] holds_fsD(1) [OF assms(1)] md by (simp add: i(2))
  qed
  moreover have "bt_root fs \<in> dom (spec_afs subvol root A)"
    using spec_root [OF holds_fsD(3) [OF assms(1)]] by (auto simp: assms(5) spec_afs_def)
  ultimately show ?thesis using assms(2-4) unfolding fs_refines_def by blast
qed

end
