(* ===== verification/Mkfs.thy ===== *)
theory Mkfs
  imports Written_Fs Mount_Image
begin

text \<open>
  A whole volume for any filesystem: a superblock at 64 KiB, whose system chunk array maps one chunk, and in
  the chunk a tree of any shape with the root item of the top-level subvolume, the default entry and the
  items of the filesystem. Opening the volume gives a filesystem that refines the one that was written.
\<close>

section \<open>Writing the volume\<close>

definition subvol_root_item :: "u64 \<Rightarrow> u8 list" where
  "subvol_root_item bytenr = replicate 176 0 @ le_bytes bytenr @ replicate 32 0 @ le_bytes (1 :: u32) @ replicate 19 0"

definition root_kvs :: "u64 \<Rightarrow> kv list" where
  "root_kvs bytenr =
     [(DiskKey FS_TREE_OBJECTID ROOT_ITEM_KEY 0, subvol_root_item bytenr),
      (DiskKey ROOT_TREE_DIR_OBJECTID DIR_ITEM_KEY (name_hash default_name),
       encode_packed [example_entry default_name (DiskKey FS_TREE_OBJECTID ROOT_ITEM_KEY 0)])]"

definition mkfs_chunk :: "u64 \<Rightarrow> nat \<Rightarrow> sys_chunk" where
  "mkfs_chunk base n = test_chunk base (word_of_nat n) 1 [(1, base)]"

text \<open>The superblock after its checksum field, for a chunk of \<open>n\<close> bytes at \<open>base\<close>.\<close>

definition mkfs_body :: "u32 \<Rightarrow> u64 \<Rightarrow> nat \<Rightarrow> u8 list" where
  "mkfs_body ns base n =
     replicate 16 0xAA @ le_bytes SUPERBLOCK_PRIMARY_OFFSET @ replicate 8 0 @ le_bytes BTRFS_MAGIC
     @ le_bytes (1 :: u64) @ le_bytes base @ le_bytes base @ replicate 16 0
     @ le_bytes (base + word_of_nat n) @ le_bytes (word_of_nat n :: u64) @ le_bytes (6 :: u64)
     @ le_bytes (1 :: u64) @ le_bytes (4096 :: u32) @ le_bytes ns @ le_bytes ns
     @ le_bytes (4096 :: u32) @ le_bytes (97 :: u32) @ le_bytes (1 :: u64) @ replicate 29 0
     @ le_bytes (1 :: u64) @ replicate 602 0 @ encode_sys_chunk (mkfs_chunk base n) @ replicate 3188 0"

definition mkfs_superblock :: "(u8 list \<Rightarrow> u32) \<Rightarrow> u32 \<Rightarrow> u64 \<Rightarrow> nat \<Rightarrow> u8 list" where
  "mkfs_superblock crc ns base n = le_bytes (crc (mkfs_body ns base n)) @ replicate 28 0 @ mkfs_body ns base n"

definition mkfs_front :: "(u8 list \<Rightarrow> u32) \<Rightarrow> u32 \<Rightarrow> u64 \<Rightarrow> nat \<Rightarrow> u8 list" where
  "mkfs_front crc ns base n =
     replicate 0x10000 0 @ mkfs_superblock crc ns base n @ replicate (unat base - 0x11000) 0"

definition mkfs :: "(u8 list \<Rightarrow> u32) \<Rightarrow> u32 \<Rightarrow> u64 \<Rightarrow> wtree \<Rightarrow> u8 list outcome" where
  "mkfs crc ns base t =
     obind (write_tree crc ns base 0 t) (\<lambda>blocks.
     Ok (mkfs_front crc ns base (wsize t * unat ns) @ concat blocks))"

text \<open>When a tree is one for the filesystem, in a volume that has room for the superblock.\<close>

definition mkfs_ok :: "u32 \<Rightarrow> u64 \<Rightarrow> fs_spec \<Rightarrow> wtree \<Rightarrow> bool" where
  "mkfs_ok ns base A t \<longleftrightarrow>
     spec_ok A \<and> ns \<in> block_sizes \<and> 0x11000 \<le> base \<and> witems t = root_kvs base @ fs_kvs A \<and>
     wtree_fits (unat ns) t \<and> wheight t \<le> 16 \<and> wsize t * unat ns < 2 ^ 32 \<and>
     unat base + wsize t * unat ns \<le> isize_max"

section \<open>The superblock\<close>

lemma length_mkfs_chunk [simp]: "length (encode_sys_chunk (mkfs_chunk base n)) = 97"
  by (simp add: encode_sys_chunk_def mkfs_chunk_def test_chunk_def encode_defs UUID_LEN_def)

lemma length_mkfs_body [simp]: "length (mkfs_body ns base n) = 4064"
  by (simp add: mkfs_body_def)

lemma length_mkfs_superblock [simp]: "length (mkfs_superblock crc ns base n) = 4096"
  by (simp add: mkfs_superblock_def)

lemma length_mkfs_front: "0x11000 \<le> base \<Longrightarrow> length (mkfs_front crc ns base n) = unat base"
  by (simp add: mkfs_front_def word_le_nat_alt)

lemma mkfs_superblock_fields:
  "sb_magic (superblock_of (mkfs_superblock crc ns base n)) = BTRFS_MAGIC"
  "sb_csum_type (superblock_of (mkfs_superblock crc ns base n)) = 0"
  "sb_incompat_flags (superblock_of (mkfs_superblock crc ns base n)) = 0"
  "sb_sectorsize (superblock_of (mkfs_superblock crc ns base n)) = 4096"
  "sb_nodesize (superblock_of (mkfs_superblock crc ns base n)) = ns"
  "sb_csum (superblock_of (mkfs_superblock crc ns base n)) = le_bytes (crc (mkfs_body ns base n)) @ replicate 28 0"
  "sb_devid (superblock_of (mkfs_superblock crc ns base n)) = 1"
  "sb_root (superblock_of (mkfs_superblock crc ns base n)) = base"
  "sb_chunk_root (superblock_of (mkfs_superblock crc ns base n)) = base"
  "sb_root_dir_objectid (superblock_of (mkfs_superblock crc ns base n)) = 6"
  "sb_sys_chunk_array_size (superblock_of (mkfs_superblock crc ns base n)) = 97"
  "sb_sys_chunk_array (superblock_of (mkfs_superblock crc ns base n)) =
     encode_sys_chunk (mkfs_chunk base n) @ replicate 1951 0"
  by (simp_all add: superblock_of_def mkfs_superblock_def mkfs_body_def le_field_def from_le_bytes_le_bytes
      layout CSUM_LEN_def)

lemma block_sizes_pow2: "ns \<in> block_sizes \<Longrightarrow> is_pow2_in_range ns 4096 65536"
  by (auto simp: block_sizes_def is_pow2_in_range_def is_power_of_two_def upt_rec)

lemma no_flags:
  "\<not> flags_contain 0 INCOMPAT_ZONED" "\<not> flags_contain 0 INCOMPAT_RAID_STRIPE_TREE"
  "\<not> flags_contain 0 INCOMPAT_REMAP_TREE"
  by (simp_all add: flags_contain_def format_consts)

lemma mkfs_superblock_loads:
  assumes "ns \<in> block_sizes" and "length (mkfs_front crc ns base n @ blocks) \<le> usize_max"
    and "0x10000 < size_bytes" and "size_bytes \<le> 0x4000000"
  shows "superblock_load (slice_platform (mkfs_front crc ns base n @ blocks) crc alloc) size_bytes =
    Ok (superblock_of (mkfs_superblock crc ns base n))"
proof -
  let ?img = "mkfs_front crc ns base n @ blocks" and ?sb = "superblock_of (mkfs_superblock crc ns base n)"
  let ?P = "slice_platform ?img crc alloc"
  have "reader_read ?P 0x10000 4096 = Some (mkfs_superblock crc ns base n)"
    using assms(2) by (subst reader_read_slice_platform) (simp_all add: mkfs_front_def)
  moreover have "drop 32 (mkfs_superblock crc ns base n) = mkfs_body ns base n" by (simp add: mkfs_superblock_def)
  moreover have "is_pow2_in_range 4096 4096 65536"
    by (simp add: is_pow2_in_range_def is_power_of_two_def upt_rec)
  moreover have "verify_crc32c ?P (mkfs_body ns base n) (le_bytes (crc (mkfs_body ns base n)) @ replicate 28 0)"
    using verify_stored_crc [of ?P "mkfs_body ns base n"] by (simp add: slice_platform_def)
  ultimately have "try_load_one ?P 0x10000 = Ok (CopyValid ?sb)"
    using block_sizes_pow2 [OF assms(1)]
    by (simp add: try_load_one_def superblock_parse_eq slice_def mkfs_superblock_fields Let_def
        no_flags MIN_SECTOR_SIZE_def MAX_SECTOR_SIZE_def MIN_NODE_SIZE_def
        MAX_NODE_SIZE_def SUPERBLOCK_SIZE_def body_offset_for_csum_def CSUM_LEN_def CSUM_TYPE_CRC32C_def
        CSUM_TYPE_XXHASH_def CSUM_TYPE_SHA256_def CSUM_TYPE_BLAKE2_def)
  with assms(3,4) show ?thesis
    by (auto simp: superblock_load_def SUPERBLOCK_OFFSETS_def word_le_nat_alt word_less_nat_alt)
qed

lemma mkfs_system_chunks:
  assumes "unat base + n \<le> isize_max"
  shows "parse_system_chunk_array (set_local_devid chunk_map_default 1)
      (encode_sys_chunk (mkfs_chunk base n) @ replicate 1951 0) 97 =
    Ok (volume_map base n\<lparr>local_devid := Some 1\<rparr>)"
proof -
  have "insert_all (set_local_devid chunk_map_default 1) [sys_chunk_mapping (mkfs_chunk base n)] =
      Ok (volume_map base n\<lparr>local_devid := Some 1\<rparr>)"
    using assms
    by (simp add: chunk_map_insert_def chunk_map_default_def set_local_devid_def get_before_def get_at_def checked_add_def
        partition_point_def volume_map_defs mkfs_chunk_def isize_max_def unat_word_of_nat_small)
  then show ?thesis
    using sys_chunk_array_roundtrip [of "[mkfs_chunk base n]" "set_local_devid chunk_map_default 1" "[]" "replicate 1951 0"]
    by (simp add: parse_system_chunk_array_def) (simp add: mkfs_chunk_def test_chunk_ok)
qed

section \<open>Opening it\<close>

text \<open>What opening gives.\<close>

definition mkfs_device :: "(u8 list \<Rightarrow> u32) \<Rightarrow> u32 \<Rightarrow> u64 \<Rightarrow> wtree \<Rightarrow> u8 list" where
  "mkfs_device crc ns base t =
     mkfs_front crc ns base (wsize t * unat ns) @ concat (map tb_body (wblocks crc ns base 0 t))"

definition mkfs_fs :: "(u8 list \<Rightarrow> u32) \<Rightarrow> u32 \<Rightarrow> u64 \<Rightarrow> wtree \<Rightarrow> (nat \<Rightarrow> bool) \<Rightarrow> btrfs" where
  "mkfs_fs crc ns base t alloc =
     \<lparr>bt_reader = slice_platform (mkfs_device crc ns base t) crc alloc,
      bt_chunk_map = volume_map base (wsize t * unat ns)\<lparr>local_devid := Some 1\<rparr>,
      bt_geometry = \<lparr>gm_nodesize = ns, gm_sectorsize = 4096\<rparr>, bt_root_tree_root = base,
      bt_root = \<lparr>ino_subvol = FS_TREE_OBJECTID, ino_tree_root = base, ino_objectid = FIRST_FREE_OBJECTID\<rparr>\<rparr>"

lemma mkfs_fs_sel [simp]:
  "bt_reader (mkfs_fs crc ns base t alloc) = slice_platform (mkfs_device crc ns base t) crc alloc"
  "bt_chunk_map (mkfs_fs crc ns base t alloc) = volume_map base (wsize t * unat ns)\<lparr>local_devid := Some 1\<rparr>"
  "bt_geometry (mkfs_fs crc ns base t alloc) = \<lparr>gm_nodesize = ns, gm_sectorsize = 4096\<rparr>"
  "bt_root (mkfs_fs crc ns base t alloc) =
     \<lparr>ino_subvol = FS_TREE_OBJECTID, ino_tree_root = base, ino_objectid = FIRST_FREE_OBJECTID\<rparr>"
  by (simp_all add: mkfs_fs_def)

lemma root_kvs_objects: "kv \<in> set (root_kvs base) \<Longrightarrow> key_objectid (fst kv) < FIRST_FREE_OBJECTID"
  by (auto simp: root_kvs_def format_consts)

lemma mkfs_sorted:
  assumes "spec_ok A"
  shows "sorted_wrt (<) (map fst (root_kvs base @ fs_kvs A))"
proof -
  have "k < k'" if k: "k \<in> fst ` set (root_kvs base)" and k': "k' \<in> fst ` set (fs_kvs A)" for k k'
  proof -
    from k' obtain n where n: "n \<in> set A" "key_objectid k' = fst n" by (auto simp: fs_kvs_def dest: node_kvs_object)
    then have "map_of A (fst n) = Some (snd n)" using map_of_is_SomeI [OF spec_distinct [OF assms], of "fst n" "snd n"] by simp
    with spec_node(2) [OF assms] n(2) have "FIRST_FREE_OBJECTID \<le> key_objectid k'" by simp
    moreover have "key_objectid k < FIRST_FREE_OBJECTID" using k by (auto dest: root_kvs_objects)
    ultimately have "key_objectid k < key_objectid k'" by simp
    then show "k < k'" by (cases k; cases k') (simp add: disk_key_less_iff)
  qed
  moreover have "sorted_wrt (<) (map fst (root_kvs base))"
    by (simp add: root_kvs_def disk_key_less_iff format_consts)
  ultimately show ?thesis using fs_kvs_sorted [OF assms] by (simp add: sorted_wrt_append)
qed

lemma mkfs_wtree_ok: "mkfs_ok ns base A t \<Longrightarrow> wtree_ok ns base t"
  using mkfs_sorted [of A base] by (simp add: mkfs_ok_def wtree_ok_def)

lemma mkfs_Ok: "mkfs_ok ns base A t \<Longrightarrow> mkfs crc ns base t = Ok (mkfs_device crc ns base t)"
  by (simp add: mkfs_def mkfs_ok_def write_tree_eq mkfs_device_def)

lemma mkfs_holds:
  assumes "mkfs_ok ns base A t"
  shows "holds_fs (mkfs_fs crc ns base t alloc) base (root_kvs base) A"
proof -
  from assms have ok: "spec_ok A" "0x11000 \<le> base" "witems t = root_kvs base @ fs_kvs A" by (simp_all add: mkfs_ok_def)
  note tree = written_tree_at [OF mkfs_wtree_ok [OF assms], of "mkfs_front crc ns base (wsize t * unat ns)" "Some 1" crc alloc,
    OF length_mkfs_front [OF ok(2)], simplified, folded mkfs_device_def]
  from tree ok show ?thesis by (simp add: holds_fs_def slots_hold_def root_kvs_objects)
qed

lemma mkfs_volume:
  assumes "mkfs_ok ns base A t"
  shows "length (mkfs_device crc ns base t) \<le> usize_max"
    and "chunk_map_wf (volume_map base (wsize t * unat ns))"
    and "reads_volume (slice_platform (mkfs_device crc ns base t) crc alloc) (mkfs_device crc ns base t)"
proof -
  from assms have ok: "wtree_fits (unat ns) t" "0x11000 \<le> base" "unat base + wsize t * unat ns \<le> isize_max"
    by (simp_all add: mkfs_ok_def)
  have "length (concat (map tb_body (wblocks crc ns base 0 t))) = wsize t * unat ns"
    using length_concat_same [of "wblocks crc ns base 0 t" tb_body "unat ns"] length_wblocks_body(1) [OF ok(1)] by simp
  then show len: "length (mkfs_device crc ns base t) \<le> usize_max"
    using ok length_mkfs_front [OF ok(2)] by (simp add: mkfs_device_def isize_max_def usize_max_def)
  then show "reads_volume (slice_platform (mkfs_device crc ns base t) crc alloc) (mkfs_device crc ns base t)"
    by (rule slice_platform_reads_volume)
  show "chunk_map_wf (volume_map base (wsize t * unat ns))"
    using ok(3) by (intro volume_map_wf) (simp add: isize_max_def)
qed

text \<open>No item is a chunk, and every key has a successor, so that the scan of the chunk tree adds nothing.\<close>

lemma index_kvs_nth: "kv \<in> set (index_kvs A oid E) \<Longrightarrow> \<exists>i e. i < 2 + length E \<and> kv = index_kv A oid i e"
proof -
  assume "kv \<in> set (index_kvs A oid E)"
  then obtain i where "i < length E" "kv = index_kv A oid ([2..<2 + length E] ! i) (E ! i)"
    by (auto simp: index_kvs_def in_set_conv_nth simp del: upt_Suc)
  then show ?thesis by (intro exI [of _ "2 + i"] exI [of _ "E ! i"]) (simp del: upt_Suc)
qed

lemma node_kvs_keys:
  assumes "kv \<in> set (node_kvs A n)" and "node_ok known (snd n)"
  shows "key_item_type (fst kv) \<noteq> CHUNK_ITEM_KEY \<and> unat (key_offset (fst kv)) < 2 ^ 64 - 1"
proof (cases "snd n")
  case (ADir E)
  with assms(1) consider "kv = inode_kv (fst n) (snd n)" | e where "kv = hash_kv A (fst n) E (name_hash (fst e))"
    | "kv \<in> set (index_kvs A (fst n) E)"
    by (auto simp: node_kvs_def)
  then show ?thesis
  proof cases
    case 3
    from index_kvs_nth [OF this] obtain i e where kv: "i < 2 + length E" "kv = index_kv A (fst n) i e" by blast
    then have "unat (word_of_nat i :: u64) < 2 ^ 64 - 1" using assms(2) ADir by (simp add: unat_word_of_nat_small)
    with kv show ?thesis by (simp add: index_kv_def format_consts)
  qed (auto simp: inode_kv_def hash_kv_def format_consts name_hash_bound)
qed (use assms in \<open>auto simp: node_kvs_def inode_kv_def format_consts split: if_splits\<close>)

lemma mkfs_keys:
  assumes "spec_ok A" and "kv \<in> set (root_kvs base @ fs_kvs A)"
  shows "key_item_type (fst kv) \<noteq> CHUNK_ITEM_KEY \<and> unat (key_offset (fst kv)) < 2 ^ 64 - 1"
proof (cases "kv \<in> set (root_kvs base)")
  case True
  then show ?thesis by (auto simp: root_kvs_def format_consts name_hash_bound)
next
  case False
  with assms obtain n where "n \<in> set A" "kv \<in> set (node_kvs A n)" by (auto simp: fs_kvs_def)
  with assms(1) node_kvs_keys [of kv A n "fst ` set A"] show ?thesis by (simp add: spec_ok_def list_all_iff)
qed

lemma slots_hold_keys: "slots_hold ss kvs \<Longrightarrow> slot_key ` set ss = fst ` set kvs"
proof -
  assume "slots_hold ss kvs"
  from arg_cong [OF this [unfolded slots_hold_def], of "map fst"] have "map slot_key ss = map fst kvs"
    by (simp add: comp_def case_prod_unfold)
  then show ?thesis by (metis set_map)
qed

lemma mkfs_populate:
  fixes crc :: "u8 list \<Rightarrow> u32" and alloc :: "nat \<Rightarrow> bool" and ns :: u32 and base :: u64
  assumes "mkfs_ok ns base A t"
  defines "P \<equiv> slice_platform (mkfs_device crc ns base t) crc alloc"
    and "cm \<equiv> volume_map base (wsize t * unat ns)\<lparr>local_devid := Some 1\<rparr>"
  shows "populate_from_chunk_tree P cm ns base = Ok cm"
proof -
  from mkfs_holds [OF assms(1), of crc alloc] have tree: "tree_ok P cm ns base"
    and slots: "slots_hold (tree_slots P cm ns base) (root_kvs base @ fs_kvs A)" and A: "spec_ok A"
    by (simp_all add: holds_fs_def P_def cm_def)
  have keys: "key_item_type (slot_key s) \<noteq> CHUNK_ITEM_KEY \<and> unat (key_offset (slot_key s)) < 2 ^ 64 - 1"
    if "s \<in> set (tree_slots P cm ns base)" for s
    using mkfs_keys [OF A] slots_hold_keys [OF slots] that by (metis (no_types, lifting) image_iff)
  have wf: "chunk_map_wf cm" using mkfs_volume(2) [OF assms(1)] by (simp add: cm_def)
  have "populate_loop P cm ns base (DiskKey CHUNK_TREE_OBJECTID CHUNK_ITEM_KEY 0) =
      harvest_slots (filter (\<lambda>s. DiskKey CHUNK_TREE_OBJECTID CHUNK_ITEM_KEY 0 \<le> slot_key s) (tree_slots P cm ns base)) cm"
    by (rule populate_loop_slots [OF wf tree]) (use keys in \<open>auto simp: next_key_after_def checked_add_def\<close>)
  also have "\<dots> = Ok cm"
    by (rule harvest_slots_none)
      (use keys extent_slots_readable [OF tree, of "\<lambda>s. DiskKey CHUNK_TREE_OBJECTID CHUNK_ITEM_KEY 0 \<le> slot_key s"] in auto)
  finally show ?thesis by (simp add: populate_from_chunk_tree_def)
qed

lemma mkfs_mounts:
  assumes "mkfs_ok ns base A t" and "0x10000 < size_bytes" and "size_bytes \<le> 0x4000000"
  shows "mount (slice_platform (mkfs_device crc ns base t) crc alloc) size_bytes =
    Ok (mkfs_fs crc ns base t alloc\<lparr>bt_root := \<lparr>ino_subvol = FS_TREE_OBJECTID, ino_tree_root = 0,
      ino_objectid = FIRST_FREE_OBJECTID\<rparr>\<rparr>, 6)"
proof -
  let ?n = "wsize t * unat ns"
  from assms(1) have ns: "ns \<in> block_sizes" and fit: "unat base + ?n \<le> isize_max" by (simp_all add: mkfs_ok_def)
  have "superblock_load (slice_platform (mkfs_device crc ns base t) crc alloc) size_bytes =
      Ok (superblock_of (mkfs_superblock crc ns base ?n))"
    using mkfs_superblock_loads [OF ns _ assms(2,3)] mkfs_volume(1) [OF assms(1)] by (simp add: mkfs_device_def)
  then show ?thesis
    using mkfs_system_chunks [OF fit] mkfs_populate [OF assms(1), of crc alloc]
    by (simp add: mount_def mkfs_superblock_fields mkfs_fs_def)
qed

lemma subvol_root_item_fields:
  "length (subvol_root_item bytenr) = 239" "ri_refs (root_item_of (subvol_root_item bytenr) 0) = 1"
  "ri_bytenr (root_item_of (subvol_root_item bytenr) 0) = bytenr"
  by (simp_all add: subvol_root_item_def root_item_of_def le_field_def from_le_bytes_le_bytes)

lemma object_kvs_root:
  "object_kvs FS_TREE_OBJECTID ROOT_ITEM_KEY (root_kvs base @ fs_kvs A) =
   (DiskKey FS_TREE_OBJECTID ROOT_ITEM_KEY 0, subvol_root_item base) # object_kvs FS_TREE_OBJECTID ROOT_ITEM_KEY (fs_kvs A)"
  by (simp add: object_kvs_def root_kvs_def format_consts)

lemma map_of_root:
  "map_of (root_kvs base @ fs_kvs A) (DiskKey 6 84 (name_hash default_name)) =
   Some (encode_packed [example_entry default_name (DiskKey FS_TREE_OBJECTID ROOT_ITEM_KEY 0)])"
  by (simp add: root_kvs_def map_add_def format_consts)

lemma mkfs_opens:
  assumes "mkfs_ok ns base A t" and "0x10000 < size_bytes" and "size_bytes \<le> 0x4000000"
  shows "btrfs_open (slice_platform (mkfs_device crc ns base t) crc alloc) size_bytes = Ok (mkfs_fs crc ns base t alloc)"
proof -
  let ?P = "slice_platform (mkfs_device crc ns base t) crc alloc"
    and ?cm = "volume_map base (wsize t * unat ns)\<lparr>local_devid := Some 1\<rparr>"
  from mkfs_holds [OF assms(1), of crc alloc] have tree: "tree_ok ?P ?cm ns base"
    and slots: "slots_hold (tree_slots ?P ?cm ns base) (root_kvs base @ fs_kvs A)"
    by (simp_all add: holds_fs_def)
  have root: "subvol_root ?P ?cm ns base FS_TREE_OBJECTID =
      Ok \<lparr>ino_subvol = FS_TREE_OBJECTID, ino_tree_root = base, ino_objectid = FIRST_FREE_OBJECTID\<rparr>"
    using slots_hold_find [OF slots, of FS_TREE_OBJECTID ROOT_ITEM_KEY]
    by (auto simp: subvol_root_def lookup_root_item_eq [OF tree] object_kvs_root subvol_root_item_fields
        split: option.splits)
  let ?es = "[example_entry default_name (DiskKey FS_TREE_OBJECTID ROOT_ITEM_KEY 0)]"
  have ok: "list_all entry_ok ?es" by (simp add: example_entry_ok default_name_def)
  have oid: "default_objectid 6 ?es = FS_TREE_OBJECTID" by (simp add: default_objectid_def example_entry_def)
  have "resolve_default_subvol ?P ?cm ns base 6 =
      Ok \<lparr>ino_subvol = FS_TREE_OBJECTID, ino_tree_root = base, ino_objectid = FIRST_FREE_OBJECTID\<rparr>"
    using default_subvol_spec [OF tree ok, of 6]
      slots_hold_key [OF slots, of "DiskKey 6 84 (name_hash default_name)", unfolded map_of_root]
    by (auto simp: oid root split: option.splits)
  then show ?thesis
    using mkfs_mounts [OF assms, of crc alloc] by (simp add: btrfs_open_def) (simp add: mkfs_fs_def)
qed

lemma mkfs_refines:
  assumes "mkfs_ok ns base A t"
  shows "fs_refines C (mkfs_fs crc ns base t (\<lambda>_. True)) (spec_afs FS_TREE_OBJECTID base A)"
  using holds_fs_refines [OF mkfs_holds [OF assms, of crc "\<lambda>_. True"], of "mkfs_device crc ns base t" FS_TREE_OBJECTID C]
    mkfs_volume(2,3) [OF assms]
  by (simp add: slice_platform_def)


section \<open>A volume with a directory, a file and a link\<close>

definition small_spec :: fs_spec where
  "small_spec = [(256, ADir [([0x61], 257), ([0x6C], 258)]), (257, AFile [1, 2, 3]), (258, ALink [0x61])]"

definition small_tree :: wtree where
  "small_tree = WLeaf (root_kvs 0x20000 @ fs_kvs small_spec)"

lemma small_spec_ok: "spec_ok small_spec"
  by (simp add: spec_ok_def small_spec_def format_consts)

lemma small_tree_size: "kv_size (witems small_tree) \<le> 4096"
proof -
  have "entry_hashes [([0x61], 257), ([0x6C], 258)] \<in>
      {[name_hash [0x61]], [name_hash [0x61], name_hash [0x6C]], [name_hash [0x6C], name_hash [0x61]]}"
    by (simp add: entry_hashes_def)
  then show ?thesis
    by (auto simp: small_tree_def small_spec_def kv_size_def root_kvs_def fs_kvs_def node_kvs_def inode_kv_def hash_kv_def
        index_kvs_def index_kv_def inline_extent_def subvol_root_item_def encode_packed_def example_entry_def
        stored_entry_def encode_defs default_name_def inode_bytes_def)
qed

lemma small_ok: "mkfs_ok 4096 0x20000 small_spec small_tree"
  using small_spec_ok small_tree_size
  by (simp add: mkfs_ok_def block_sizes_def isize_max_def) (simp add: small_tree_def)

definition path_l :: path where
  "path_l = path_from [0x2F, 0x6C]"

lemma path_l_components: "path_components path_l = [[0x6C]]"
  by (simp add: path_l_def path_components_def components_def path_from_def collect_components_reference
      components_reference_def real_component_def)

abbreviation small_fs :: btrfs where
  "small_fs \<equiv> mkfs_fs (\<lambda>_. 0) 4096 0x20000 small_tree (\<lambda>_. True)"

abbreviation small_afs :: "inode afs" where
  "small_afs \<equiv> spec_afs FS_TREE_OBJECTID 0x20000 small_spec"

lemma small_walk:
  "obind (aresolve small_afs (bt_root small_fs) path_a) (afile small_afs) = Ok [1, 2, 3]"
  "obind (aresolve small_afs (bt_root small_fs) path_a) (alink small_afs) = Err NotASymlink"
  "obind (aresolve small_afs (bt_root small_fs) path_l) (alink small_afs) = Ok [0x61]"
  "obind (aresolve small_afs (bt_root small_fs) path_a) (\<lambda>i. Ok (aentries small_afs i)) = Ok []"
  by (simp_all add: aresolve_def path_a_components path_l_components aentries_def spec_afs_def small_spec_def
      afile_def alink_def FIRST_FREE_OBJECTID_def)

section \<open>Properties\<close>

text \<open>
  C3. The public interface refines the abstract filesystem. On an opened filesystem that stores it, by any
  layout of the trees, resolving a path is the abstract walk; reading a file or a link and listing a directory
  by path give what the node at the end of the walk holds, and the error of the operation on any other
  node; reading in chunks delivers the same contents; a read at an offset fills the buffer from them, and
  metadata reports the kind and the size.
\<close>

theorem filesystem_refines:
  assumes "fs_refines C fs A"
  shows "btrfs_resolve fs path = aresolve A (bt_root fs) path \<and>
    btrfs_read_file C fs path = obind (aresolve A (bt_root fs) path) (afile A) \<and>
    btrfs_read_link C fs path = obind (aresolve A (bt_root fs) path) (alink A) \<and>
    obind (btrfs_read_dir fs path) (\<lambda>ents. Ok (map (\<lambda>x. (dl_name x, dl_inode x)) ents)) =
      obind (aresolve A (bt_root fs) path) (\<lambda>i. Ok (aentries A i)) \<and>
    (\<forall>name. path_new name = Some path \<longrightarrow>
      read_chunked C fs name = Some (unwrap (obind (aresolve A (bt_root fs) path) (afile A)))) \<and>
    (\<forall>i nd. A i = Some nd \<longrightarrow>
      (\<exists>md. btrfs_metadata fs i = Ok md \<and> node_kind nd md) \<and>
      (\<forall>offset buf. length buf < 2 ^ 64 \<longrightarrow> btrfs_read_file_at C fs i offset buf = afile_at A i (unat offset) buf))"
  using resolve_refines(1) [OF assms] operations_refine [OF assms] metadata_refines [OF assms] read_file_at_stored [OF assms]
    chunked_refines [OF assms]
  by (simp add: domI)

theorem filesystem_refines_witness:
  "btrfs_read_file stored_codecs small_fs path_a = Ok [1, 2, 3] \<and>
   btrfs_read_link stored_codecs small_fs path_a = Err NotASymlink \<and>
   read_chunked stored_codecs small_fs [0x2F, 0x61] = Some (Ok [1, 2, 3])"
  using filesystem_refines [OF mkfs_refines [OF small_ok, of stored_codecs "\<lambda>_. 0"], of path_a]
  unfolding small_walk by (simp add: path_a_def path_new_def path_from_def)

text \<open>
  C1. Any filesystem that is written is read back. From any list of numbered files, directories and links,
  written as items into a tree of any shape behind a superblock, under any checksum function, opening the
  volume succeeds and gives a filesystem that stores exactly this one: every path resolves, reads and lists
  as in the list it was written from.
\<close>

theorem mkfs_roundtrip:
  assumes "mkfs_ok ns base A t" and "0x10000 < size_bytes" and "size_bytes \<le> 0x4000000"
  shows "\<exists>device fs. mkfs crc ns base t = Ok device \<and>
    btrfs_open (slice_platform device crc (\<lambda>_. True)) size_bytes = Ok fs \<and>
    (let S = spec_afs FS_TREE_OBJECTID base A; root = bt_root fs in
     root = \<lparr>ino_subvol = FS_TREE_OBJECTID, ino_tree_root = base, ino_objectid = FIRST_FREE_OBJECTID\<rparr> \<and>
     fs_refines C fs S \<and>
     (\<forall>path. btrfs_resolve fs path = aresolve S root path \<and>
       btrfs_read_file C fs path = obind (aresolve S root path) (afile S) \<and>
       btrfs_read_link C fs path = obind (aresolve S root path) (alink S) \<and>
       obind (btrfs_read_dir fs path) (\<lambda>ents. Ok (map (\<lambda>x. (dl_name x, dl_inode x)) ents)) =
         obind (aresolve S root path) (\<lambda>i. Ok (aentries S i))))"
proof -
  note refines = mkfs_refines [OF assms(1), of C crc]
  show ?thesis
    using mkfs_Ok [OF assms(1), of crc] mkfs_opens [OF assms, of crc "\<lambda>_. True"] refines resolve_refines(1) [OF refines]
      operations_refine [OF refines]
    by (simp add: Let_def)
qed

theorem mkfs_roundtrip_witness:
  "\<exists>device fs. mkfs (\<lambda>_. 0) 4096 0x20000 small_tree = Ok device \<and>
    btrfs_open (slice_platform device (\<lambda>_. 0) (\<lambda>_. True)) 0x40000 = Ok fs \<and>
    btrfs_read_link stored_codecs fs path_l = Ok [0x61]"
proof -
  from mkfs_roundtrip [OF small_ok, where crc = "\<lambda>_. 0" and C = stored_codecs and size_bytes = "0x40000"] obtain device fs where
    "mkfs (\<lambda>_. 0) 4096 0x20000 small_tree = Ok device"
    "btrfs_open (slice_platform device (\<lambda>_. 0) (\<lambda>_. True)) 0x40000 = Ok fs"
    "bt_root fs = bt_root small_fs"
    "btrfs_read_link stored_codecs fs path_l = obind (aresolve small_afs (bt_root fs) path_l) (alink small_afs)"
    by (auto simp: Let_def)
  with small_walk(3) show ?thesis by metis
qed

end
