(* ===== verification/Reserved_Constants.thy ===== *)
theory Reserved_Constants
  imports Repr
begin

text \<open>
  The rest of \<^verbatim>\<open>src/format/constants.rs\<close> and \<^verbatim>\<open>src/format/flags.rs\<close>: reserved objects and item types that the
  read path skips, and the flag sets it ignores. The lemmas check that the item types of the file are
  distinct and in order, so that no skipped item can be taken for one that is read.
\<close>

unbundle bit_operations_syntax

section \<open>Reserved objects and item types (src/format/constants.rs)\<close>

definition ROOT_TREE_OBJECTID :: u64 where [format_consts]:
  "ROOT_TREE_OBJECTID = 1"

definition EXTENT_TREE_OBJECTID :: u64 where [format_consts]:
  "EXTENT_TREE_OBJECTID = 2"

definition DEV_TREE_OBJECTID :: u64 where [format_consts]:
  "DEV_TREE_OBJECTID = 4"

definition CSUM_TREE_OBJECTID :: u64 where [format_consts]:
  "CSUM_TREE_OBJECTID = 7"

definition QUOTA_TREE_OBJECTID :: u64 where [format_consts]:
  "QUOTA_TREE_OBJECTID = 8"

definition UUID_TREE_OBJECTID :: u64 where [format_consts]:
  "UUID_TREE_OBJECTID = 9"

definition FREE_SPACE_TREE_OBJECTID :: u64 where [format_consts]:
  "FREE_SPACE_TREE_OBJECTID = 10"

definition DEV_ITEMS_OBJECTID :: u64 where [format_consts]:
  "DEV_ITEMS_OBJECTID = 1"

definition INODE_REF_KEY :: u8 where [format_consts]:
  "INODE_REF_KEY = 12"

definition INODE_EXTREF_KEY :: u8 where [format_consts]:
  "INODE_EXTREF_KEY = 13"

definition XATTR_ITEM_KEY :: u8 where [format_consts]:
  "XATTR_ITEM_KEY = 24"

definition ORPHAN_ITEM_KEY :: u8 where [format_consts]:
  "ORPHAN_ITEM_KEY = 48"

definition DIR_LOG_ITEM_KEY :: u8 where [format_consts]:
  "DIR_LOG_ITEM_KEY = 60"

definition DIR_LOG_INDEX_KEY :: u8 where [format_consts]:
  "DIR_LOG_INDEX_KEY = 72"

definition EXTENT_CSUM_KEY :: u8 where [format_consts]:
  "EXTENT_CSUM_KEY = 128"

definition ROOT_BACKREF_KEY :: u8 where [format_consts]:
  "ROOT_BACKREF_KEY = 144"

definition EXTENT_ITEM_KEY :: u8 where [format_consts]:
  "EXTENT_ITEM_KEY = 168"

definition METADATA_ITEM_KEY :: u8 where [format_consts]:
  "METADATA_ITEM_KEY = 169"

definition TREE_BLOCK_REF_KEY :: u8 where [format_consts]:
  "TREE_BLOCK_REF_KEY = 176"

definition EXTENT_DATA_REF_KEY :: u8 where [format_consts]:
  "EXTENT_DATA_REF_KEY = 178"

definition SHARED_BLOCK_REF_KEY :: u8 where [format_consts]:
  "SHARED_BLOCK_REF_KEY = 182"

definition SHARED_DATA_REF_KEY :: u8 where [format_consts]:
  "SHARED_DATA_REF_KEY = 184"

definition BLOCK_GROUP_ITEM_KEY :: u8 where [format_consts]:
  "BLOCK_GROUP_ITEM_KEY = 192"

definition FREE_SPACE_INFO_KEY :: u8 where [format_consts]:
  "FREE_SPACE_INFO_KEY = 198"

definition FREE_SPACE_EXTENT_KEY :: u8 where [format_consts]:
  "FREE_SPACE_EXTENT_KEY = 199"

definition FREE_SPACE_BITMAP_KEY :: u8 where [format_consts]:
  "FREE_SPACE_BITMAP_KEY = 200"

definition DEV_EXTENT_KEY :: u8 where [format_consts]:
  "DEV_EXTENT_KEY = 204"

definition DEV_ITEM_KEY :: u8 where [format_consts]:
  "DEV_ITEM_KEY = 216"

definition QGROUP_STATUS_KEY :: u8 where [format_consts]:
  "QGROUP_STATUS_KEY = 240"

definition QGROUP_INFO_KEY :: u8 where [format_consts]:
  "QGROUP_INFO_KEY = 242"

definition QGROUP_LIMIT_KEY :: u8 where [format_consts]:
  "QGROUP_LIMIT_KEY = 244"

definition QGROUP_RELATION_KEY :: u8 where [format_consts]:
  "QGROUP_RELATION_KEY = 246"

definition TEMPORARY_ITEM_KEY :: u8 where [format_consts]:
  "TEMPORARY_ITEM_KEY = 248"

definition PERSISTENT_ITEM_KEY :: u8 where [format_consts]:
  "PERSISTENT_ITEM_KEY = 249"

definition DEV_REPLACE_KEY :: u8 where [format_consts]:
  "DEV_REPLACE_KEY = 250"

definition STRING_ITEM_KEY :: u8 where [format_consts]:
  "STRING_ITEM_KEY = 253"

text \<open>All item types, in the order of the file.\<close>

definition item_types :: "u8 list" where
  "item_types =
     [INODE_ITEM_KEY, INODE_REF_KEY, INODE_EXTREF_KEY, XATTR_ITEM_KEY, ORPHAN_ITEM_KEY,
      DIR_LOG_ITEM_KEY, DIR_LOG_INDEX_KEY, DIR_ITEM_KEY, DIR_INDEX_KEY, EXTENT_DATA_KEY,
      EXTENT_CSUM_KEY, ROOT_ITEM_KEY, ROOT_BACKREF_KEY, ROOT_REF_KEY, EXTENT_ITEM_KEY,
      METADATA_ITEM_KEY, TREE_BLOCK_REF_KEY, EXTENT_DATA_REF_KEY, SHARED_BLOCK_REF_KEY, SHARED_DATA_REF_KEY,
      BLOCK_GROUP_ITEM_KEY, FREE_SPACE_INFO_KEY, FREE_SPACE_EXTENT_KEY, FREE_SPACE_BITMAP_KEY, DEV_EXTENT_KEY,
      DEV_ITEM_KEY, CHUNK_ITEM_KEY, QGROUP_STATUS_KEY, QGROUP_INFO_KEY, QGROUP_LIMIT_KEY,
      QGROUP_RELATION_KEY, TEMPORARY_ITEM_KEY, PERSISTENT_ITEM_KEY, DEV_REPLACE_KEY, STRING_ITEM_KEY]"

lemma item_types_sorted: "sorted_wrt (<) item_types"
  by (simp add: item_types_def format_consts)

section \<open>Flags the reader ignores (src/format/flags.rs)\<close>

definition CompatFlags_all :: u64 where [format_consts]:
  "CompatFlags_all = 0"

definition COMPAT_RO_FREE_SPACE_TREE :: u64 where [format_consts]:
  "COMPAT_RO_FREE_SPACE_TREE = push_bit 0 1"

definition COMPAT_RO_FREE_SPACE_TREE_VALID :: u64 where [format_consts]:
  "COMPAT_RO_FREE_SPACE_TREE_VALID = push_bit 1 1"

definition COMPAT_RO_VERITY :: u64 where [format_consts]:
  "COMPAT_RO_VERITY = push_bit 2 1"

definition COMPAT_RO_BLOCK_GROUP_TREE :: u64 where [format_consts]:
  "COMPAT_RO_BLOCK_GROUP_TREE = push_bit 3 1"

definition CompatRoFlags_all :: u64 where
  "CompatRoFlags_all =
     COMPAT_RO_FREE_SPACE_TREE OR COMPAT_RO_FREE_SPACE_TREE_VALID OR COMPAT_RO_VERITY OR COMPAT_RO_BLOCK_GROUP_TREE"

lemma CompatRoFlags_all_value: "CompatRoFlags_all = 0xF"
  by (simp add: CompatRoFlags_all_def format_consts)

section \<open>Offsets of fields that are not parsed (src/format/repr.rs)\<close>

definition sb_OFFSET_LOG_ROOT_TRANSID :: nat where [layout]:
  "sb_OFFSET_LOG_ROOT_TRANSID = 104"

definition sb_SIZE_DEV_ITEM :: nat where [layout]:
  "sb_SIZE_DEV_ITEM = 98"

definition sb_OFFSET_LABEL :: nat where [layout]:
  "sb_OFFSET_LABEL = sb_OFFSET_DEV_ITEM + sb_SIZE_DEV_ITEM"

definition sb_SIZE_LABEL :: nat where [layout]:
  "sb_SIZE_LABEL = 256"

definition sb_OFFSET_CACHE_GENERATION :: nat where [layout]:
  "sb_OFFSET_CACHE_GENERATION = sb_OFFSET_LABEL + sb_SIZE_LABEL"

definition sb_OFFSET_UUID_TREE_GENERATION :: nat where [layout]:
  "sb_OFFSET_UUID_TREE_GENERATION = sb_OFFSET_CACHE_GENERATION + 8"

definition sb_OFFSET_METADATA_UUID :: nat where [layout]:
  "sb_OFFSET_METADATA_UUID = sb_OFFSET_UUID_TREE_GENERATION + 8"

definition sb_OFFSET_NR_GLOBAL_ROOTS :: nat where [layout]:
  "sb_OFFSET_NR_GLOBAL_ROOTS = sb_OFFSET_METADATA_UUID + UUID_LEN"

definition hdr_SIZE :: nat where [layout]:
  "hdr_SIZE = hdr_OFFSET_LEVEL + 1"

text \<open>The declared sizes close up: 27 reserved words lead to the chunk array, and the header has its fixed size.\<close>

lemma layout_closes:
  "sb_OFFSET_NR_GLOBAL_ROOTS + 8 + 27 * 8 = sb_OFFSET_SYS_CHUNK_ARRAY"
  "sb_OFFSET_LABEL = 299" "sb_OFFSET_METADATA_UUID = 571" "hdr_SIZE = Header_SIZE"
  "sb_OFFSET_LOG_ROOT + 8 = sb_OFFSET_LOG_ROOT_TRANSID" "sb_OFFSET_LOG_ROOT_TRANSID + 8 = sb_OFFSET_TOTAL_BYTES"
  by (simp_all add: layout format_consts)

end
