(* ===== verification/Fuzz.thy ===== *)
theory Fuzz
  imports Client
begin

text \<open>
  The fuzz harnesses (\<^verbatim>\<open>fuzz/fuzz_targets\<close> and \<^verbatim>\<open>__fuzz_internals\<close> of \<^verbatim>\<open>src/lib.rs\<close>): each feeds arbitrary
  bytes to the crate and expects no panic. A harness is a function of the input bytes, so that what
  fuzzing samples can be stated for every input.
\<close>

section \<open>The internals exposed to the harnesses\<close>

definition fuzz_internals_decode :: "codecs \<Rightarrow> u8 \<Rightarrow> u8 list \<Rightarrow> u8 list \<Rightarrow> u8 list outcome" where
  "fuzz_internals_decode C algorithm src dst = decode C algorithm src dst 4096"

definition fuzz_internals_parse_system_chunk_array :: "u8 list \<Rightarrow> unit outcome" where
  "fuzz_internals_parse_system_chunk_array bs =
     obind (parse_system_chunk_array chunk_map_default bs (length bs)) (\<lambda>_. Ok ())"

definition fuzz_internals_name_hash :: "u8 list \<Rightarrow> u32" where
  "fuzz_internals_name_hash name = crc32c_with_seed 0xFFFFFFFE name"

section \<open>The harnesses\<close>

text \<open>\<^verbatim>\<open>let _ = e\<close> and the discarded side of \<^verbatim>\<open>if let Ok(..)\<close>: only a panic is left of the result.\<close>

primrec discard :: "'a outcome \<Rightarrow> unit outcome" where
  "discard (Ok x) = Ok ()"
| "discard (Err e) = Ok ()"
| "discard Panic = Panic"

primrec if_let_Ok :: "'a outcome \<Rightarrow> ('a \<Rightarrow> unit outcome) \<Rightarrow> unit outcome" where
  "if_let_Ok (Ok x) body = body x"
| "if_let_Ok (Err e) body = Ok ()"
| "if_let_Ok Panic body = Panic"

primrec if_let_Some :: "'a option \<Rightarrow> ('a \<Rightarrow> unit outcome) \<Rightarrow> unit outcome" where
  "if_let_Some (Some x) body = body x"
| "if_let_Some None body = Ok ()"

text \<open>The bytes of a byte-string literal.\<close>

definition byte_string :: "string \<Rightarrow> u8 list" where
  "byte_string s = map of_char s"

text \<open>The caller's buffer after a read at an offset; the bytes a failed read leaves are not modelled.\<close>

definition buffer_after :: "(nat \<times> u8 list) outcome \<Rightarrow> u8 list \<Rightarrow> u8 list" where
  "buffer_after r buf = (case r of Ok (_, buf') \<Rightarrow> buf' | _ \<Rightarrow> buf)"

definition fuzz_superblock :: "(u8 list \<Rightarrow> u32) \<Rightarrow> (nat \<Rightarrow> bool) \<Rightarrow> u8 list \<Rightarrow> unit outcome" where
  "fuzz_superblock crc alloc data =
    (if length data < 0x10000 + 4096 then Ok ()
     else discard (btrfs_open (slice_platform data crc alloc) (word_of_nat (length data))))"

definition fuzz_btree_node :: "codecs \<Rightarrow> (u8 list \<Rightarrow> u32) \<Rightarrow> (nat \<Rightarrow> bool) \<Rightarrow> u8 list \<Rightarrow> unit outcome" where
  "fuzz_btree_node C crc alloc data =
    (if length data < 0x10000 + 65536 then Ok ()
     else if_let_Ok (btrfs_open (slice_platform data crc alloc) (word_of_nat (length data))) (\<lambda>fs.
          if_let_Some (path_new (byte_string ''/etc/passwd'')) (\<lambda>p.
          discard (btrfs_read_file C fs p))))"

definition fuzz_dir_item :: "(u8 list \<Rightarrow> u32) \<Rightarrow> (nat \<Rightarrow> bool) \<Rightarrow> u8 list \<Rightarrow> unit outcome" where
  "fuzz_dir_item crc alloc data =
    (if length data < 0x10000 + 65536 then Ok ()
     else if_let_Ok (btrfs_open (slice_platform data crc alloc) (word_of_nat (length data))) (\<lambda>fs.
          for_each (map byte_string [''/a'', ''/a/b'', ''/a/b/c'', ''/loader/entries/x.conf'']) (\<lambda>raw.
          if_let_Some (path_new raw) (\<lambda>p.
          discard (btrfs_resolve fs p)))))"

definition fuzz_extent_data :: "codecs \<Rightarrow> (u8 list \<Rightarrow> u32) \<Rightarrow> (nat \<Rightarrow> bool) \<Rightarrow> u8 list \<Rightarrow> unit outcome" where
  "fuzz_extent_data C crc alloc data =
    (if length data < 0x10000 + 65536 then Ok ()
     else if_let_Ok (btrfs_open (slice_platform data crc alloc) (word_of_nat (length data))) (\<lambda>fs.
          for_each (map byte_string [''/vmlinuz-current'', ''/initrd.img'', ''/loader/entries/x.conf'']) (\<lambda>raw.
          if_let_Some (path_new raw) (\<lambda>p.
          obind (discard (btrfs_read_file C fs p)) (\<lambda>_.
          if_let_Ok (btrfs_resolve fs p) (\<lambda>inode.
          let buf = replicate 1024 0; first = btrfs_read_file_at C fs inode 0 buf in
          obind (discard first) (\<lambda>_.
          obind (discard (btrfs_read_file_at C fs inode (push_bit 30 1) (buffer_after first buf))) (\<lambda>_.
          discard (btrfs_read_link C fs p)))))))))"

definition fuzz_compressed_extent :: "codecs \<Rightarrow> u8 list \<Rightarrow> unit outcome" where
  "fuzz_compressed_extent C data =
    (if data = [] then Ok ()
     else
     let algorithm = data ! 0 mod 4 in
     obind (slice data 1 (length data)) (\<lambda>payload.
     discard (fuzz_internals_decode C algorithm payload [])))"

section \<open>No harness panics on a superblock within its array\<close>

lemma discard_Panic [simp]: "discard r = Panic \<longleftrightarrow> r = Panic"
  by (cases r) simp_all

lemma if_let_Ok_Panic: "if_let_Ok r body = Panic \<longleftrightarrow> r = Panic \<or> (\<exists>x. r = Ok x \<and> body x = Panic)"
  by (cases r) simp_all

lemma if_let_Some_Panic: "if_let_Some r body = Panic \<longleftrightarrow> (\<exists>x. r = Some x \<and> body x = Panic)"
  by (cases r) simp_all

lemmas harness_simps = if_let_Ok_Panic if_let_Some_Panic obind_Panic_iff

lemma buffer_after_length:
  assumes "length buf < 2 ^ 64"
  shows "length (buffer_after (btrfs_read_file_at C fs ino offset buf) buf) = length buf"
  using read_file_at_length [OF _ assms]
  by (fastforce simp: buffer_after_def btrfs_read_file_at_def split: outcome.splits)

lemma fuzz_compressed_extent_safe: "codecs_ok C \<Longrightarrow> fuzz_compressed_extent C data \<noteq> Panic"
  using decode_safe [of C 4096 "data ! 0 mod 4"]
  by (cases data; cases "data ! 0 mod 4 = COMPRESS_NONE")
    (simp_all add: fuzz_compressed_extent_def fuzz_internals_decode_def Let_def slice_def decode_def [of _ COMPRESS_NONE])

lemma fuzz_extent_data_panic:
  assumes "codecs_ok C" and "btrfs_open (slice_platform data crc alloc) (word_of_nat (length data)) \<noteq> Panic"
    and "fuzz_extent_data C crc alloc data = Panic"
  shows "\<exists>fs (ino :: inode). btrfs_open (slice_platform data crc alloc) (word_of_nat (length data)) = Ok fs \<and>
    overflowing_extent (bt_reader fs) (bt_chunk_map fs) (gm_nodesize (bt_geometry fs)) (ino_tree_root ino)
      (ino_objectid ino)"
proof -
  let ?open = "btrfs_open (slice_platform data crc alloc) (word_of_nat (length data))"
  obtain fs where fs: "?open = Ok fs" using assms(2,3) by (cases ?open) (auto simp: fuzz_extent_data_def split: if_splits)
  note wf = opened_wf [OF fs]
  note at_safe = read_file_at_safe [OF assms(1) fs_wf_sectorsize [OF wf]]
  from assms(3) fs opened_operations_safe [OF wf assms(1)] obtain ino offset buf where
    "btrfs_read_file_at C fs ino offset buf = Panic" "length buf = 1024"
    using buffer_after_length [of "replicate 1024 0" C fs]
    by (auto simp: fuzz_extent_data_def harness_simps Let_def split: if_splits dest!: for_each_Panic)
  then have "overflowing_extent (bt_reader fs) (bt_chunk_map fs) (gm_nodesize (bt_geometry fs)) (ino_tree_root ino)
      (ino_objectid ino)"
    using at_safe [of buf] unfolding btrfs_read_file_at_def by fastforce
  with fs show ?thesis by blast
qed

section \<open>A superblock that declares more than its array\<close>

definition hostile_array :: "u8 list" where
  "hostile_array = replicate 8 0 @ [228] @ replicate 52 0 @ [64, 0] @ replicate 1985 0"

definition hostile_body :: "u8 list" where
  "hostile_body =
     replicate 32 0 @ le_bytes BTRFS_MAGIC @ le_bytes (1 :: u64) @ replicate 64 0
     @ le_bytes (4096 :: u32) @ le_bytes (4096 :: u32) @ replicate 8 0 @ le_bytes (4096 :: u32) @ replicate 37 0
     @ le_bytes (1 :: u64) @ replicate 602 0 @ hostile_array @ replicate 1237 0"

definition hostile_superblock :: "(u8 list \<Rightarrow> u32) \<Rightarrow> u8 list" where
  "hostile_superblock crc = le_bytes (crc hostile_body) @ replicate 28 0 @ hostile_body"

definition hostile_image :: "(u8 list \<Rightarrow> u32) \<Rightarrow> u8 list" where
  "hostile_image crc = replicate 0x10000 0 @ hostile_superblock crc"

lemma hostile_lengths:
  "length hostile_array = 2048" "length hostile_body = 4064" "length (hostile_superblock crc) = 4096"
  "length (hostile_image crc) = 0x11000"
  by (simp_all add: hostile_array_def hostile_body_def hostile_superblock_def hostile_image_def)

lemma hostile_fields:
  "sb_magic (superblock_of (hostile_superblock crc)) = BTRFS_MAGIC"
  "sb_csum_type (superblock_of (hostile_superblock crc)) = 0"
  "sb_incompat_flags (superblock_of (hostile_superblock crc)) = 0"
  "sb_sectorsize (superblock_of (hostile_superblock crc)) = 4096"
  "sb_nodesize (superblock_of (hostile_superblock crc)) = 4096"
  "sb_csum (superblock_of (hostile_superblock crc)) = le_bytes (crc hostile_body) @ replicate 28 0"
  "sb_sys_chunk_array_size (superblock_of (hostile_superblock crc)) = 4096"
  "sb_sys_chunk_array (superblock_of (hostile_superblock crc)) = hostile_array"
  by (simp_all add: superblock_of_def hostile_superblock_def hostile_body_def le_field_def from_le_bytes_le_bytes
      layout CSUM_LEN_def hostile_lengths)

lemma hostile_superblock_loads:
  "superblock_load (slice_platform (hostile_image crc) crc alloc) 0x11000 = Ok (superblock_of (hostile_superblock crc))"
proof -
  let ?P = "slice_platform (hostile_image crc) crc alloc"
  have pow: "is_pow2_in_range 4096 4096 65536"
    by (simp add: is_pow2_in_range_def is_power_of_two_def upt_rec)
  have max: "length (hostile_image crc) \<le> usize_max" by (simp add: hostile_lengths usize_max_def)
  have read: "reader_read ?P 0x10000 4096 = Some (hostile_superblock crc)"
    using max by (subst reader_read_slice_platform) (simp_all add: hostile_lengths, simp add: hostile_image_def hostile_lengths)
  have crc: "verify_crc32c ?P hostile_body (le_bytes (crc hostile_body) @ replicate 28 0)"
    using verify_stored_crc [of ?P hostile_body] by (simp add: slice_platform_def)
  have "try_load_one ?P 0x10000 = Ok (CopyValid (superblock_of (hostile_superblock crc)))"
    using pow crc read
    by (simp add: try_load_one_def superblock_parse_eq slice_def hostile_lengths hostile_fields
        flags_contain_def Let_def layout format_consts) (simp add: hostile_superblock_def)
  then show ?thesis by (simp add: superblock_load_def SUPERBLOCK_OFFSETS_def)
qed

section \<open>Properties\<close>

text \<open>
  C34. What the fuzz harnesses look for, for every input: they end without a panic, whatever the bytes are,
  as long as the superblock chosen from them declares a system chunk array no longer than its field and,
  for the reads at an offset, no extent item overflows the one unchecked sum.
\<close>

theorem fuzz_targets_never_panic:
  assumes "codecs_ok C"
    and "\<And>sb. superblock_load (slice_platform data crc alloc) (word_of_nat (length data)) = Ok sb \<Longrightarrow>
      unat (sb_sys_chunk_array_size sb) \<le> 2048"
  shows "fuzz_superblock crc alloc data \<noteq> Panic \<and> fuzz_btree_node C crc alloc data \<noteq> Panic \<and>
    fuzz_dir_item crc alloc data \<noteq> Panic \<and> fuzz_compressed_extent C data \<noteq> Panic \<and>
    fuzz_internals_parse_system_chunk_array data \<noteq> Panic \<and>
    (fuzz_extent_data C crc alloc data = Panic \<longrightarrow>
      (\<exists>fs (ino :: inode). btrfs_open (slice_platform data crc alloc) (word_of_nat (length data)) = Ok fs \<and>
        overflowing_extent (bt_reader fs) (bt_chunk_map fs) (gm_nodesize (bt_geometry fs)) (ino_tree_root ino)
          (ino_objectid ino)))"
proof (intro conjI impI)
  let ?open = "btrfs_open (slice_platform data crc alloc) (word_of_nat (length data))"
  have open_ok: "?open \<noteq> Panic" by (rule open_safe [OF assms(2)])
  note safe = opened_operations_safe [OF opened_wf assms(1)]
  show "fuzz_superblock crc alloc data \<noteq> Panic" using open_ok by (simp add: fuzz_superblock_def)
  show "fuzz_btree_node C crc alloc data \<noteq> Panic"
    using open_ok safe(2) by (auto simp: fuzz_btree_node_def harness_simps)
  show "fuzz_dir_item crc alloc data \<noteq> Panic"
    using open_ok safe(1) by (auto simp: fuzz_dir_item_def harness_simps dest!: for_each_Panic)
  show "fuzz_compressed_extent C data \<noteq> Panic" by (rule fuzz_compressed_extent_safe [OF assms(1)])
  show "fuzz_internals_parse_system_chunk_array data \<noteq> Panic"
    using parse_system_chunk_array_from_safe [of "length data" data chunk_map_default 0]
    by (simp add: fuzz_internals_parse_system_chunk_array_def parse_system_chunk_array_def obind_Panic_iff)
  show "\<exists>fs (ino :: inode). ?open = Ok fs \<and> overflowing_extent (bt_reader fs) (bt_chunk_map fs)
      (gm_nodesize (bt_geometry fs)) (ino_tree_root ino) (ino_objectid ino)"
    if "fuzz_extent_data C crc alloc data = Panic"
    by (rule fuzz_extent_data_panic [OF assms(1) open_ok that])
qed

theorem fuzz_targets_never_panic_witness:
  "fuzz_superblock (\<lambda>_. 0) (\<lambda>_. True) (image_bytes [1]) \<noteq> Panic"
proof -
  have "word_of_nat (length (image_bytes [1])) = (0x11000 :: u64)"
    by (simp add: image_bytes_def kv_body_length image_items_size image_superblock_length)
  then have "superblock_load (slice_platform (image_bytes [1]) (\<lambda>_. 0) (\<lambda>_. True)) (word_of_nat (length (image_bytes [1]))) =
      Ok (superblock_of image_superblock)"
    using image_superblock_loads [of "[1]"] by (simp add: image_device_def)
  then have "\<And>sb. superblock_load (slice_platform (image_bytes [1]) (\<lambda>_. 0) (\<lambda>_. True))
      (word_of_nat (length (image_bytes [1]))) = Ok sb \<Longrightarrow> unat (sb_sys_chunk_array_size sb) \<le> 2048"
    by (auto simp: image_superblock_fields)
  from fuzz_targets_never_panic [OF stored_codecs_ok this] show ?thesis by blast
qed

text \<open>
  C35. The first condition is needed: whatever the checksum function, there is a 68 KiB image with a valid
  superblock that declares a 4096-byte system chunk array, and opening it panics, which the superblock
  harness would report.
\<close>

theorem fuzz_superblock_reaches_overrun:
  "fuzz_superblock crc alloc (hostile_image crc) = Panic"
proof -
  have key: "hostile_array ! 8 = CHUNK_ITEM_KEY" by (simp add: hostile_array_def nth_append format_consts)
  have n: "64 = unat (le_field 2 hostile_array 61 :: u16)"
    by (simp add: hostile_array_def le_field_def from_le_bytes_def)
  have "parse_system_chunk_array cm hostile_array 4096 = Panic" for cm
    using system_chunk_array_overrun_panics [OF _ key n, of 4096 cm] by (simp add: hostile_lengths)
  then have "mount (slice_platform (hostile_image crc) crc alloc) 0x11000 = Panic"
    by (simp add: mount_def hostile_superblock_loads hostile_fields Let_def)
  then show ?thesis by (simp add: fuzz_superblock_def hostile_lengths btrfs_open_def)
qed

end
