(* ===== verification/Error_Text.thy ===== *)
theory Error_Text
  imports Prelude
begin

text \<open>
  The texts of the errors (\<^verbatim>\<open>impl Display for Error\<close> of \<^verbatim>\<open>error.rs\<close>), with the formatting of the standard library
  that it uses: \<^verbatim>\<open>{}\<close> and \<^verbatim>\<open>{:#x}\<close> of an integer and the derived \<^verbatim>\<open>Debug\<close> of a reason. Different errors have
  different texts, so a log line identifies the error.
\<close>

section \<open>Integers\<close>

fun radix :: "nat \<Rightarrow> nat \<Rightarrow> nat list" where
  "radix b n = (if n < b \<or> b < 2 then [n] else radix b (n div b) @ [n mod b])"

declare radix.simps [simp del]

definition digit :: "nat \<Rightarrow> char" where
  "digit d = ''0123456789abcdef'' ! d"

definition fmt_decimal :: "u64 \<Rightarrow> string" where
  "fmt_decimal n = map digit (radix 10 (unat n))"

definition fmt_hex :: "u64 \<Rightarrow> string" where
  "fmt_hex n = ''0x'' @ map digit (radix 16 (unat n))"

lemma radix_value: "2 \<le> b \<Longrightarrow> foldl (\<lambda>a d. a * b + d) 0 (radix b n) = n"
proof (induction b n rule: radix.induct)
  case (1 b n)
  then show ?case by (subst radix.simps) (auto simp: not_less)
qed

lemma radix_digits: "2 \<le> b \<Longrightarrow> d \<in> set (radix b n) \<Longrightarrow> d < b"
proof (induction b n rule: radix.induct)
  case (1 b n)
  from "1.prems"(2) show ?case
    using "1.IH" "1.prems"(1) by (subst (asm) radix.simps) (auto split: if_splits)
qed

lemma digit_inj: "inj_on digit {..<16}"
proof -
  have "distinct ''0123456789abcdef''" "length ''0123456789abcdef'' = 16" by simp_all
  then show ?thesis unfolding inj_on_def digit_def by (metis lessThan_iff nth_eq_iff_index_eq)
qed

lemma radix_text_inj:
  assumes "2 \<le> b" and "b \<le> 16" and "map digit (radix b m) = map digit (radix b n)"
  shows "m = n"
proof -
  have "set (radix b m) \<union> set (radix b n) \<subseteq> {..<16}"
    using radix_digits [OF assms(1)] assms(2) by fastforce
  then have "inj_on digit (set (radix b m) \<union> set (radix b n))" using digit_inj inj_on_subset by blast
  from map_inj_on [OF assms(3) this] show ?thesis using radix_value [OF assms(1)] by metis
qed

lemma fmt_decimal_eq_iff [simp]: "fmt_decimal m = fmt_decimal n \<longleftrightarrow> m = n"
  using radix_text_inj [of 10 "unat m" "unat n"] by (auto simp: fmt_decimal_def word_unat_eq_iff)

lemma fmt_hex_eq_iff [simp]: "fmt_hex m = fmt_hex n \<longleftrightarrow> m = n"
  using radix_text_inj [of 16 "unat m" "unat n"] by (auto simp: fmt_hex_def word_unat_eq_iff)

section \<open>Errors\<close>

primrec fmt_reason :: "superblock_reason \<Rightarrow> string" where
  "fmt_reason BadMagic = ''BadMagic''"
| "fmt_reason BadCsum = ''BadCsum''"
| "fmt_reason GenerationSkew = ''GenerationSkew''"
| "fmt_reason NoValidCopy = ''NoValidCopy''"
| "fmt_reason UnsupportedCsumType = ''UnsupportedCsumType''"
| "fmt_reason UnsupportedIncompat = ''UnsupportedIncompat''"
| "fmt_reason BadGeometry = ''BadGeometry''"

primrec fmt_error :: "error \<Rightarrow> string" where
  "fmt_error (Io token offset) = ''io error ('' @ token @ '') at offset '' @ fmt_decimal offset"
| "fmt_error (BadSuperblock reason) = ''bad superblock: '' @ fmt_reason reason"
| "fmt_error (UnsupportedFeature t) = ''unsupported feature: '' @ t"
| "fmt_error (UnsupportedProfile t) = ''unsupported chunk profile: '' @ t"
| "fmt_error (UnsupportedChecksum t) = ''unsupported checksum type: '' @ t"
| "fmt_error (CsumMismatch logical) = ''metadata csum mismatch at logical '' @ fmt_hex logical"
| "fmt_error (CorruptBtree token logical) = ''corrupt b-tree ('' @ token @ '') at logical '' @ fmt_hex logical"
| "fmt_error NotFound = ''path component not found''"
| "fmt_error NotARegularFile = ''path does not resolve to a regular file''"
| "fmt_error NotASymlink = ''path does not resolve to a symlink''"
| "fmt_error NotASubvolume = ''path does not resolve to a subvolume root''"
| "fmt_error (BadCompression algorithm) = ''bad compressed extent ('' @ algorithm @ '')''"
| "fmt_error (OutOfMemory token) = ''out of memory ('' @ token @ '')''"

lemma fmt_reason_eq_iff: "fmt_reason r = fmt_reason r' \<longleftrightarrow> r = r'"
  by (cases r; cases r'; simp)

text \<open>The tokens of the crate are identifiers; it is enough that they hold no closing parenthesis.\<close>

primrec plain_token :: "error \<Rightarrow> bool" where
  "plain_token (Io token offset) = (CHR '')'' \<notin> set token)"
| "plain_token (BadSuperblock reason) = True"
| "plain_token (UnsupportedFeature t) = True"
| "plain_token (UnsupportedProfile t) = True"
| "plain_token (UnsupportedChecksum t) = True"
| "plain_token (CsumMismatch logical) = True"
| "plain_token (CorruptBtree token logical) = (CHR '')'' \<notin> set token)"
| "plain_token NotFound = True"
| "plain_token NotARegularFile = True"
| "plain_token NotASymlink = True"
| "plain_token NotASubvolume = True"
| "plain_token (BadCompression algorithm) = True"
| "plain_token (OutOfMemory token) = True"

lemma split_at_char: "c \<notin> set xs \<Longrightarrow> c \<notin> set ys \<Longrightarrow> xs @ c # u = ys @ c # v \<longleftrightarrow> xs = ys \<and> u = v"
  by (auto simp: append_eq_append_conv2 append_eq_Cons_conv Cons_eq_append_conv)

lemma fmt_error_identifies:
  assumes "plain_token e" and "plain_token e'" and "fmt_error e = fmt_error e'"
  shows "e = e'"
  using assms by (cases e; cases e'; simp add: fmt_reason_eq_iff split_at_char)

end
