(* ===== verification/Crc32c.thy ===== *)
theory Crc32c
  imports Checksum
begin

unbundle bit_operations_syntax

text \<open>
  The metadata checksum is computed by the \<^verbatim>\<open>crc\<close> package, a parameter of the model. The crate selects its
  algorithm by name, \<^verbatim>\<open>CRC_32_ISCSI\<close>: the reflected CRC with the Castagnoli polynomial, all ones at the
  start and complemented at the end. This theory states that algorithm, as the instance of the parameter
  that the unit tests run with, and shows that it tells apart any two inputs that differ in one byte.
\<close>

definition crc_32_iscsi :: "u8 list \<Rightarrow> u32" where
  "crc_32_iscsi data = NOT (crc32c_bitwise 0xFFFFFFFF data)"

lemma xor_cancel: "a XOR c = b XOR c \<longleftrightarrow> a = b" "c XOR a = c XOR b \<longleftrightarrow> a = b" for a b c :: u32
proof -
  have "(x XOR c) XOR c = x" for x :: u32 by (simp only: xor.assoc xor_self_eq xor.right_neutral)
  then show "a XOR c = b XOR c \<longleftrightarrow> a = b" by metis
  then show "c XOR a = c XOR b \<longleftrightarrow> a = b" by (simp only: xor.commute)
qed

lemma xor_zero_iff: "a XOR b = 0 \<longleftrightarrow> a = b" for a b :: u32
  using xor_cancel(1) [of a b b] by (simp only: xor_self_eq)

lemma crc_bit_step_zero: "crc_bit_step c = 0 \<longleftrightarrow> c = 0"
proof
  assume step: "crc_bit_step c = 0"
  have top: "\<not> bit (drop_bit 1 c) 31" by (auto simp: bit_drop_bit_eq dest: bit_imp_le_length)
  have low: "\<not> bit c 0"
  proof
    assume "bit c 0"
    with step have poly: "drop_bit 1 c = 0x82F63B78" by (simp add: crc_bit_step_alt xor_zero_iff)
    have "bit (drop_bit 1 c) 31" unfolding poly by simp
    with top show False by (rule notE)
  qed
  with step have zero: "drop_bit 1 c = 0" by (simp add: crc_bit_step_alt)
  have "\<not> bit c n" for n
  proof (cases n)
    case (Suc k)
    have "bit (drop_bit 1 c) k = bit c (Suc k)" by (simp add: bit_drop_bit_eq)
    moreover have "\<not> bit (drop_bit 1 c) k" unfolding zero by simp
    ultimately show ?thesis by (simp add: Suc)
  qed (use low in simp)
  then show "c = 0" by (intro bit_word_eqI) simp
next
  assume "c = 0"
  then show "crc_bit_step c = 0" by (simp only: crc_bit_step_def) simp
qed

lemma crc_bit_steps_inj: "crc_bit_steps k a = crc_bit_steps k b \<longleftrightarrow> a = b"
proof (induction k arbitrary: a b)
  case (Suc k)
  have "crc_bit_step a = crc_bit_step b \<longleftrightarrow> crc_bit_step (a XOR b) = 0"
    by (simp add: crc_bit_step_xor xor_zero_iff)
  also have "\<dots> \<longleftrightarrow> a = b" by (simp add: crc_bit_step_zero xor_zero_iff)
  finally show ?case by (simp add: Suc.IH)
qed simp

lemma crc32c_bitwise_state: "crc32c_bitwise s data = crc32c_bitwise s' data \<longleftrightarrow> s = s'"
proof (induction data arbitrary: s s')
  case (Cons b data)
  have "crc32c_bitwise s (b # data) = crc32c_bitwise (crc_bit_steps 8 (s XOR ucast b)) data" for s
    by (simp add: crc32c_bitwise_def)
  then show ?case by (simp add: Cons.IH crc_bit_steps_inj xor_cancel)
qed (simp add: crc32c_bitwise_def)

lemma crc32c_bitwise_append: "crc32c_bitwise s (xs @ ys) = crc32c_bitwise (crc32c_bitwise s xs) ys"
  by (simp add: crc32c_bitwise_def)

lemma ucast_byte_inj: "(ucast b :: u32) = ucast c \<longleftrightarrow> b = c" for b c :: u8
proof
  assume eq: "(ucast b :: u32) = ucast c"
  show "b = c"
  proof (rule bit_word_eqI)
    fix n assume "n < LENGTH(8)"
    then show "bit b n = bit c n" using arg_cong [OF eq, of "\<lambda>w. bit w n"] by (simp add: bit_ucast_iff)
  qed
qed simp

text \<open>Changing one byte changes the checksum.\<close>

lemma crc_32_iscsi_detects:
  assumes "i < length data" and "b \<noteq> data ! i"
  shows "crc_32_iscsi (data[i := b]) \<noteq> crc_32_iscsi data"
proof -
  let ?s = "crc32c_bitwise 0xFFFFFFFF (take i data)"
  have split: "data = take i data @ [data ! i] @ drop (Suc i) data" "data[i := b] = take i data @ [b] @ drop (Suc i) data"
    using assms(1) by (simp_all add: id_take_nth_drop [symmetric] upd_conv_take_nth_drop)
  have one: "crc32c_bitwise ?s [c] = crc_bit_steps 8 (?s XOR ucast c)" for c by (simp add: crc32c_bitwise_def)
  have "(ucast b :: u32) \<noteq> ucast (data ! i)"
    using assms(2) by (simp add: ucast_byte_inj)
  then have "crc32c_bitwise 0xFFFFFFFF (take i data @ [b] @ drop (Suc i) data) \<noteq>
      crc32c_bitwise 0xFFFFFFFF (take i data @ [data ! i] @ drop (Suc i) data)"
    by (simp only: crc32c_bitwise_append crc32c_bitwise_state one crc_bit_steps_inj xor_cancel) simp
  then have "crc32c_bitwise 0xFFFFFFFF (data[i := b]) \<noteq> crc32c_bitwise 0xFFFFFFFF data"
    unfolding split(2) split(1) [symmetric] .
  then show ?thesis by (simp add: crc_32_iscsi_def)
qed

text \<open>Evaluation: one byte is eight steps, each rewritten only on a literal.\<close>

lemma crc_bit_steps_8:
  "crc_bit_steps 8 c =
   crc_bit_step (crc_bit_step (crc_bit_step (crc_bit_step (crc_bit_step (crc_bit_step (crc_bit_step (crc_bit_step c)))))))"
  by (simp add: numeral_eq_Suc)

lemmas crc_eval = crc32c_bitwise_def crc_bit_steps_8 crc_bit_step_def [of "numeral n" for n]

text \<open>The check value of the algorithm: the digits 1 to 9.\<close>

lemma crc_32_iscsi_check: "crc_32_iscsi [0x31, 0x32, 0x33, 0x34, 0x35, 0x36, 0x37, 0x38, 0x39] = 0xE3069283"
  by (simp add: crc_32_iscsi_def crc_eval)

end
