(* ===== verification/Unit_Tests.thy ===== *)
theory Unit_Tests
  imports Crc32c Reserved_Constants Path Tree_Builder File_Content
begin

unbundle bit_operations_syntax

text \<open>
  The unit tests of the smaller modules and of the chunk map, each a program over the model that ends with
  \<open>Ok\<close> when the test passes and panics when it fails. Tests that compute checksums take the function as an
  argument; they pass under \<^verbatim>\<open>CRC_32_ISCSI\<close>, most of them under any function.
\<close>

section \<open>Assertions\<close>

text \<open>\<^verbatim>\<open>assert!\<close>; a sequence of assertions without effects between them is one list.\<close>

definition asserts :: "bool list \<Rightarrow> unit outcome" where
  "asserts bs = (if list_all (\<lambda>b. b) bs then Ok () else Panic)"

text \<open>\<^verbatim>\<open>unwrap\<close> on an option, and \<^verbatim>\<open>unwrap\<close> on the result of a block reader.\<close>

definition unwrap_some :: "'a option \<Rightarrow> 'a outcome" where
  "unwrap_some x = (case x of Some y \<Rightarrow> Ok y | None \<Rightarrow> Panic)"

definition unwrap_inr :: "'e + 'a \<Rightarrow> 'a outcome" where
  "unwrap_inr x = (case x of Inr y \<Rightarrow> Ok y | Inl _ \<Rightarrow> Panic)"

text \<open>\<^verbatim>\<open>matches!(r, Err(Error::CorruptBtree { token, .. }))\<close> for a given token. It does not match a panic either.\<close>

definition corrupt_token :: "string \<Rightarrow> 'a outcome \<Rightarrow> bool" where
  "corrupt_token token r = (case r of Err (CorruptBtree t _) \<Rightarrow> t = token | _ \<Rightarrow> False)"

lemma asserts_Ok [simp]: "asserts bs = Ok () \<longleftrightarrow> list_all (\<lambda>b. b) bs"
  by (simp add: asserts_def)

lemma asserts_True [simp]: "asserts [] = Ok ()" "asserts (True # bs) = asserts bs"
  by (simp_all add: asserts_def)

section \<open>Byte readers and keys (src/le.rs, src/format/repr.rs)\<close>

definition read_le_round_trip :: "unit outcome" where
  "read_le_round_trip =
    (let buf = [0x78, 0x56, 0x34, 0x12, 0xff, 0xee, 0xdd, 0xcc] in
     obind (read_le_u16 buf 0) (\<lambda>a.
     obind (read_le_u32 buf 0) (\<lambda>b.
     obind (read_le_u64 buf 0) (\<lambda>c.
     asserts [a = 0x5678, b = 0x12345678, c = 0xccddeeff12345678]))))"

definition disk_key_ordering :: "unit outcome" where
  "disk_key_ordering =
    (let a = DiskKey 1 1 0; b = DiskKey 1 1 1; c = DiskKey 1 2 0; d = DiskKey 2 0 0 in
     asserts [a < b \<and> b < c \<and> c < d])"

definition disk_key_parse_round_trips_offsets :: "unit outcome" where
  "disk_key_parse_round_trips_offsets =
     obind (write_slice (replicate DiskKey_SIZE 0) 0 8 (le_bytes (42 :: u64))) (\<lambda>buf.
     obind (write_byte buf 8 84) (\<lambda>buf.
     obind (write_slice buf 9 17 (le_bytes (7 :: u64))) (\<lambda>buf.
     obind (disk_key_parse buf 0) (\<lambda>key.
     asserts [key_objectid key = 42, key_item_type key = 84, key_offset key = 7]))))"

section \<open>Flags (src/format/flags.rs)\<close>

definition rejected_covers_zoned_raid_stripe_tree_and_remap_tree :: "unit outcome" where
  "rejected_covers_zoned_raid_stripe_tree_and_remap_tree =
    (let r = IncompatFlags_rejected in
     asserts [flags_contain r INCOMPAT_ZONED, flags_contain r INCOMPAT_RAID_STRIPE_TREE,
       flags_contain r INCOMPAT_REMAP_TREE, \<not> flags_contain r INCOMPAT_COMPRESS_ZSTD,
       \<not> flags_contain r INCOMPAT_SKINNY_METADATA])"

text \<open>\<^verbatim>\<open>from_bits_truncate\<close> drops the unknown bits.\<close>

definition unknown_bit_is_unknown :: "unit outcome" where
  "unknown_bit_is_unknown = (let parsed = push_bit 30 1 AND IncompatFlags_all in asserts [parsed = 0])"

section \<open>Paths (src/path.rs)\<close>

definition rejects_non_absolute_path :: "unit outcome" where
  "rejects_non_absolute_path =
     asserts [path_new [0x72, 0x65, 0x6C, 0x61, 0x74, 0x69, 0x76, 0x65] = None, path_new [] = None]"

definition iterates_components :: "unit outcome" where
  "iterates_components =
     obind (unwrap_some (path_new [0x2F, 0x61, 0x2F, 0x62, 0x2F, 0x63])) (\<lambda>p.
     asserts [path_components p = [[0x61], [0x62], [0x63]]])"

definition collapses_double_slashes :: "unit outcome" where
  "collapses_double_slashes =
     obind (unwrap_some (path_new [0x2F, 0x2F, 0x61, 0x2F, 0x2F, 0x2F, 0x62, 0x2F, 0x2F, 0x63, 0x2F])) (\<lambda>p.
     asserts [path_components p = [[0x61], [0x62], [0x63]]])"

definition skips_dot_components :: "unit outcome" where
  "skips_dot_components =
     obind (unwrap_some (path_new [0x2F, 0x2E, 0x2F, 0x61, 0x2F, 0x2E, 0x2F, 0x62])) (\<lambda>p.
     asserts [path_components p = [[0x61], [0x62]]])"

definition root_path_yields_no_components :: "unit outcome" where
  "root_path_yields_no_components =
     obind (unwrap_some (path_new [0x2F])) (\<lambda>p. asserts [path_components p = []])"

section \<open>The byte-slice reader (src/block_read.rs)\<close>

definition slice_adapter_reads_in_bounds :: "unit outcome" where
  "slice_adapter_reads_in_bounds =
     obind (unwrap_inr (slice_read_at [1, 2, 3, 4, 5, 6, 7, 8] 2 4)) (\<lambda>buf. asserts [buf = [3, 4, 5, 6]])"

definition slice_adapter_rejects_out_of_bounds :: "unit outcome" where
  "slice_adapter_rejects_out_of_bounds = asserts [slice_read_at [1, 2, 3] 0 4 = Inl OutOfBounds]"

lemma small_tests_pass:
  "read_le_round_trip = Ok ()" "disk_key_ordering = Ok ()" "disk_key_parse_round_trips_offsets = Ok ()"
  "rejected_covers_zoned_raid_stripe_tree_and_remap_tree = Ok ()" "unknown_bit_is_unknown = Ok ()"
  "slice_adapter_reads_in_bounds = Ok ()" "slice_adapter_rejects_out_of_bounds = Ok ()"
proof -
  show "read_le_round_trip = Ok ()"
    by (simp add: read_le_round_trip_def read_le_defs le_field_def from_le_bytes_def)
  show "disk_key_ordering = Ok ()" by (simp add: disk_key_ordering_def disk_key_less_iff)
  have "replicate 9 (0 :: u8) = 0 # replicate 8 0" by (simp add: eval_nat_numeral)
  then show "disk_key_parse_round_trips_offsets = Ok ()"
    by (simp add: disk_key_parse_round_trips_offsets_def layout write_slice_def write_byte_def disk_key_parse_eq
        le_field_def from_le_bytes_le_bytes list_update_append nth_append)
  show "rejected_covers_zoned_raid_stripe_tree_and_remap_tree = Ok ()"
    by (simp add: rejected_covers_zoned_raid_stripe_tree_and_remap_tree_def flags_contain_def format_consts)
  show "unknown_bit_is_unknown = Ok ()" by (simp add: unknown_bit_is_unknown_def format_consts)
  show "slice_adapter_reads_in_bounds = Ok ()"
    by (simp add: slice_adapter_reads_in_bounds_def unwrap_inr_def slice_read_at_def usize_checked_add_def usize_max_def)
  show "slice_adapter_rejects_out_of_bounds = Ok ()"
    by (simp add: slice_adapter_rejects_out_of_bounds_def slice_read_at_def usize_checked_add_def usize_max_def)
qed

lemma path_tests_pass:
  "rejects_non_absolute_path = Ok ()" "iterates_components = Ok ()" "collapses_double_slashes = Ok ()"
  "skips_dot_components = Ok ()" "root_path_yields_no_components = Ok ()"
  by (simp_all add: rejects_non_absolute_path_def iterates_components_def collapses_double_slashes_def
      skips_dot_components_def root_path_yields_no_components_def path_new_def unwrap_some_def path_components_def
      components_def collect_components_reference components_reference_def real_component_def)

section \<open>Checksums and name hashes (src/checksum.rs, src/root_tree.rs)\<close>

definition known_crc32c_value :: "platform \<Rightarrow> unit outcome" where
  "known_crc32c_value P =
     asserts [crc32c P [] = 0, crc32c P [0x31, 0x32, 0x33, 0x34, 0x35, 0x36, 0x37, 0x38, 0x39] = 0xE3069283]"

definition name_hash_matches_btrfs_kernel_output :: "unit outcome" where
  "name_hash_matches_btrfs_kernel_output =
     asserts
      [crc32c_with_seed 0xFFFFFFFE [0x68, 0x65, 0x6C, 0x6C, 0x6F, 0x2E, 0x74, 0x78, 0x74] = 0x415FEB59,
       crc32c_with_seed 0xFFFFFFFE [0x64, 0x69, 0x72, 0x2D, 0x61] = 0x2C549827,
       crc32c_with_seed 0xFFFFFFFE [0x6E, 0x65, 0x73, 0x74, 0x65, 0x64, 0x2E, 0x74, 0x78, 0x74] = 0x86F5F6F8]"

definition name_hash_uses_seed :: "platform \<Rightarrow> unit outcome" where
  "name_hash_uses_seed P =
    (let a = crc32c P default_name; b = crc32c_with_seed 0xFFFFFFFE default_name in asserts [a \<noteq> b])"

definition verify_csum_round_trip :: "platform \<Rightarrow> unit outcome" where
  "verify_csum_round_trip P =
    (let body = [0x68, 0x65, 0x6C, 0x6C, 0x6F, 0x2C, 0x20, 0x62, 0x74, 0x72, 0x66, 0x73];
         csum = crc32c P body in
     obind (write_slice (replicate 32 0) 0 4 (le_bytes csum)) (\<lambda>stored.
     obind (asserts [verify_crc32c P body stored]) (\<lambda>_.
     obind (read_le_u8 stored 0) (\<lambda>b.
     obind (write_byte stored 0 (b XOR 1)) (\<lambda>stored.
     asserts [\<not> verify_crc32c P body stored])))))"

definition name_hash_default_is_known :: "unit outcome" where
  "name_hash_default_is_known =
    (let h = name_hash default_name in
     asserts [h \<noteq> 0, name_hash default_name = h,
       name_hash default_name \<noteq> name_hash [0x44, 0x45, 0x46, 0x41, 0x55, 0x4C, 0x54]])"

lemma verify_csum_round_trip_passes: "verify_csum_round_trip P = Ok ()"
proof -
  define c where "c = crc32c P [0x68, 0x65, 0x6C, 0x6C, 0x6F, 0x2C, 0x20, 0x62, 0x74, 0x72, 0x66, 0x73]"
  let ?s = "le_bytes c @ replicate 28 0"
  have four: "take 4 (bs @ replicate 28 0) = [bs ! 0, bs ! Suc 0, bs ! 2, bs ! 3]" if "length bs = 4" for bs :: "u8 list"
    using that four_bytes [of bs] by simp
  have c: "c = from_le_bytes (le_bytes c)" by (simp add: from_le_bytes_le_bytes)
  have "le_bytes c \<noteq> (le_bytes c)[0 := le_bytes c ! 0 XOR 1]"
  proof
    assume "le_bytes c = (le_bytes c)[0 := le_bytes c ! 0 XOR 1]"
    from arg_cong [OF this, of "\<lambda>bs. bs ! 0"] have "le_bytes c ! 0 XOR 1 = le_bytes c ! 0" by simp
    then have "bit (le_bytes c ! 0 XOR 1) 0 = bit (le_bytes c ! 0) 0" by simp
    then show False by (simp add: bit_xor_iff bit_1_iff)
  qed
  then have ne: "from_le_bytes ((le_bytes c)[0 := le_bytes c ! 0 XOR 1]) \<noteq> c"
    using le_bytes_from_le_bytes [where 'a = 32, of "(le_bytes c)[0 := le_bytes c ! 0 XOR 1]"] by force
  have upd: "(le_bytes c @ replicate 28 0)[0 := b] = (le_bytes c)[0 := b] @ replicate 28 0" for b
    by (simp add: list_update_append)
  have "verify_crc32c P [0x68, 0x65, 0x6C, 0x6C, 0x6F, 0x2C, 0x20, 0x62, 0x74, 0x72, 0x66, 0x73] (bs @ replicate 28 0)
      \<longleftrightarrow> c = from_le_bytes bs" if "length bs = 4" for bs
    using that four_bytes [of bs] by (simp add: verify_crc32c_def nth_append c_def)
  from this [of "le_bytes c"] this [of "(le_bytes c)[0 := le_bytes c ! 0 XOR 1]"] ne c show ?thesis
    by (simp add: verify_csum_round_trip_def write_slice_def write_byte_def read_le_u8_def upd nth_append flip: c_def)
qed

lemma checksum_tests_pass:
  assumes "pf_crc32c P = crc_32_iscsi"
  shows "known_crc32c_value P = Ok ()" "name_hash_matches_btrfs_kernel_output = Ok ()" "name_hash_uses_seed P = Ok ()"
    "name_hash_default_is_known = Ok ()"
proof -
  have "crc_32_iscsi [] = 0" by (simp add: crc_32_iscsi_def crc32c_bitwise_def)
  then show "known_crc32c_value P = Ok ()"
    by (simp add: known_crc32c_value_def crc32c_def assms crc_32_iscsi_check)
  show "name_hash_matches_btrfs_kernel_output = Ok ()"
    by (simp add: name_hash_matches_btrfs_kernel_output_def crc32c_with_seed_bitwise crc_eval)
  show "name_hash_uses_seed P = Ok ()"
    by (simp add: name_hash_uses_seed_def crc32c_def assms crc_32_iscsi_def crc32c_with_seed_bitwise default_name_def crc_eval)
  show "name_hash_default_is_known = Ok ()"
    by (simp add: name_hash_default_is_known_def name_hash_def crc32c_with_seed_bitwise default_name_def NAME_HASH_SEED_def
        crc_eval)
qed

section \<open>Extent lengths (src/file.rs)\<close>

definition plaintext_decompression_cap_is_16_mib :: "unit outcome" where
  "plaintext_decompression_cap_is_16_mib = asserts [MAX_DECOMPRESSED_EXTENT_BYTES = 16 * 1024 * 1024]"

definition extent_logical_length_inline :: "unit outcome" where
  "extent_logical_length_inline =
     obind (write_slice (replicate 21 0) 8 16 (le_bytes (1234 :: u64))) (\<lambda>buf.
     obind (write_byte buf 20 FILE_EXTENT_INLINE) (\<lambda>buf.
     obind (unwrap (extent_logical_length buf)) (\<lambda>n.
     asserts [n = 1234])))"

definition extent_logical_length_regular :: "unit outcome" where
  "extent_logical_length_regular =
     obind (write_byte (replicate (21 + 32) 0) 20 FILE_EXTENT_REG) (\<lambda>buf.
     obind (write_slice buf (21 + 24) (21 + 32) (le_bytes (5555 :: u64))) (\<lambda>buf.
     obind (unwrap (extent_logical_length buf)) (\<lambda>n.
     asserts [n = 5555])))"

definition extent_logical_length_unknown_type_errors :: "unit outcome" where
  "extent_logical_length_unknown_type_errors =
     obind (write_byte (replicate 21 0) 20 99) (\<lambda>buf.
     asserts [corrupt_token ''extent_type_unknown'' (extent_logical_length buf)])"

lemma set_last_byte: "write_byte (replicate 20 0 @ z # rest) 20 b = Ok (replicate 20 0 @ b # rest)"
  by (rule write_byte_in) simp

lemma extent_tests_pass:
  "plaintext_decompression_cap_is_16_mib = Ok ()" "extent_logical_length_inline = Ok ()"
  "extent_logical_length_regular = Ok ()" "extent_logical_length_unknown_type_errors = Ok ()"
proof -
  have zeros: "replicate 21 (0 :: u8) = replicate 20 0 @ [0]" "replicate 53 (0 :: u8) = replicate 20 0 @ 0 # replicate 32 0"
    using replicate_add [of 20 1 "0 :: u8"] replicate_add [of 20 33 "0 :: u8"] replicate_Suc [of 32 "0 :: u8"] by simp_all
  show "plaintext_decompression_cap_is_16_mib = Ok ()"
    by (simp add: plaintext_decompression_cap_is_16_mib_def format_consts)
  have "write_slice (replicate 21 0) 8 16 (le_bytes (1234 :: u64)) =
      Ok (replicate 8 0 @ le_bytes (1234 :: u64) @ replicate 5 0)"
    by (simp add: write_slice_def)
  moreover have "write_byte (replicate 8 0 @ le_bytes (1234 :: u64) @ replicate 5 0) 20 0 =
      Ok (replicate 8 0 @ le_bytes (1234 :: u64) @ replicate 4 0 @ [0])"
    using write_byte_in [of "replicate 8 0 @ le_bytes (1234 :: u64) @ replicate 4 0" 20 0 "[]" 0]
      replicate_add [of 4 1 "0 :: u8"]
    by simp
  ultimately show "extent_logical_length_inline = Ok ()"
    by (simp add: extent_logical_length_inline_def extent_logical_length_def extent_header_eq
        extent_data_header_of_def le_field_def from_le_bytes_le_bytes format_consts nth_append)
  have "write_slice (replicate 20 0 @ FILE_EXTENT_REG # replicate 32 0) 45 53 (le_bytes (5555 :: u64)) =
      Ok ((replicate 20 0 @ [FILE_EXTENT_REG]) @ replicate 24 0 @ le_bytes (5555 :: u64))"
    by (simp add: write_slice_def)
  then show "extent_logical_length_regular = Ok ()"
    by (simp add: extent_logical_length_regular_def zeros set_last_byte extent_logical_length_def extent_header_eq
        extent_data_header_of_def extent_data_regular_parse_eq extent_data_regular_of_def le_field_def
        from_le_bytes_le_bytes format_consts nth_append layout)
  show "extent_logical_length_unknown_type_errors = Ok ()"
    by (simp add: extent_logical_length_unknown_type_errors_def zeros set_last_byte extent_logical_length_def
        extent_header_eq extent_data_header_of_def le_field_def format_consts nth_append corrupt_token_def)
qed

section \<open>The chunk map (src/chunk_tree.rs)\<close>

definition parse_sys_chunk_array_single_chunk :: "unit outcome" where
  "parse_sys_chunk_array_single_chunk =
    (let entry = build_sys_chunk_entry 0x00100000 0x100000 1 [(1, 0x00100000)] in
     obind (vec_resize entry 2048) (\<lambda>padded.
     obind (unwrap (parse_system_chunk_array chunk_map_default padded (length entry))) (\<lambda>map.
     obind (asserts [length (mappings map) = 1]) (\<lambda>_.
     obind (unwrap (chunk_map_resolve map 0x00101234)) (\<lambda>r.
     asserts [rs_devid r = 1, rs_physical r = 0x00101234])))))"

definition resolve_uses_the_copy_on_the_local_device :: "unit outcome" where
  "resolve_uses_the_copy_on_the_local_device =
    (let entry = build_sys_chunk_entry 0x00100000 0x100000 2 [(2, 0x01000000), (1, 0x02000000)];
         map = set_local_devid chunk_map_default 1 in
     obind (unwrap (parse_system_chunk_array map entry (length entry))) (\<lambda>map.
     obind (unwrap (chunk_map_resolve map 0x00100010)) (\<lambda>r.
     asserts [(rs_devid r, rs_physical r) = (1, 0x02000010)])))"

definition resolve_refuses_a_chunk_with_no_local_copy :: "unit outcome" where
  "resolve_refuses_a_chunk_with_no_local_copy =
    (let entry = build_sys_chunk_entry 0x00100000 0x100000 1 [(2, 0x01000000)];
         map = set_local_devid chunk_map_default 1 in
     obind (unwrap (parse_system_chunk_array map entry (length entry))) (\<lambda>map.
     asserts [chunk_map_resolve map 0x00100010 = Err (UnsupportedProfile ''prof_other_device'')]))"

definition resolve_outside_any_chunk_errors :: "unit outcome" where
  "resolve_outside_any_chunk_errors =
    (let entry = build_sys_chunk_entry 0x00100000 0x100000 1 [(1, 0x00100000)] in
     obind (vec_resize entry 2048) (\<lambda>padded.
     obind (unwrap (parse_system_chunk_array chunk_map_default padded (length entry))) (\<lambda>map.
     asserts
      [corrupt_token ''chunk_unmapped'' (chunk_map_resolve map 0),
       corrupt_token ''chunk_unmapped'' (chunk_map_resolve map 0x00200000)])))"

definition single_mapping :: "u64 \<Rightarrow> u64 \<Rightarrow> chunk_mapping" where
  "single_mapping logical len =
     \<lparr>cm_logical = logical, cm_length = len, cm_ty = 0, cm_stripe_len = 65536, cm_num_stripes = 1,
      cm_sub_stripes = 0, cm_stripes = [\<lparr>st_devid = 1, st_offset = 0, st_dev_uuid = replicate 16 0\<rparr>]\<rparr>"

definition insert_rejects_length_overflow :: "unit outcome" where
  "insert_rejects_length_overflow =
    (let map = chunk_map_default; bad = single_mapping 1 (- 1) in
     asserts [corrupt_token ''chunk_overflow'' (chunk_map_insert map bad)])"

text \<open>The test pushes the malformed mapping behind the back of \<^verbatim>\<open>insert\<close>.\<close>

definition resolve_rejects_mapping_overflow :: "unit outcome" where
  "resolve_rejects_mapping_overflow =
    (let map = chunk_map_default\<lparr>mappings := [single_mapping (- 1 - 100) 1000]\<rparr> in
     asserts [corrupt_token ''chunk_overflow'' (chunk_map_resolve map (- 1 - 50))])"

definition raid5_chunk_is_rejected :: "unit outcome" where
  "raid5_chunk_is_rejected =
    (let out = le_bytes (3 :: u64) @ [CHUNK_ITEM_KEY] @ le_bytes (0x00100000 :: u64) @ le_bytes (0x100000 :: u64)
           @ le_bytes (3 :: u64) @ le_bytes (65536 :: u64) @ le_bytes BLOCK_GROUP_RAID5 @ le_bytes (4096 :: u32)
           @ le_bytes (4096 :: u32) @ le_bytes (4096 :: u32) @ le_bytes (3 :: u16) @ le_bytes (0 :: u16)
           @ concat (map (\<lambda>d :: u64. le_bytes d @ le_bytes (d * 0x00100000) @ replicate UUID_LEN 0) [1, 2, 3]);
         used = length out in
     obind (vec_resize out 2048) (\<lambda>out.
     obind (unwrap (parse_system_chunk_array chunk_map_default out used)) (\<lambda>map.
     asserts [chunk_map_resolve map 0x00101000 = Err (UnsupportedProfile ''prof_raid5'')])))"

text \<open>Parsing one entry, followed by padding, gives a map with that chunk.\<close>

lemma insert_first:
  assumes "mappings cm = []" and "unat (cm_logical m) + unat (cm_length m) < 2 ^ 64"
  shows "chunk_map_insert cm m = Ok (cm\<lparr>mappings := [m]\<rparr>)"
  using assms
  by (simp add: chunk_map_insert_def get_before_def get_at_def checked_add_def partition_point_def)

lemma parse_one_chunk:
  assumes "sys_chunk_ok c" and "mappings cm = []"
    and "unat (cm_logical (sys_chunk_mapping c)) + unat (cm_length (sys_chunk_mapping c)) < 2 ^ 64"
  shows "parse_system_chunk_array cm (encode_sys_chunk c @ post) (length (encode_sys_chunk c)) =
    Ok (cm\<lparr>mappings := [sys_chunk_mapping c]\<rparr>)"
  using sys_chunk_array_roundtrip [of "[c]" cm "[]" post] insert_first [OF assms(2,3)] assms(1)
  by (simp add: parse_system_chunk_array_def)

lemma test_chunk_len:
  "length (encode_sys_chunk (test_chunk logical n k stripes)) = 65 + 32 * length stripes"
proof -
  have "length (concat (map encode_stripe (snd (snd (snd (test_chunk logical n k stripes)))))) = 32 * length stripes"
    by (subst length_concat_stripes) (auto simp: test_chunk_def UUID_LEN_def)
  then show ?thesis by (simp add: encode_sys_chunk_def test_chunk_def encode_defs)
qed

lemmas parse_test_chunk = parse_one_chunk [of "test_chunk logical n k stripes" for logical n k stripes,
  folded build_sys_chunk_entry_eq, unfolded test_chunk_ok]

lemmas resolve_eval = chunk_map_resolve_def partition_point_def get_before_def checked_add_def pick_stripe_def
  chunk_profile_def plain_sub_def sys_chunk_mapping_def test_chunk_def format_consts

definition raid5_chunk :: sys_chunk where
  "raid5_chunk =
     (3, 0x100000,
      \<lparr>ch_length = 0x100000, ch_owner = 3, ch_stripe_len = 65536, ch_ty = BLOCK_GROUP_RAID5, ch_io_align = 4096,
       ch_io_width = 4096, ch_sector_size = 4096, ch_num_stripes = 3, ch_sub_stripes = 0, ch_stripes_offset = 65\<rparr>,
      map (\<lambda>d. \<lparr>st_devid = d, st_offset = d * 0x100000, st_dev_uuid = replicate 16 0\<rparr>) [1, 2, 3])"

lemma chunk_tests_pass:
  "parse_sys_chunk_array_single_chunk = Ok ()" "resolve_uses_the_copy_on_the_local_device = Ok ()"
  "resolve_refuses_a_chunk_with_no_local_copy = Ok ()" "resolve_outside_any_chunk_errors = Ok ()"
  "insert_rejects_length_overflow = Ok ()" "resolve_rejects_mapping_overflow = Ok ()"
  "raid5_chunk_is_rejected = Ok ()"
proof -
  let ?e = "build_sys_chunk_entry 0x00100000 0x100000 1 [(1, 0x00100000)]"
  have len: "length ?e = 97" by (simp add: build_sys_chunk_entry_eq test_chunk_len)
  have pad: "vec_resize ?e 2048 = Ok (?e @ replicate 1951 0)" by (simp add: vec_resize_def isize_max_def len)
  have parse: "parse_system_chunk_array chunk_map_default (?e @ replicate 1951 0) (length ?e) =
      Ok (chunk_map_default\<lparr>mappings := [sys_chunk_mapping (test_chunk 0x00100000 0x100000 1 [(1, 0x00100000)])]\<rparr>)"
    by (rule parse_test_chunk) (simp_all add: chunk_map_default_def sys_chunk_mapping_def test_chunk_def)
  show "parse_sys_chunk_array_single_chunk = Ok ()"
    unfolding parse_sys_chunk_array_single_chunk_def Let_def pad obind.simps parse unwrap.simps
    by (simp add: chunk_map_default_def resolve_eval)
  show "resolve_outside_any_chunk_errors = Ok ()"
    unfolding resolve_outside_any_chunk_errors_def Let_def pad obind.simps parse unwrap.simps
    by (simp add: chunk_map_default_def resolve_eval corrupt_token_def)
  show "insert_rejects_length_overflow = Ok ()"
    by (simp add: insert_rejects_length_overflow_def single_mapping_def chunk_map_insert_def chunk_map_default_def
        partition_point_def get_before_def checked_add_def corrupt_token_def unsigned_minus_1_eq_mask mask_eq_exp_minus_1)
  show "resolve_rejects_mapping_overflow = Ok ()"
    by (simp add: resolve_rejects_mapping_overflow_def single_mapping_def chunk_map_default_def resolve_eval
        corrupt_token_def)
  let ?l = "set_local_devid chunk_map_default 1"
  have two: "parse_system_chunk_array ?l (build_sys_chunk_entry 0x00100000 0x100000 2 [(2, 0x01000000), (1, 0x02000000)])
      (length (build_sys_chunk_entry 0x00100000 0x100000 2 [(2, 0x01000000), (1, 0x02000000)])) =
      Ok (?l\<lparr>mappings := [sys_chunk_mapping (test_chunk 0x00100000 0x100000 2 [(2, 0x01000000), (1, 0x02000000)])]\<rparr>)"
    by (rule parse_test_chunk [where post = "[]", simplified])
      (simp_all add: chunk_map_default_def set_local_devid_def sys_chunk_mapping_def test_chunk_def)
  show "resolve_uses_the_copy_on_the_local_device = Ok ()"
    unfolding resolve_uses_the_copy_on_the_local_device_def Let_def two obind.simps unwrap.simps
    by (simp add: chunk_map_default_def set_local_devid_def resolve_eval)
  have other: "parse_system_chunk_array ?l (build_sys_chunk_entry 0x00100000 0x100000 1 [(2, 0x01000000)])
      (length (build_sys_chunk_entry 0x00100000 0x100000 1 [(2, 0x01000000)])) =
      Ok (?l\<lparr>mappings := [sys_chunk_mapping (test_chunk 0x00100000 0x100000 1 [(2, 0x01000000)])]\<rparr>)"
    by (rule parse_test_chunk [where post = "[]", simplified])
      (simp_all add: chunk_map_default_def set_local_devid_def sys_chunk_mapping_def test_chunk_def)
  show "resolve_refuses_a_chunk_with_no_local_copy = Ok ()"
    unfolding resolve_refuses_a_chunk_with_no_local_copy_def Let_def other obind.simps unwrap.simps
    by (simp add: chunk_map_default_def set_local_devid_def resolve_eval)
  have raid5: "parse_system_chunk_array chunk_map_default (encode_sys_chunk raid5_chunk @ replicate 1887 0) 161 =
      Ok (chunk_map_default\<lparr>mappings := [sys_chunk_mapping raid5_chunk]\<rparr>)" "length (encode_sys_chunk raid5_chunk) = 161"
    using parse_one_chunk [of raid5_chunk chunk_map_default "replicate 1887 0"]
    by (simp_all add: raid5_chunk_def sys_chunk_ok_def chunk_map_default_def sys_chunk_mapping_def encode_sys_chunk_def
        encode_defs)
  have enc: "le_bytes (3 :: u64) @ [CHUNK_ITEM_KEY] @ le_bytes (0x00100000 :: u64) @ le_bytes (0x100000 :: u64)
           @ le_bytes (3 :: u64) @ le_bytes (65536 :: u64) @ le_bytes BLOCK_GROUP_RAID5 @ le_bytes (4096 :: u32)
           @ le_bytes (4096 :: u32) @ le_bytes (4096 :: u32) @ le_bytes (3 :: u16) @ le_bytes (0 :: u16)
           @ concat (map (\<lambda>d :: u64. le_bytes d @ le_bytes (d * 0x00100000) @ replicate UUID_LEN 0) [1, 2, 3]) =
      encode_sys_chunk raid5_chunk"
    by (simp add: raid5_chunk_def encode_sys_chunk_def encode_defs UUID_LEN_def)
  have "vec_resize (encode_sys_chunk raid5_chunk) 2048 = Ok (encode_sys_chunk raid5_chunk @ replicate 1887 0)"
    using raid5(2) by (simp add: vec_resize_def isize_max_def)
  then show "raid5_chunk_is_rejected = Ok ()"
    unfolding raid5_chunk_is_rejected_def enc
    by (simp add: raid5 Let_def) (simp add: chunk_map_default_def raid5_chunk_def resolve_eval)
qed

end
