(* ===== verification/Superblock_Tests.thy ===== *)
theory Superblock_Tests
  imports Unit_Tests
begin

unbundle bit_operations_syntax

text \<open>
  The unit tests of the superblock loader (\<^verbatim>\<open>src/superblock.rs\<close>): superblocks built field by field, damaged
  in one place, put on a device and loaded. They pass under any checksum function; the one that damages the
  body without a new checksum needs a function that notices the change, as \<^verbatim>\<open>CRC_32_ISCSI\<close> does.
\<close>

section \<open>The tests\<close>

text \<open>Loading from a device in memory, as every test does it.\<close>

definition load_from :: "(u8 list \<Rightarrow> u32) \<Rightarrow> u8 list \<Rightarrow> superblock outcome" where
  "load_from crc device =
     superblock_load (slice_platform device crc (\<lambda>_. True)) (word_of_nat (length device))"

definition loads_minimal_valid_sb_from_primary :: "(u8 list \<Rightarrow> u32) \<Rightarrow> unit outcome" where
  "loads_minimal_valid_sb_from_primary crc =
     obind (build_minimal_valid_sb crc) (\<lambda>sb_bytes.
     obind (device_with_primary sb_bytes) (\<lambda>device.
     obind (unwrap (load_from crc device)) (\<lambda>sb.
     asserts [sb_magic sb = BTRFS_MAGIC, sb_sectorsize sb = 4096, sb_nodesize sb = 16384,
       sb_csum_type sb = CSUM_TYPE_CRC32C])))"

definition rejects_bad_magic :: "(u8 list \<Rightarrow> u32) \<Rightarrow> unit outcome" where
  "rejects_bad_magic crc =
     obind (build_minimal_valid_sb crc) (\<lambda>sb_bytes.
     obind (write_slice sb_bytes 64 72 (le_bytes (0xDEADBEEFDEADBEEF :: u64))) (\<lambda>sb_bytes.
     obind (write_csum crc sb_bytes) (\<lambda>sb_bytes.
     obind (device_with_primary sb_bytes) (\<lambda>device.
     asserts [load_from crc device = Err (BadSuperblock BadMagic)]))))"

definition rejects_bad_csum :: "(u8 list \<Rightarrow> u32) \<Rightarrow> unit outcome" where
  "rejects_bad_csum crc =
     obind (build_minimal_valid_sb crc) (\<lambda>sb_bytes.
     obind (read_le_u8 sb_bytes 100) (\<lambda>b.
     obind (write_byte sb_bytes 100 (b XOR 0xFF)) (\<lambda>sb_bytes.
     obind (device_with_primary sb_bytes) (\<lambda>device.
     asserts [load_from crc device = Err (BadSuperblock BadCsum)]))))"

definition rejects_unsupported_csum_type :: "(u8 list \<Rightarrow> u32) \<Rightarrow> unit outcome" where
  "rejects_unsupported_csum_type crc =
     obind (build_minimal_valid_sb crc) (\<lambda>sb_bytes.
     obind (write_slice sb_bytes 196 198 (le_bytes CSUM_TYPE_SHA256)) (\<lambda>sb_bytes.
     obind (write_csum crc sb_bytes) (\<lambda>sb_bytes.
     obind (device_with_primary sb_bytes) (\<lambda>device.
     asserts [load_from crc device = Err (UnsupportedChecksum ''csum_sha256'')]))))"

definition rejects_zoned_incompat :: "(u8 list \<Rightarrow> u32) \<Rightarrow> unit outcome" where
  "rejects_zoned_incompat crc =
     obind (build_minimal_valid_sb crc) (\<lambda>sb_bytes.
     obind (write_slice sb_bytes 188 196 (le_bytes INCOMPAT_ZONED)) (\<lambda>sb_bytes.
     obind (write_csum crc sb_bytes) (\<lambda>sb_bytes.
     obind (device_with_primary sb_bytes) (\<lambda>device.
     asserts [load_from crc device = Err (UnsupportedFeature ''feat_zoned'')]))))"

definition rejects_unknown_incompat_bits :: "(u8 list \<Rightarrow> u32) \<Rightarrow> unit outcome" where
  "rejects_unknown_incompat_bits crc =
     for_each [15, 18, 40, 63] (\<lambda>bit :: nat.
       obind (with_incompat crc (push_bit bit 1)) (\<lambda>sb.
       obind (device_with_primary sb) (\<lambda>device.
       asserts [load_from crc device = Err (UnsupportedFeature ''feat_unknown_incompat'')])))"

definition rejects_remap_tree_incompat :: "(u8 list \<Rightarrow> u32) \<Rightarrow> unit outcome" where
  "rejects_remap_tree_incompat crc =
     obind (with_incompat crc INCOMPAT_REMAP_TREE) (\<lambda>sb.
     obind (device_with_primary sb) (\<lambda>device.
     asserts [load_from crc device = Err (UnsupportedFeature ''feat_remap_tree'')]))"

definition accepts_known_tolerated_incompat_bits :: "(u8 list \<Rightarrow> u32) \<Rightarrow> unit outcome" where
  "accepts_known_tolerated_incompat_bits crc =
    (let stock = INCOMPAT_MIXED_BACKREF OR INCOMPAT_BIG_METADATA OR INCOMPAT_EXTENDED_IREF
           OR INCOMPAT_SKINNY_METADATA OR INCOMPAT_NO_HOLES OR INCOMPAT_COMPRESS_ZSTD OR INCOMPAT_SIMPLE_QUOTA in
     obind (with_incompat crc stock) (\<lambda>sb.
     obind (device_with_primary sb) (\<lambda>device.
     asserts [is_ok (load_from crc device)])))"

definition non_crc32c_superblock_reports_its_csum_type :: "(u8 list \<Rightarrow> u32) \<Rightarrow> unit outcome" where
  "non_crc32c_superblock_reports_its_csum_type crc =
     for_each
      [(CSUM_TYPE_XXHASH, ''csum_xxhash''), (CSUM_TYPE_SHA256, ''csum_sha256''), (CSUM_TYPE_BLAKE2, ''csum_blake2'')]
      (\<lambda>(csum_type, token).
        obind (build_minimal_valid_sb crc) (\<lambda>sb_bytes.
        obind (write_slice sb_bytes 196 198 (le_bytes csum_type)) (\<lambda>sb_bytes.
        obind (write_slice sb_bytes 0 32 (replicate 32 0x5A)) (\<lambda>sb_bytes.
        obind (device_with_primary sb_bytes) (\<lambda>device.
        asserts [load_from crc device = Err (UnsupportedChecksum token)])))))"

text \<open>Two copies: at the primary and at the second offset.\<close>

definition device_with_two :: "u8 list \<Rightarrow> u8 list \<Rightarrow> u8 list outcome" where
  "device_with_two primary backup =
    (let secondary = as_usize (SUPERBLOCK_OFFSETS ! 1) in
     obind (vec_zeroed (secondary + SUPERBLOCK_SIZE)) (\<lambda>device.
     obind (write_slice device (as_usize SUPERBLOCK_PRIMARY_OFFSET)
              (as_usize SUPERBLOCK_PRIMARY_OFFSET + SUPERBLOCK_SIZE) primary) (\<lambda>device.
     write_slice device secondary (length device) backup)))"

definition damaged_csum_type_in_primary_falls_back_to_a_valid_copy :: "(u8 list \<Rightarrow> u32) \<Rightarrow> unit outcome" where
  "damaged_csum_type_in_primary_falls_back_to_a_valid_copy crc =
     obind (build_minimal_valid_sb crc) (\<lambda>primary.
     obind (write_slice primary 196 198 (le_bytes CSUM_TYPE_SHA256)) (\<lambda>primary.
     obind (build_minimal_valid_sb crc) (\<lambda>backup.
     obind (device_with_two primary backup) (\<lambda>device.
     obind (unwrap (load_from crc device)) (\<lambda>sb.
     asserts [sb_csum_type sb = CSUM_TYPE_CRC32C])))))"

definition picks_highest_generation_among_valid_copies :: "(u8 list \<Rightarrow> u32) \<Rightarrow> unit outcome" where
  "picks_highest_generation_among_valid_copies crc =
     obind (build_minimal_valid_sb crc) (\<lambda>sb_a.
     obind (write_slice sb_a 72 80 (le_bytes (100 :: u64))) (\<lambda>sb_a.
     obind (write_csum crc sb_a) (\<lambda>sb_a.
     obind (build_minimal_valid_sb crc) (\<lambda>sb_b.
     obind (write_slice sb_b 72 80 (le_bytes (200 :: u64))) (\<lambda>sb_b.
     obind (write_csum crc sb_b) (\<lambda>sb_b.
     obind (device_with_two sb_a sb_b) (\<lambda>device.
     obind (unwrap (load_from crc device)) (\<lambda>sb.
     asserts [sb_generation sb = 200]))))))))"

section \<open>The superblocks they build\<close>

text \<open>The body with the fields that the tests change.\<close>

definition test_body :: "u64 \<Rightarrow> u64 \<Rightarrow> u64 \<Rightarrow> u64 \<Rightarrow> u16 \<Rightarrow> u8 list" where
  "test_body magic gen log bits csum_type =
     replicate 16 0xAA @ le_bytes SUPERBLOCK_PRIMARY_OFFSET @ replicate 8 0 @ le_bytes magic
     @ le_bytes gen @ le_bytes (0x100000 :: u64) @ le_bytes (0x200000 :: u64) @ le_bytes log @ replicate 8 0
     @ le_bytes (push_bit 30 1 :: u64) @ le_bytes (push_bit 20 1 :: u64) @ le_bytes (6 :: u64)
     @ le_bytes (1 :: u64) @ le_bytes (4096 :: u32) @ le_bytes (16384 :: u32) @ le_bytes (16384 :: u32)
     @ le_bytes (4096 :: u32) @ replicate 4 0 @ le_bytes (1 :: u64) @ replicate 16 0 @ le_bytes bits
     @ le_bytes csum_type @ replicate 3898 0"

lemma length_test_body [simp]: "length (test_body m g l b t) = 4064"
  by (simp add: test_body_def)

lemma minimal_test_body: "minimal_body b = test_body BTRFS_MAGIC 1 0 b 0"
  by (simp add: minimal_body_def test_body_def flip: replicate_add append_assoc)

lemma test_fields:
  assumes "length csum = 32"
  shows "sb_magic (superblock_of (csum @ test_body m g l b t)) = m"
    "sb_csum_type (superblock_of (csum @ test_body m g l b t)) = t"
    "sb_incompat_flags (superblock_of (csum @ test_body m g l b t)) = b"
    "sb_sectorsize (superblock_of (csum @ test_body m g l b t)) = 4096"
    "sb_nodesize (superblock_of (csum @ test_body m g l b t)) = 16384"
    "sb_generation (superblock_of (csum @ test_body m g l b t)) = g"
    "sb_csum (superblock_of (csum @ test_body m g l b t)) = csum"
  using assms
  by (simp_all add: superblock_of_def test_body_def le_field_def from_le_bytes_le_bytes layout CSUM_LEN_def)

text \<open>What the loader makes of one copy.\<close>

definition test_verdict :: "platform \<Rightarrow> u8 list \<Rightarrow> u64 \<Rightarrow> u64 \<Rightarrow> u64 \<Rightarrow> u64 \<Rightarrow> u16 \<Rightarrow> copy_outcome" where
  "test_verdict P csum m g l b t =
    (if m \<noteq> BTRFS_MAGIC then CopyBadMagic
     else if t = 1 then CopyUnsupportedCsumType ''csum_xxhash''
     else if t = 2 then CopyUnsupportedCsumType ''csum_sha256''
     else if t = 3 then CopyUnsupportedCsumType ''csum_blake2''
     else if t \<noteq> 0 then CopyUnsupportedCsumType ''csum_unknown''
     else if \<not> verify_crc32c P (test_body m g l b t) csum then CopyBadCsum
     else case incompat_verdict b of
       Some token \<Rightarrow> CopyUnsupportedIncompat token
     | None \<Rightarrow> CopyValid (superblock_of (csum @ test_body m g l b t)))"

lemma try_test_body:
  assumes "length csum = 32" and "reader_read P off 4096 = Some (csum @ test_body m g l b t)"
  shows "try_load_one P off = Ok (test_verdict P csum m g l b t)"
proof -
  have "is_pow2_in_range 4096 4096 65536" "is_pow2_in_range 16384 4096 65536"
    by (simp_all add: is_pow2_in_range_def is_power_of_two_def upt_rec)
  with assms show ?thesis
    by (simp add: try_load_one_def superblock_parse_eq slice_def test_fields Let_def test_verdict_def
        flags_contain_rejected incompat_verdict_def MIN_SECTOR_SIZE_def MAX_SECTOR_SIZE_def MIN_NODE_SIZE_def
        MAX_NODE_SIZE_def SUPERBLOCK_SIZE_def body_offset_for_csum_def CSUM_LEN_def CSUM_TYPE_CRC32C_def
        CSUM_TYPE_XXHASH_def CSUM_TYPE_SHA256_def CSUM_TYPE_BLAKE2_def)
qed

lemma load_primary:
  assumes "length csum = 32"
  shows "load_from crc (replicate 0x10000 0 @ csum @ test_body m g l b t) =
    (case test_verdict (slice_platform (replicate 0x10000 0 @ csum @ test_body m g l b t) crc (\<lambda>_. True)) csum m g l b t of
       CopyValid sb \<Rightarrow> Ok sb
     | CopyBadMagic \<Rightarrow> Err (BadSuperblock BadMagic)
     | CopyBadCsum \<Rightarrow> Err (BadSuperblock BadCsum)
     | CopyUnsupportedCsumType token \<Rightarrow> Err (UnsupportedChecksum token)
     | CopyUnsupportedIncompat token \<Rightarrow> Err (UnsupportedFeature token)
     | CopyBadGeometry \<Rightarrow> Err (BadSuperblock BadGeometry)
     | CopyIoError \<Rightarrow> Err (BadSuperblock NoValidCopy))"
proof -
  let ?img = "replicate 0x10000 0 @ csum @ test_body m g l b t"
  have len: "length ?img = 0x11000" using assms by simp
  then have "reader_read (slice_platform ?img crc (\<lambda>_. True)) 0x10000 4096 = Some (csum @ test_body m g l b t)"
    using assms by (subst reader_read_slice_platform) (simp_all add: usize_max_def)
  from try_test_body [OF assms this] show ?thesis
    unfolding load_from_def len by (simp add: superblock_load_def SUPERBLOCK_OFFSETS_def split: copy_outcome.split)
qed

text \<open>The superblocks of the tests, with their checksum.\<close>

definition stored_csum :: "(u8 list \<Rightarrow> u32) \<Rightarrow> u8 list \<Rightarrow> u8 list" where
  "stored_csum crc body = le_bytes (crc body) @ replicate 28 0"

lemma length_stored_csum [simp]: "length (stored_csum crc body) = 32"
  by (simp add: stored_csum_def)

lemma verify_stored_csum [simp]: "pf_crc32c P = crc \<Longrightarrow> verify_crc32c P body (stored_csum crc body)"
  using verify_stored_crc [of P body "replicate 28 0"] by (simp add: stored_csum_def)

lemma build_test_sb:
  "build_minimal_valid_sb crc =
     Ok (stored_csum crc (test_body BTRFS_MAGIC 1 0 0 0) @ test_body BTRFS_MAGIC 1 0 0 0)"
  "with_incompat crc bits =
     Ok (stored_csum crc (test_body BTRFS_MAGIC 1 0 bits 0) @ test_body BTRFS_MAGIC 1 0 bits 0)"
  by (simp_all add: build_minimal_valid_sb_eq with_incompat_eq stored_csum_def minimal_test_body)

lemma patch_test_sb:
  assumes "length csum = 32"
  shows "write_slice (csum @ test_body m g l b t) 64 72 (le_bytes m') = Ok (csum @ test_body m' g l b t)"
    "write_slice (csum @ test_body m g l b t) 72 80 (le_bytes g') = Ok (csum @ test_body m g' l b t)"
    "write_slice (csum @ test_body m g l b t) 188 196 (le_bytes b') = Ok (csum @ test_body m g l b' t)"
    "write_slice (csum @ test_body m g l b t) 196 198 (le_bytes t') = Ok (csum @ test_body m g l b t')"
    "length csum' = 32 \<Longrightarrow> write_slice (csum @ test_body m g l b t) 0 32 csum' = Ok (csum' @ test_body m g l b t)"
  using assms by (simp_all add: write_slice_def test_body_def)

lemma recsum_test_sb:
  "write_csum crc (stored_csum crc' body' @ body) = Ok (stored_csum crc body @ body)"
  using write_csum_body [of "stored_csum crc' body'" crc body] by (simp add: stored_csum_def)

lemma primary_test_sb:
  "length csum = 32 \<Longrightarrow>
   device_with_primary (csum @ test_body m g l b t) = Ok (replicate 0x10000 0 @ csum @ test_body m g l b t)"
  by (simp add: device_with_primary_eq)

lemmas test_sb = build_test_sb patch_test_sb recsum_test_sb primary_test_sb load_primary

lemma slice_platform_crc [simp]: "pf_crc32c (slice_platform device crc alloc) = crc"
  by (simp add: slice_platform_def)

lemma primary_tests_pass:
  "loads_minimal_valid_sb_from_primary crc = Ok ()" "rejects_bad_magic crc = Ok ()"
  "rejects_unsupported_csum_type crc = Ok ()" "rejects_zoned_incompat crc = Ok ()"
  "rejects_unknown_incompat_bits crc = Ok ()" "rejects_remap_tree_incompat crc = Ok ()"
  "accepts_known_tolerated_incompat_bits crc = Ok ()" "non_crc32c_superblock_reports_its_csum_type crc = Ok ()"
proof -
  show "loads_minimal_valid_sb_from_primary crc = Ok ()"
    by (simp add: loads_minimal_valid_sb_from_primary_def test_sb test_verdict_def incompat_verdict_def test_fields
        CSUM_TYPE_CRC32C_def)
  show "rejects_bad_magic crc = Ok ()"
    by (simp add: rejects_bad_magic_def test_sb test_verdict_def BTRFS_MAGIC_def)
  show "rejects_unsupported_csum_type crc = Ok ()"
    by (simp add: rejects_unsupported_csum_type_def test_sb test_verdict_def CSUM_TYPE_SHA256_def)
  show "rejects_zoned_incompat crc = Ok ()"
    by (simp add: rejects_zoned_incompat_def test_sb test_verdict_def incompat_verdict_def format_consts)
  show "rejects_unknown_incompat_bits crc = Ok ()"
    by (simp add: rejects_unknown_incompat_bits_def test_sb test_verdict_def incompat_verdict_def format_consts)
  show "rejects_remap_tree_incompat crc = Ok ()"
    by (simp add: rejects_remap_tree_incompat_def test_sb test_verdict_def incompat_verdict_def format_consts)
  show "accepts_known_tolerated_incompat_bits crc = Ok ()"
    by (simp add: accepts_known_tolerated_incompat_bits_def test_sb test_verdict_def incompat_verdict_def format_consts)
  show "non_crc32c_superblock_reports_its_csum_type crc = Ok ()"
    by (simp add: non_crc32c_superblock_reports_its_csum_type_def test_sb test_verdict_def CSUM_TYPE_XXHASH_def
        CSUM_TYPE_SHA256_def CSUM_TYPE_BLAKE2_def)
qed

text \<open>A damaged byte in the field of the log root.\<close>

lemma nat_le_bytes_numeral:
  "nat_le_bytes (numeral k) v = word_of_nat (v mod 256) # nat_le_bytes (pred_numeral k) (v div 256)"
  by (subst numeral_eq_Suc) (simp only: nat_le_bytes.simps)

lemma damaged_body:
  "(test_body m g 0 b t)[68 := 0xFF] = test_body m g 0xFF00000000 b t" "test_body m g 0 b t ! 68 = 0"
proof -
  have "le_bytes (0 :: u64) = [0, 0, 0, 0, 0, 0, 0, 0]" "le_bytes (0xFF00000000 :: u64) = [0, 0, 0, 0, 0xFF, 0, 0, 0]"
    by (simp_all add: le_bytes_def nat_le_bytes_numeral)
  then show "(test_body m g 0 b t)[68 := 0xFF] = test_body m g 0xFF00000000 b t" "test_body m g 0 b t ! 68 = 0"
    by (simp_all add: test_body_def list_update_append nth_append)
qed

lemma rejects_bad_csum_passes:
  assumes "\<And>i b data. i < length data \<Longrightarrow> b \<noteq> data ! i \<Longrightarrow> crc (data[i := b]) \<noteq> crc data"
  shows "rejects_bad_csum crc = Ok ()"
proof -
  let ?body = "test_body BTRFS_MAGIC 1 0 0 0" and ?bad = "test_body BTRFS_MAGIC 1 0xFF00000000 0 0"
  have crc: "crc ?bad \<noteq> crc ?body"
    using assms [of 68 ?body "0xFF"] by (simp add: damaged_body)
  have "le_bytes (crc ?body) ! 0 # [le_bytes (crc ?body) ! 1, le_bytes (crc ?body) ! 2, le_bytes (crc ?body) ! 3] =
      le_bytes (crc ?body)"
    using four_bytes [of "le_bytes (crc ?body)"] by simp
  then have "\<not> verify_crc32c P ?bad (stored_csum crc ?body)" if "pf_crc32c P = crc" for P
    using that crc by (simp add: verify_crc32c_def stored_csum_def crc32c_def nth_append from_le_bytes_le_bytes)
  then have verdict: "test_verdict (slice_platform img crc alloc) (stored_csum crc ?body) BTRFS_MAGIC 1 0xFF00000000 0 0 = CopyBadCsum"
    for img alloc
    by (simp add: test_verdict_def)
  have "read_le_u8 (stored_csum crc ?body @ ?body) 100 = Ok 0"
    by (simp add: read_le_u8_def nth_append damaged_body)
  moreover have "write_byte (stored_csum crc ?body @ ?body) 100 0xFF = Ok (stored_csum crc ?body @ ?bad)"
    by (simp add: write_byte_def list_update_append damaged_body)
  ultimately show ?thesis
    by (simp add: rejects_bad_csum_def build_test_sb primary_test_sb load_primary verdict)
qed

text \<open>Two copies on one device.\<close>

lemma two_copies_device:
  assumes "length a = 4096" and "length b = 4096"
  shows "device_with_two a b = Ok (replicate 0x10000 0 @ a @ replicate 0x3FEF000 0 @ b)"
proof -
  have "replicate 0x4001000 (0 :: u8) = replicate 0x10000 0 @ replicate 0x1000 0 @ replicate 0x3FEF000 0 @ replicate 0x1000 0"
    by (simp flip: replicate_add)
  with assms show ?thesis
    by (simp add: device_with_two_def vec_zeroed_def isize_max_def SUPERBLOCK_OFFSETS_def SUPERBLOCK_SIZE_def
        SUPERBLOCK_PRIMARY_OFFSET_def write_slice_def)
qed

lemma load_two:
  fixes crc :: "u8 list \<Rightarrow> u32" and a b :: "u8 list"
  assumes "length a = 4096" and "length b = 4096"
  defines "P \<equiv> slice_platform (replicate 0x10000 0 @ a @ replicate 0x3FEF000 0 @ b) crc (\<lambda>_. True)"
  shows "load_from crc (replicate 0x10000 0 @ a @ replicate 0x3FEF000 0 @ b) =
      load_loop P 0x4001000 [0x10000, 0x4000000] None None None"
    and "reader_read P 0x10000 4096 = Some a" and "reader_read P 0x4000000 4096 = Some b"
proof -
  let ?img = "replicate 0x10000 0 @ a @ replicate 0x3FEF000 0 @ b"
  have len: "length ?img = 0x4001000" using assms by simp
  then show "reader_read P 0x10000 4096 = Some a" "reader_read P 0x4000000 4096 = Some b"
    using assms(1,2) unfolding P_def by (subst reader_read_slice_platform; simp add: usize_max_def)+
  show "load_from crc ?img = load_loop P 0x4001000 [0x10000, 0x4000000] None None None"
    unfolding load_from_def len P_def [symmetric] by (simp add: superblock_load_def SUPERBLOCK_OFFSETS_def)
qed

lemma two_copy_tests_pass:
  "damaged_csum_type_in_primary_falls_back_to_a_valid_copy crc = Ok ()"
  "picks_highest_generation_among_valid_copies crc = Ok ()"
proof -
  let ?good = "\<lambda>g. stored_csum crc (test_body BTRFS_MAGIC g 0 0 0) @ test_body BTRFS_MAGIC g 0 0 0"
    and ?typed = "stored_csum crc (test_body BTRFS_MAGIC 1 0 0 0) @ test_body BTRFS_MAGIC 1 0 0 2"
  have len: "length (?good g) = 4096" "length ?typed = 4096" for g by simp_all
  have good: "try_load_one P off = Ok (CopyValid (superblock_of (?good g)))"
    if "reader_read P off 4096 = Some (?good g)" "pf_crc32c P = crc" for P off g
    using try_test_body [OF length_stored_csum that(1)] that(2) by (simp add: test_verdict_def incompat_verdict_def)
  have typed: "try_load_one P off = Ok (CopyUnsupportedCsumType ''csum_sha256'')"
    if "reader_read P off 4096 = Some ?typed" for P off
    using try_test_body [OF length_stored_csum that] by (simp add: test_verdict_def)
  show "damaged_csum_type_in_primary_falls_back_to_a_valid_copy crc = Ok ()"
    using load_two [OF len(2) len(1) [of 1], of crc]
    by (simp add: damaged_csum_type_in_primary_falls_back_to_a_valid_copy_def build_test_sb patch_test_sb
        two_copies_device CSUM_TYPE_SHA256_def CSUM_TYPE_CRC32C_def good typed test_fields del: append_assoc append.simps replicate.simps)
  show "picks_highest_generation_among_valid_copies crc = Ok ()"
    using load_two [OF len(1) [of 100] len(1) [of 200], of crc]
    by (simp add: picks_highest_generation_among_valid_copies_def build_test_sb patch_test_sb recsum_test_sb
        two_copies_device good test_fields)
qed

end
