(* ===== verification/Block_Checks.thy ===== *)
theory Block_Checks
  imports Written_Tree
begin

text \<open>
  What reading refuses. The tests of \<^verbatim>\<open>src/btree.rs\<close> build one leaf with its keys out of order and one with a
  flipped byte; here every leaf that can be built is read back, and refused exactly when its keys do not
  ascend, and every byte of it can be flipped.
\<close>

text \<open>One stored block at the start of a volume: the checks in the order of the code.\<close>

lemma stored_block_verdict:
  fixes c :: u32 and body :: "u8 list" and ns :: u32 and base :: u64
  assumes len: "32 + length body = unat ns" and ns: "101 \<le> unat ns"
    and fit: "unat base + unat ns \<le> isize_max"
  defines "bytes \<equiv> le_bytes c @ replicate 28 0 @ body"
  defines "b \<equiv> \<lparr>tb_header = header_of bytes, tb_body = bytes\<rparr>"
  shows "read_tree_block (slice_platform (replicate (unat base) 0 @ bytes) crc alloc)
      (volume_map base (unat ns)) ns base =
    (if crc body \<noteq> c then Err (CsumMismatch base)
     else if tb_bytenr b \<noteq> base then Err (CorruptBtree ''bytenr_mismatch'' base)
     else obind (validate_keys_strictly_ascending b) (\<lambda>_. Ok b))"
proof -
  let ?P = "slice_platform (replicate (unat base) 0 @ bytes) crc alloc"
  let ?r = "\<lparr>rs_devid = 1, rs_physical = base, rs_contiguous_bytes = word_of_nat (unat ns)\<rparr>"
  have fit64: "unat base + unat ns < 2 ^ 64" using fit by (simp add: isize_max_def)
  have res: "chunk_map_resolve (volume_map base (unat ns)) base = Ok ?r"
    using volume_resolve [of base base "unat ns"] fit64 ns by simp
  have size: "length (replicate (unat base) (0 :: u8) @ bytes) \<le> usize_max" "length bytes = unat ns"
    using fit len by (simp_all add: isize_max_def usize_max_def bytes_def)
  have "reader_read ?P base (unat ns) = Some bytes"
    using size by (subst reader_read_slice_platform) simp_all
  moreover have "(0 :: u64) < ucast ns" using ns by (simp add: word_less_nat_alt unat_ucast_u32_u64)
  moreover have "(ucast ns :: u64) \<le> word_of_nat (unat ns)"
    by (simp add: word_le_nat_alt unat_ucast_u32_u64 unat_word_of_nat_small)
  ultimately have "read_block_from ?P (volume_map base (unat ns)) base base (ucast ns) [] = Ok bytes"
    using read_block_from_contiguous [OF res, of "ucast ns" ?P bytes base "[]"] by (simp add: unat_ucast_u32_u64)
  moreover have "hd_csum (header_of bytes) = le_bytes c @ replicate 28 0"
    by (simp add: header_of_def bytes_def)
  moreover have "drop 32 bytes = body" by (simp add: bytes_def)
  moreover have "verify_crc32c ?P body (le_bytes c @ replicate 28 0) \<longleftrightarrow> crc body = c"
    using from_le_bytes_le_bytes [of c] four_bytes [of "le_bytes c"]
    by (simp add: verify_crc32c_def crc32c_def slice_platform_def nth_append)
  ultimately show ?thesis
    using ns size(2)
    by (auto simp: read_tree_block_def header_parse_eq Let_def format_consts slice_def b_def)
qed

lemma build_leaf_volume:
  assumes "kv_size kvs \<le> unat ns" and "unat base + unat ns \<le> isize_max"
  shows "obind (build_leaf crc ns base kvs) (\<lambda>leaf. synth_volume ns leaf base) =
    Ok (volume_map base (unat ns), replicate (unat base) 0 @ tb_body (built_leaf crc (unat ns) base kvs))"
  using assms built_leaf_length [OF assms(1), of crc base]
  by (simp add: build_leaf_eq synth_volume_eq)

text \<open>A built leaf read back, as it was written and with one byte after the checksum field changed.\<close>

lemma built_leaf_verdict:
  fixes crc :: "u8 list \<Rightarrow> u32" and ns :: u32 and base :: u64 and kvs :: "kv list"
  assumes "kv_size kvs \<le> unat ns" and "unat base + unat ns \<le> isize_max"
  defines "b \<equiv> built_leaf crc (unat ns) base kvs"
  shows "read_tree_block (slice_platform (replicate (unat base) 0 @ tb_body b) crc alloc) (volume_map base (unat ns)) ns base =
    (if sorted_wrt (<) (map fst kvs) then Ok b else Err (CorruptBtree ''key_order'' base))"
proof -
  let ?body = "built_leaf_body (unat ns) base kvs"
  have ns: "101 \<le> unat ns" using assms(1) by (simp add: kv_size_def)
  note leaf = tb_body_built_leaf [of crc "unat ns" base kvs]
  have len: "32 + length ?body = unat ns" using built_leaf_length [OF assms(1), of crc base] by (simp add: leaf)
  have b: "\<lparr>tb_header = header_of (tb_body b), tb_body = tb_body b\<rparr> = b" by (simp add: b_def built_leaf_parsed)
  show ?thesis
    using stored_block_verdict [OF len ns assms(2), of "crc ?body" crc alloc] built_leaf_validate [OF assms(1), of crc base]
    unfolding b_def by (simp add: leaf [simplified, symmetric] b [unfolded b_def])
qed

lemma changed_leaf_verdict:
  fixes crc :: "u8 list \<Rightarrow> u32" and ns :: u32 and base :: u64 and kvs :: "kv list"
  assumes "kv_size kvs \<le> unat ns" and "unat base + unat ns \<le> isize_max"
  defines "leaf \<equiv> tb_body (built_leaf crc (unat ns) base kvs)"
  assumes p: "32 \<le> p" and crc: "crc (drop 32 (leaf[p := x])) \<noteq> crc (drop 32 leaf)"
  shows "read_tree_block (slice_platform (replicate (unat base) 0 @ leaf[p := x]) crc alloc) (volume_map base (unat ns)) ns base =
    Err (CsumMismatch base)"
proof -
  let ?body = "built_leaf_body (unat ns) base kvs"
  have ns: "101 \<le> unat ns" using assms(1) by (simp add: kv_size_def)
  have leaf: "leaf = le_bytes (crc ?body) @ replicate 28 0 @ ?body"
    using tb_body_built_leaf [of crc "unat ns" base kvs] by (simp add: leaf_def)
  have len: "32 + length ?body = unat ns"
    using built_leaf_length [OF assms(1), of crc base] by (simp add: leaf_def [symmetric] leaf)
  obtain q where "p = 32 + q" using p by (metis le_iff_add)
  then have upd: "leaf[p := x] = le_bytes (crc ?body) @ replicate 28 0 @ ?body[p - 32 := x]"
    by (simp add: leaf list_update_append)
  have "crc (?body[p - 32 := x]) \<noteq> crc ?body" using crc by (simp add: upd) (simp add: leaf)
  then show ?thesis
    using stored_block_verdict [of "?body[p - 32 := x]" ns base "crc ?body" crc alloc] len ns assms(2)
    by (simp add: upd)
qed

text \<open>
  C31. Validation is exact on every leaf that can be built, under any checksum function. Read back, a leaf
  is accepted exactly when its keys strictly ascend and is refused as \<^verbatim>\<open>key_order\<close> corruption otherwise;
  and when one byte after the checksum field is changed, it is refused with \<^verbatim>\<open>CsumMismatch\<close> whenever the
  checksum function tells the two bodies apart.
\<close>

theorem leaf_validation_exact:
  assumes "kv_size kvs \<le> unat ns" and "unat base + unat ns \<le> isize_max"
  shows "\<exists>cm leaf. obind (build_leaf crc ns base kvs) (\<lambda>leaf. synth_volume ns leaf base) =
      Ok (cm, replicate (unat base) 0 @ leaf) \<and>
    (case read_tree_block (slice_platform (replicate (unat base) 0 @ leaf) crc alloc) cm ns base of
       Ok b \<Rightarrow> sorted_wrt (<) (map fst kvs) \<and> tb_body b = leaf
     | Err e \<Rightarrow> \<not> sorted_wrt (<) (map fst kvs) \<and> e = CorruptBtree ''key_order'' base
     | Panic \<Rightarrow> False) \<and>
    (\<forall>p x. 32 \<le> p \<and> p < length leaf \<and> crc (drop 32 (leaf[p := x])) \<noteq> crc (drop 32 leaf) \<longrightarrow>
      read_tree_block (slice_platform (replicate (unat base) 0 @ leaf[p := x]) crc alloc) cm ns base =
        Err (CsumMismatch base))"
proof -
  let ?b = "built_leaf crc (unat ns) base kvs"
  show ?thesis
    using build_leaf_volume [OF assms, of crc] built_leaf_verdict [OF assms, of crc alloc]
      changed_leaf_verdict [OF assms, of _ crc _ alloc]
    by (intro exI [of _ "volume_map base (unat ns)"] exI [of _ "tb_body ?b"]) simp
qed

theorem leaf_validation_exact_witness:
  "\<exists>cm leaf. obind (build_leaf (\<lambda>bs. ucast (last bs)) 4096 0x100000 [(test_key 99, [0x58]), (test_key 1, [0x59])])
      (\<lambda>leaf. synth_volume 4096 leaf 0x100000) = Ok (cm, replicate 0x100000 0 @ leaf) \<and>
    read_tree_block (slice_platform (replicate 0x100000 0 @ leaf) (\<lambda>bs. ucast (last bs)) (\<lambda>_. True)) cm 4096 0x100000 =
      Err (CorruptBtree ''key_order'' 0x100000)"
proof -
  let ?kvs = "[(test_key 99, [0x58]), (test_key 1, [0x59])] :: kv list" and ?crc = "\<lambda>bs. ucast (last bs) :: u32"
  have fit: "kv_size ?kvs \<le> unat (4096 :: u32)" "unat (0x100000 :: u64) + unat (4096 :: u32) \<le> isize_max"
    by (simp_all add: kv_size_def isize_max_def)
  have unsorted: "\<not> sorted_wrt (<) (map fst ?kvs)" by (simp add: test_key_def disk_key_less_iff)
  obtain cm leaf where w: "obind (build_leaf ?crc 4096 0x100000 ?kvs) (\<lambda>leaf. synth_volume 4096 leaf 0x100000) =
      Ok (cm, replicate (unat (0x100000 :: u64)) 0 @ leaf)"
    "case read_tree_block (slice_platform (replicate (unat (0x100000 :: u64)) 0 @ leaf) ?crc (\<lambda>_. True)) cm 4096 0x100000 of
       Ok b \<Rightarrow> sorted_wrt (<) (map fst ?kvs) \<and> tb_body b = leaf
     | Err e \<Rightarrow> \<not> sorted_wrt (<) (map fst ?kvs) \<and> e = CorruptBtree ''key_order'' 0x100000
     | Panic \<Rightarrow> False"
    using leaf_validation_exact [OF fit, of ?crc "\<lambda>_. True"] by blast
  show ?thesis
    using w unsorted by (intro exI [of _ cm] exI [of _ leaf]) (simp split: outcome.splits)
qed

end
