(* ===== verification/Btree_Tests.thy ===== *)
theory Btree_Tests
  imports Unit_Tests Block_Checks
begin

unbundle bit_operations_syntax

text \<open>
  The unit tests of the tree walker (\<^verbatim>\<open>src/btree.rs\<close>): leaves and trees written with the builders of the
  tests, put on a device and searched. They pass under any checksum function; the one that flips a byte of
  a stored leaf needs a function that notices it, as \<^verbatim>\<open>CRC_32_ISCSI\<close> does.
\<close>

section \<open>The tests\<close>

text \<open>The device in memory as the reader of a test.\<close>

definition test_reader :: "(u8 list \<Rightarrow> u32) \<Rightarrow> u8 list \<Rightarrow> platform" where
  "test_reader crc device = slice_platform device crc (\<lambda>_. True)"

definition find_exact_in_single_leaf :: "(u8 list \<Rightarrow> u32) \<Rightarrow> unit outcome" where
  "find_exact_in_single_leaf crc =
    (let nodesize = 4096; root = 0x100000;
         key_a = DiskKey 1 1 0; key_b = DiskKey 2 2 0; key_c = DiskKey 3 3 0 in
     obind (build_leaf crc nodesize root
       [(key_a, [0x41, 0x41, 0x41, 0x41]), (key_b, [0x42, 0x42]), (key_c, [0x43, 0x43, 0x43, 0x43, 0x43, 0x43])]) (\<lambda>leaf.
     obind (synth_volume nodesize leaf root) (\<lambda>(map, device).
     obind (unwrap (find_exact (test_reader crc device) map nodesize root key_b)) (\<lambda>found.
     obind (unwrap_some found) (\<lambda>result.
     obind (unwrap (tb_leaf_item (fst result) (snd result))) (\<lambda>item.
     obind (unwrap (tb_leaf_item_data (fst result) item)) (\<lambda>data.
     asserts [data = [0x42, 0x42]])))))))"

definition find_exact_returns_none_for_absent_key :: "(u8 list \<Rightarrow> u32) \<Rightarrow> unit outcome" where
  "find_exact_returns_none_for_absent_key crc =
    (let nodesize = 4096; root = 0x100000; key_a = DiskKey 1 1 0 in
     obind (build_leaf crc nodesize root [(key_a, [0x58])]) (\<lambda>leaf.
     obind (synth_volume nodesize leaf root) (\<lambda>(map, device).
     let absent = DiskKey 99 1 0 in
     obind (unwrap (find_exact (test_reader crc device) map nodesize root absent)) (\<lambda>result.
     asserts [result = None]))))"

definition find_first_ge_matches_target_or_above :: "(u8 list \<Rightarrow> u32) \<Rightarrow> unit outcome" where
  "find_first_ge_matches_target_or_above crc =
    (let nodesize = 4096; root = 0x100000; keys = [DiskKey 1 1 0, DiskKey 5 1 0, DiskKey 9 1 0] in
     obind (build_leaf crc nodesize root [(keys ! 0, [0x61]), (keys ! 1, [0x62]), (keys ! 2, [0x63])]) (\<lambda>leaf.
     obind (synth_volume nodesize leaf root) (\<lambda>(map, device).
     let target = DiskKey 4 0 0 in
     obind (unwrap (find_first_ge (test_reader crc device) map nodesize root target)) (\<lambda>found.
     obind (unwrap_some found) (\<lambda>result.
     obind (unwrap (tb_leaf_item (fst result) (snd result))) (\<lambda>item.
     asserts [li_key item = keys ! 1]))))))"

definition find_first_ge_moves_to_the_next_leaf :: "(u8 list \<Rightarrow> u32) \<Rightarrow> unit outcome" where
  "find_first_ge_moves_to_the_next_leaf crc =
    (let nodesize = 4096; base = 0x100000 in
     obind (two_leaf_tree crc nodesize base) (\<lambda>(map, device).
     obind (unwrap (find_first_ge (test_reader crc device) map nodesize base (test_key 3))) (\<lambda>found.
     obind (unwrap_some found) (\<lambda>(leaf, idx).
     obind (unwrap (tb_leaf_item leaf idx)) (\<lambda>item.
     obind (asserts [li_key item = test_key 5]) (\<lambda>_.
     obind (unwrap (find_first_ge (test_reader crc device) map nodesize base (test_key 2))) (\<lambda>found.
     obind (unwrap_some found) (\<lambda>(leaf, idx).
     obind (unwrap (tb_leaf_item leaf idx)) (\<lambda>item.
     obind (asserts [li_key item = test_key 2]) (\<lambda>_.
     obind (unwrap (find_first_ge (test_reader crc device) map nodesize base (test_key 7))) (\<lambda>found.
     obind (asserts [found = None]) (\<lambda>_.
     obind (unwrap (find_exact (test_reader crc device) map nodesize base (test_key 3))) (\<lambda>found.
     asserts [found = None])))))))))))))"

definition find_first_ge_takes_the_separator_from_a_higher_level :: "(u8 list \<Rightarrow> u32) \<Rightarrow> unit outcome" where
  "find_first_ge_takes_the_separator_from_a_higher_level crc =
    (let nodesize = 4096; base = 0x100000; at = (\<lambda>slot :: u64. base + slot * ucast nodesize) in
     obind (build_node crc nodesize base 2 [(test_key 1, at 1), (test_key 10, at 2)]) (\<lambda>b0.
     obind (build_node crc nodesize (at 1) 1 [(test_key 1, at 3), (test_key 5, at 4)]) (\<lambda>b1.
     obind (build_node crc nodesize (at 2) 1 [(test_key 10, at 5)]) (\<lambda>b2.
     obind (build_leaf crc nodesize (at 3) [(test_key 1, [0x31])]) (\<lambda>b3.
     obind (build_leaf crc nodesize (at 4) [(test_key 5, [0x35]), (test_key 6, [0x36])]) (\<lambda>b4.
     obind (build_leaf crc nodesize (at 5) [(test_key 10, [0x31, 0x30])]) (\<lambda>b5.
     obind (synth_tree base [b0, b1, b2, b3, b4, b5]) (\<lambda>(map, device).
     obind (unwrap (find_first_ge (test_reader crc device) map nodesize base (test_key 7))) (\<lambda>found.
     obind (unwrap_some found) (\<lambda>(leaf, idx).
     obind (unwrap (tb_leaf_item leaf idx)) (\<lambda>item.
     asserts [li_key item = test_key 10])))))))))))"

definition find_first_ge_refuses_a_separator_that_lies :: "(u8 list \<Rightarrow> u32) \<Rightarrow> unit outcome" where
  "find_first_ge_refuses_a_separator_that_lies crc =
    (let nodesize = 4096; base = 0x100000; n = ucast nodesize in
     obind (build_node crc nodesize base 1 [(test_key 1, base + n), (test_key 5, base + 2 * n)]) (\<lambda>root.
     obind (build_leaf crc nodesize (base + n) [(test_key 1, [0x31])]) (\<lambda>a.
     obind (build_leaf crc nodesize (base + 2 * n) [(test_key 2, [0x32])]) (\<lambda>b.
     obind (synth_tree base [root, a, b]) (\<lambda>(map, device).
     asserts [corrupt_token ''separator_mismatch''
       (find_first_ge (test_reader crc device) map nodesize base (test_key 3))])))))"

definition binary_search_leaf_detects_disordered_adjacent_keys :: "(u8 list \<Rightarrow> u32) \<Rightarrow> unit outcome" where
  "binary_search_leaf_detects_disordered_adjacent_keys crc =
    (let nodesize = 4096; root = 0x100000; big = DiskKey 99 1 0; small = DiskKey 1 1 0 in
     obind (build_leaf crc nodesize root [(big, [0x58]), (small, [0x59])]) (\<lambda>leaf.
     obind (synth_volume nodesize leaf root) (\<lambda>(map, device).
     let probe = DiskKey 50 1 0;
         result = find_exact (test_reader crc device) map nodesize root probe in
     asserts [corrupt_token ''key_order'' result])))"

definition rejects_corrupted_csum :: "(u8 list \<Rightarrow> u32) \<Rightarrow> unit outcome" where
  "rejects_corrupted_csum crc =
    (let nodesize = 4096; root = 0x100000; key_a = DiskKey 1 1 0 in
     obind (build_leaf crc nodesize root [(key_a, [0x58])]) (\<lambda>leaf.
     obind (read_le_u8 leaf 200) (\<lambda>b.
     obind (write_byte leaf 200 (b XOR 0xFF)) (\<lambda>leaf.
     obind (synth_volume nodesize leaf root) (\<lambda>(map, device).
     let result = find_exact (test_reader crc device) map nodesize root key_a in
     asserts [case result of Err (CsumMismatch _) \<Rightarrow> True | _ \<Rightarrow> False])))))"

section \<open>Blocks on a test device\<close>

text \<open>Well-formed blocks laid out back to back are read back, each at its address.\<close>

lemma test_tree:
  assumes good: "\<forall>j < length bs. block_good crc 4096 (block_addr 4096 0x100000 j) (bs ! j)" and len: "length bs \<le> 16"
  obtains cm device where "synth_tree 0x100000 (map tb_body bs) = Ok (cm, device)"
    "\<And>j. j < length bs \<Longrightarrow> read_tree_block (test_reader crc device) cm 4096 (block_addr 4096 0x100000 j) = Ok (bs ! j)"
proof -
  let ?blocks = "concat (map tb_body bs)"
  have "length (tb_body b) = 4096" if "b \<in> set bs" for b
    using that good by (auto simp: block_good_def in_set_conv_nth)
  then have n: "length ?blocks = length bs * 4096" by (rule length_concat_same)
  with len have "length ?blocks = unat (word_of_nat (length bs * 4096) :: u32)"
    by (subst unat_word_of_nat_small) simp_all
  from synth_volume_eq [OF this, of "0x100000"] len n
  have vol: "synth_tree 0x100000 (map tb_body bs) =
      Ok (volume_map 0x100000 (length bs * 4096), replicate (unat (0x100000 :: u64)) 0 @ ?blocks)"
    by (simp add: synth_tree_def Let_def isize_max_def)
  have "read_tree_block (test_reader crc (replicate (unat (0x100000 :: u64)) 0 @ ?blocks)) (volume_map 0x100000 (length bs * 4096))
      4096 (block_addr 4096 0x100000 j) = Ok (bs ! j)" if "j < length bs" for j
    unfolding test_reader_def
    using written_block_read [OF good _ _ that, of "replicate (unat (0x100000 :: u64)) 0" None] len
    by (simp add: isize_max_def)
  with vol show ?thesis by (rule that)
qed

text \<open>A leaf alone is a tree of one block.\<close>

lemma test_leaf:
  assumes "kv_size kvs \<le> 4096" and "sorted_wrt (<) (map fst kvs)"
  obtains cm device where "synth_volume 4096 (tb_body (built_leaf crc 4096 0x100000 kvs)) 0x100000 = Ok (cm, device)"
    "read_tree_block (test_reader crc device) cm 4096 0x100000 = Ok (built_leaf crc 4096 0x100000 kvs)"
proof -
  let ?b = "built_leaf crc 4096 0x100000 kvs"
  have base: "block_addr 4096 0x100000 0 = 0x100000" by (simp add: block_addr_def)
  have "\<forall>j < length [?b]. block_good crc 4096 (block_addr 4096 0x100000 j) ([?b] ! j)"
    using built_leaf_good [of kvs 4096 crc "0x100000"] assms base by simp
  then obtain cm device where "synth_tree 0x100000 (map tb_body [?b]) = Ok (cm, device)"
    "\<And>j. j < length [?b] \<Longrightarrow> read_tree_block (test_reader crc device) cm 4096 (block_addr 4096 0x100000 j) = Ok ([?b] ! j)"
    by (rule test_tree) simp_all
  from this(1) this(2) [of 0] show ?thesis
    using built_leaf_length [OF assms(1), of crc "0x100000"] base by (intro that [of cm device]) (simp_all add: synth_tree_def)
qed

section \<open>Searches on built blocks\<close>

lemma bsearch_loop_less: "bsearch_loop below lo hi =
    (if lo < hi then obind (below (lo + (hi - lo) div 2))
      (\<lambda>b. if b then bsearch_loop below (lo + (hi - lo) div 2 + 1) hi else bsearch_loop below lo (lo + (hi - lo) div 2))
     else Ok lo)"
  by (subst bsearch_loop.simps) (simp add: Let_def)

lemmas test_search = binary_search_leaf_def binary_search_interior_def bsearch_loop_less built_leaf_item built_node_ptr
  built_leaf_nritems built_node_nritems disk_key_less_iff disk_key_le_iff

lemma descend_to_built_leaf:
  "read_tree_block P cm ns root = Ok (built_leaf crc n a kvs) \<Longrightarrow>
   descend_to_leaf P cm ns root t = Ok (built_leaf crc n a kvs, None)"
  by (simp add: descend_to_leaf_def descend_loop_0)

lemma single_leaf_tests_pass:
  "find_exact_in_single_leaf crc = Ok ()" "find_exact_returns_none_for_absent_key crc = Ok ()"
  "find_first_ge_matches_target_or_above crc = Ok ()"
proof -
  let ?kvs = "[(DiskKey 1 1 0, [0x41, 0x41, 0x41, 0x41]), (DiskKey 2 2 0, [0x42, 0x42]),
    (DiskKey 3 3 0, [0x43, 0x43, 0x43, 0x43, 0x43, 0x43])] :: kv list"
  have fit: "kv_size ?kvs \<le> 4096" by (simp add: kv_size_def)
  obtain cm device where vol: "synth_volume 4096 (tb_body (built_leaf crc 4096 0x100000 ?kvs)) 0x100000 = Ok (cm, device)"
    "read_tree_block (test_reader crc device) cm 4096 0x100000 = Ok (built_leaf crc 4096 0x100000 ?kvs)"
    by (rule test_leaf [OF fit, of crc]) (simp add: disk_key_less_iff)
  have data: "tb_leaf_item_data (built_leaf crc 4096 0x100000 ?kvs) (tail_items 4096 ?kvs ! 1) = Ok [0x42, 0x42]"
    using built_leaf_data [OF fit, of 1 crc "0x100000"] by simp
  show "find_exact_in_single_leaf crc = Ok ()"
    using fit vol data descend_to_built_leaf [OF vol(2)]
    by (simp add: find_exact_in_single_leaf_def build_leaf_eq find_exact_def test_search unwrap_some_def)
next
  let ?kvs = "[(DiskKey 1 1 0, [0x58])] :: kv list"
  have fit: "kv_size ?kvs \<le> 4096" by (simp add: kv_size_def)
  obtain cm device where vol: "synth_volume 4096 (tb_body (built_leaf crc 4096 0x100000 ?kvs)) 0x100000 = Ok (cm, device)"
    "read_tree_block (test_reader crc device) cm 4096 0x100000 = Ok (built_leaf crc 4096 0x100000 ?kvs)"
    by (rule test_leaf [OF fit, of crc]) simp
  show "find_exact_returns_none_for_absent_key crc = Ok ()"
    using fit vol descend_to_built_leaf [OF vol(2)]
    by (simp add: find_exact_returns_none_for_absent_key_def build_leaf_eq find_exact_def test_search)
next
  let ?kvs = "[(DiskKey 1 1 0, [0x61]), (DiskKey 5 1 0, [0x62]), (DiskKey 9 1 0, [0x63])] :: kv list"
  have fit: "kv_size ?kvs \<le> 4096" by (simp add: kv_size_def)
  obtain cm device where vol: "synth_volume 4096 (tb_body (built_leaf crc 4096 0x100000 ?kvs)) 0x100000 = Ok (cm, device)"
    "read_tree_block (test_reader crc device) cm 4096 0x100000 = Ok (built_leaf crc 4096 0x100000 ?kvs)"
    by (rule test_leaf [OF fit, of crc]) (simp add: disk_key_less_iff)
  show "find_first_ge_matches_target_or_above crc = Ok ()"
    using fit vol descend_to_built_leaf [OF vol(2)]
    by (simp add: find_first_ge_matches_target_or_above_def build_leaf_eq find_first_ge_def test_search unwrap_some_def)
qed

text \<open>One interior level of a descent through built blocks.\<close>

lemma descend_loop_built_node:
  assumes "0 < level" and "ptrs \<noteq> []" and "length ptrs < 2 ^ 32" and "\<not> MAX_TREE_DEPTH < saturating_add depth 1"
  shows "descend_loop P cm ns t (built_node crc n a level ptrs) nk depth =
    obind (binary_search_interior (built_node crc n a level ptrs) t) (\<lambda>c.
    obind (next_sep (built_node crc n a level ptrs) c nk) (\<lambda>nk.
    obind (tb_key_ptr (built_node crc n a level ptrs) c) (\<lambda>kp.
    obind (read_tree_block P cm ns (kp_blockptr kp)) (\<lambda>b.
    descend_loop P cm ns t b nk (saturating_add depth 1)))))"
  using assms
  by (subst descend_loop.simps) (simp add: next_sep_def built_node_nritems del: built_node_header, simp)

lemmas test_descent = descend_to_leaf_def descend_loop_0 descend_loop_built_node next_sep_def saturating_add_def
  MAX_TREE_DEPTH_def test_search test_key_def

text \<open>A root over two leaves.\<close>

lemma test_root:
  fixes k1 k2 :: disk_key
  defines "root \<equiv> [(k1, 0x101000), (k2, 0x102000)]"
  assumes ord: "k1 < k2" and a: "kv_size kvs \<le> 4096" "sorted_wrt (<) (map fst kvs)"
    and b: "kv_size kvs' \<le> 4096" "sorted_wrt (<) (map fst kvs')"
  obtains cm device where "synth_tree 0x100000 [tb_body (built_node crc 4096 0x100000 1 root),
      tb_body (built_leaf crc 4096 0x101000 kvs), tb_body (built_leaf crc 4096 0x102000 kvs')] = Ok (cm, device)"
    "read_tree_block (test_reader crc device) cm 4096 0x100000 = Ok (built_node crc 4096 0x100000 1 root)"
    "read_tree_block (test_reader crc device) cm 4096 0x101000 = Ok (built_leaf crc 4096 0x101000 kvs)"
    "read_tree_block (test_reader crc device) cm 4096 0x102000 = Ok (built_leaf crc 4096 0x102000 kvs')"
proof -
  let ?bs = "[built_node crc 4096 0x100000 1 root, built_leaf crc 4096 0x101000 kvs, built_leaf crc 4096 0x102000 kvs']"
  have at: "block_addr 4096 0x100000 0 = 0x100000" "block_addr 4096 0x100000 1 = 0x101000"
    "block_addr 4096 0x100000 2 = 0x102000"
    by (simp_all add: block_addr_def)
  have "block_good crc 4096 0x100000 (?bs ! 0)"
    using built_node_good [of root 4096 1 crc "0x100000"] ord by (simp add: root_def node_size_def)
  moreover have "block_good crc 4096 0x101000 (?bs ! 1)" "block_good crc 4096 0x102000 (?bs ! 2)"
    using built_leaf_good [of kvs 4096 crc "0x101000"] built_leaf_good [of kvs' 4096 crc "0x102000"] a b by simp_all
  moreover have "j = 0 \<or> j = 1 \<or> j = 2" if "j < length ?bs" for j using that by auto
  ultimately have "\<forall>j < length ?bs. block_good crc 4096 (block_addr 4096 0x100000 j) (?bs ! j)" using at by metis
  then obtain cm device where vol: "synth_tree 0x100000 (map tb_body ?bs) = Ok (cm, device)"
    and read: "\<And>j. j < length ?bs \<Longrightarrow>
      read_tree_block (test_reader crc device) cm 4096 (block_addr 4096 0x100000 j) = Ok (?bs ! j)"
    by (rule test_tree) simp_all
  show ?thesis
    using vol read [of 0] read [of 1] read [of 2] at by (intro that [of cm device]) simp_all
qed

lemma separator_test_passes: "find_first_ge_refuses_a_separator_that_lies crc = Ok ()"
proof -
  obtain cm device where vol:
    "synth_tree 0x100000 [tb_body (built_node crc 4096 0x100000 1 [(test_key 1, 0x101000), (test_key 5, 0x102000)]),
      tb_body (built_leaf crc 4096 0x101000 [(test_key 1, [0x31])]),
      tb_body (built_leaf crc 4096 0x102000 [(test_key 2, [0x32])])] = Ok (cm, device)"
    "read_tree_block (test_reader crc device) cm 4096 0x100000 =
      Ok (built_node crc 4096 0x100000 1 [(test_key 1, 0x101000), (test_key 5, 0x102000)])"
    "read_tree_block (test_reader crc device) cm 4096 0x101000 = Ok (built_leaf crc 4096 0x101000 [(test_key 1, [0x31])])"
    "read_tree_block (test_reader crc device) cm 4096 0x102000 = Ok (built_leaf crc 4096 0x102000 [(test_key 2, [0x32])])"
    by (rule test_root [of "test_key 1" "test_key 5" "[(test_key 1, [0x31])]" "[(test_key 2, [0x32])]" crc])
      (simp_all add: kv_size_def test_key_def disk_key_less_iff)
  then show ?thesis
    by (simp add: find_first_ge_refuses_a_separator_that_lies_def build_leaf_eq build_node_eq kv_size_def node_size_def
        find_first_ge_def test_descent corrupt_token_def)
qed

lemma two_leaf_test_passes: "find_first_ge_moves_to_the_next_leaf crc = Ok ()"
proof -
  let ?a = "[(test_key 1, [0x31]), (test_key 2, [0x32])] :: kv list"
  let ?b = "[(test_key 5, [0x35]), (test_key 6, [0x36])] :: kv list"
  obtain cm device where vol:
    "synth_tree 0x100000 [tb_body (built_node crc 4096 0x100000 1 [(test_key 1, 0x101000), (test_key 5, 0x102000)]),
      tb_body (built_leaf crc 4096 0x101000 ?a), tb_body (built_leaf crc 4096 0x102000 ?b)] = Ok (cm, device)"
    "read_tree_block (test_reader crc device) cm 4096 0x100000 =
      Ok (built_node crc 4096 0x100000 1 [(test_key 1, 0x101000), (test_key 5, 0x102000)])"
    "read_tree_block (test_reader crc device) cm 4096 0x101000 = Ok (built_leaf crc 4096 0x101000 ?a)"
    "read_tree_block (test_reader crc device) cm 4096 0x102000 = Ok (built_leaf crc 4096 0x102000 ?b)"
    by (rule test_root [of "test_key 1" "test_key 5" ?a ?b crc])
      (simp_all add: kv_size_def test_key_def disk_key_less_iff)
  then show ?thesis
    by (simp add: find_first_ge_moves_to_the_next_leaf_def two_leaf_tree_def build_leaf_eq build_node_eq kv_size_def
        node_size_def find_first_ge_def find_exact_def test_descent unwrap_some_def)
qed

lemma three_level_test_passes: "find_first_ge_takes_the_separator_from_a_higher_level crc = Ok ()"
proof -
  let ?p0 = "[(test_key 1, 0x101000), (test_key 10, 0x102000)] :: (disk_key \<times> u64) list"
  let ?p1 = "[(test_key 1, 0x103000), (test_key 5, 0x104000)] :: (disk_key \<times> u64) list"
  let ?p2 = "[(test_key 10, 0x105000)] :: (disk_key \<times> u64) list"
  let ?k3 = "[(test_key 1, [0x31])] :: kv list" and ?k4 = "[(test_key 5, [0x35]), (test_key 6, [0x36])] :: kv list"
  let ?k5 = "[(test_key 10, [0x31, 0x30])] :: kv list"
  let ?bs = "[built_node crc 4096 0x100000 2 ?p0, built_node crc 4096 0x101000 1 ?p1, built_node crc 4096 0x102000 1 ?p2,
    built_leaf crc 4096 0x103000 ?k3, built_leaf crc 4096 0x104000 ?k4, built_leaf crc 4096 0x105000 ?k5]"
  have at: "block_addr 4096 0x100000 0 = 0x100000" "block_addr 4096 0x100000 1 = 0x101000"
    "block_addr 4096 0x100000 2 = 0x102000" "block_addr 4096 0x100000 3 = 0x103000"
    "block_addr 4096 0x100000 4 = 0x104000" "block_addr 4096 0x100000 5 = 0x105000"
    by (simp_all add: block_addr_def)
  note test = kv_size_def node_size_def test_key_def disk_key_less_iff
  have "block_good crc 4096 (block_addr 4096 0x100000 0) (?bs ! 0)"
    using built_node_good [of ?p0 4096 2 crc "0x100000"] at by (simp add: test)
  moreover have "block_good crc 4096 (block_addr 4096 0x100000 1) (?bs ! 1)"
    using built_node_good [of ?p1 4096 1 crc "0x101000"] at by (simp add: test)
  moreover have "block_good crc 4096 (block_addr 4096 0x100000 2) (?bs ! 2)"
    using built_node_good [of ?p2 4096 1 crc "0x102000"] at by (simp add: test)
  moreover have "block_good crc 4096 (block_addr 4096 0x100000 3) (?bs ! 3)"
    using built_leaf_good [of ?k3 4096 crc "0x103000"] at by (simp add: test)
  moreover have "block_good crc 4096 (block_addr 4096 0x100000 4) (?bs ! 4)"
    using built_leaf_good [of ?k4 4096 crc "0x104000"] at by (simp add: test)
  moreover have "block_good crc 4096 (block_addr 4096 0x100000 5) (?bs ! 5)"
    using built_leaf_good [of ?k5 4096 crc "0x105000"] at by (simp add: test)
  moreover have "j = 0 \<or> j = 1 \<or> j = 2 \<or> j = 3 \<or> j = 4 \<or> j = 5" if "j < length ?bs" for j using that by auto
  ultimately have "\<forall>j < length ?bs. block_good crc 4096 (block_addr 4096 0x100000 j) (?bs ! j)" by metis
  then obtain cm device where vol: "synth_tree 0x100000 (map tb_body ?bs) = Ok (cm, device)"
    and read: "\<And>j. j < length ?bs \<Longrightarrow>
      read_tree_block (test_reader crc device) cm 4096 (block_addr 4096 0x100000 j) = Ok (?bs ! j)"
    by (rule test_tree) simp_all
  show ?thesis
    using vol read [of 0] read [of 1] read [of 2] read [of 3] read [of 4] read [of 5] at
    by (simp add: find_first_ge_takes_the_separator_from_a_higher_level_def build_leaf_eq build_node_eq kv_size_def
        node_size_def find_first_ge_def test_descent unwrap_some_def)
qed

section \<open>Blocks that are refused\<close>

lemma refused_tests_pass:
  "binary_search_leaf_detects_disordered_adjacent_keys crc = Ok ()"
  "(\<And>data i b. i < length data \<Longrightarrow> b \<noteq> data ! i \<Longrightarrow> crc (data[i := b]) \<noteq> crc data) \<Longrightarrow> rejects_corrupted_csum crc = Ok ()"
proof -
  let ?kvs = "[(DiskKey 99 1 0, [0x58]), (DiskKey 1 1 0, [0x59])] :: kv list"
  have fit: "kv_size ?kvs \<le> unat (4096 :: u32)" "unat (0x100000 :: u64) + unat (4096 :: u32) \<le> isize_max"
    by (simp_all add: kv_size_def isize_max_def)
  note read = built_leaf_verdict [OF fit, of crc "\<lambda>_. True"]
  have "synth_volume 4096 (tb_body (built_leaf crc 4096 0x100000 ?kvs)) 0x100000 =
      Ok (volume_map 0x100000 4096, replicate (unat (0x100000 :: u64)) 0 @ tb_body (built_leaf crc 4096 0x100000 ?kvs))"
    using build_leaf_volume [OF fit, of crc] fit by (simp add: build_leaf_eq)
  then show "binary_search_leaf_detects_disordered_adjacent_keys crc = Ok ()"
    using fit read
    by (simp add: binary_search_leaf_detects_disordered_adjacent_keys_def build_leaf_eq find_exact_def descend_to_leaf_def
        test_reader_def corrupt_token_def disk_key_less_iff)
next
  assume detects: "\<And>data i b. i < length data \<Longrightarrow> b \<noteq> data ! i \<Longrightarrow> crc (data[i := b]) \<noteq> crc data"
  let ?kvs = "[(DiskKey 1 1 0, [0x58])] :: kv list"
  let ?leaf = "tb_body (built_leaf crc 4096 0x100000 ?kvs)"
  let ?changed = "?leaf[200 := ?leaf ! 200 XOR 0xFF]"
  have fit: "kv_size ?kvs \<le> unat (4096 :: u32)" "unat (0x100000 :: u64) + unat (4096 :: u32) \<le> isize_max"
    by (simp_all add: kv_size_def isize_max_def)
  have len: "length ?leaf = 4096" using built_leaf_length [OF fit(1), of crc "0x100000"] by simp
  have flip: "w XOR 0xFF \<noteq> w" for w :: u8
  proof
    assume "w XOR 0xFF = w"
    then have "bit (w XOR 0xFF) 0 = bit w 0" by simp
    then show False by (simp add: bit_xor_iff)
  qed
  have "drop 32 ?changed = (drop 32 ?leaf)[168 := ?leaf ! 200 XOR 0xFF]" by (simp add: drop_update_swap)
  then have "crc (drop 32 ?changed) \<noteq> crc (drop 32 ?leaf)"
    using detects [of 168 "drop 32 ?leaf" "?leaf ! 200 XOR 0xFF"] len flip by simp
  then have "read_tree_block (slice_platform (replicate (unat (0x100000 :: u64)) 0 @ ?changed) crc (\<lambda>_. True))
      (volume_map 0x100000 4096) 4096 0x100000 = Err (CsumMismatch 0x100000)"
    using changed_leaf_verdict [OF fit, of 200 crc "?leaf ! 200 XOR 0xFF" "\<lambda>_. True"] by simp
  moreover have "synth_volume 4096 ?changed 0x100000 =
      Ok (volume_map 0x100000 4096, replicate (unat (0x100000 :: u64)) 0 @ ?changed)"
    using synth_volume_eq [of ?changed 4096 "0x100000"] len fit by simp
  ultimately show "rejects_corrupted_csum crc = Ok ()"
    using fit len
    by (simp add: rejects_corrupted_csum_def build_leaf_eq find_exact_def descend_to_leaf_def test_reader_def
        read_le_u8_def write_byte_def)
qed

end
