(* ===== verification/Lzo_Builder.thy ===== *)
theory Lzo_Builder
  imports Compression Buffers
begin

text \<open>
  The extent builder in the tests of \<^verbatim>\<open>compression/lzo.rs\<close>, and its agreement with the layout on which the
  round trip of the decoder is stated.
\<close>

definition SECTOR :: nat where
  "SECTOR = 4096"

text \<open>An LZO1X stream of \<open>n\<close> literal bytes and the end-of-stream match.\<close>

definition literals :: "nat \<Rightarrow> u8 \<Rightarrow> u8 list outcome" where
  "literals n fill =
     obind (if n \<le> 238 then Ok [word_of_nat (n + 17)] else Ok [0, word_of_nat (n - 18)]) (\<lambda>s.
     obind (if length s + n > isize_max then Panic else Ok (s @ replicate n fill)) (\<lambda>s.
     Ok (s @ [0x11, 0, 0])))"

primrec extent_segments :: "u8 list list \<Rightarrow> u8 list \<Rightarrow> u8 list outcome" where
  "extent_segments [] out = Ok out"
| "extent_segments (seg # segs) out =
     (let left = SECTOR - length out mod SECTOR in
      obind (if left < SEGMENT_HEADER then vec_resize out (length out + left) else Ok out) (\<lambda>out.
      extent_segments segs (out @ le_bytes (word_of_nat (length seg) :: u32) @ seg)))"

definition lzo_test_extent :: "u8 list list \<Rightarrow> u8 list outcome" where
  "lzo_test_extent segments =
     obind (extent_segments segments (replicate 4 0)) (\<lambda>out.
     write_slice out 0 4 (le_bytes (word_of_nat (length out) :: u32)))"

lemma length_literals: "n \<le> 1000 \<Longrightarrow> literals n fill = Ok s \<Longrightarrow> length s = (if n \<le> 238 then n + 4 else n + 5)"
  by (auto simp: literals_def isize_max_def split: if_splits)

lemma extent_segments_layout:
  "length out + length (lzo_layout SECTOR (length out) segs) \<le> isize_max \<Longrightarrow>
   extent_segments segs out = Ok (out @ lzo_layout SECTOR (length out) segs)"
proof (induction segs arbitrary: out)
  case (Cons seg segs)
  let ?left = "SECTOR - length out mod SECTOR"
  define pad where "pad = (if ?left < SEGMENT_HEADER then ?left else 0)"
  let ?out = "out @ replicate pad 0 @ le_bytes (word_of_nat (length seg) :: u32) @ seg"
  have lay: "lzo_layout SECTOR (length out) (seg # segs) =
      replicate pad 0 @ le_bytes (word_of_nat (length seg) :: u32) @ seg @ lzo_layout SECTOR (length ?out) segs"
    by (simp add: pad_def Let_def SEGMENT_HEADER_def add.assoc)
  have "(if ?left < SEGMENT_HEADER then vec_resize out (length out + ?left) else Ok out) = Ok (out @ replicate pad 0)"
    using Cons.prems lay by (auto simp: pad_def vec_resize_safe)
  moreover have "extent_segments segs ?out = Ok (?out @ lzo_layout SECTOR (length ?out) segs)"
    using Cons.prems unfolding lay by (intro Cons.IH) simp
  ultimately show ?case unfolding lay by (simp add: Let_def)
qed simp

lemma lzo_test_extent_eq:
  assumes "length (lzo_extent SECTOR segs) \<le> isize_max"
  shows "lzo_test_extent segs = Ok (lzo_extent SECTOR segs)"
proof -
  have "extent_segments segs (replicate 4 0) = Ok (replicate 4 0 @ lzo_layout SECTOR 4 segs)"
    using extent_segments_layout [of "replicate 4 0" segs] assms by (simp add: lzo_extent_def Let_def)
  then show ?thesis by (simp add: lzo_test_extent_def write_slice_def lzo_extent_def Let_def)
qed

end
