(* ===== verification/Zstd_Frames.thy ===== *)
theory Zstd_Frames
  imports Compression
begin

text \<open>
  Extents of several zstd frames (\<^verbatim>\<open>src/compression/zstd.rs\<close>): the loop over the frames decodes each of them
  and stops at the alignment padding that follows the last one.
\<close>

section \<open>Frames\<close>

text \<open>
  A decoder delivers \<open>plain\<close> for an input when its reads, each of at most the 4096 bytes of the buffer, are
  the pieces of \<open>plain\<close> followed by an empty read.
\<close>

definition delivers :: "codecs \<Rightarrow> u8 list \<Rightarrow> u8 list \<Rightarrow> bool" where
  "delivers C input plain \<longleftrightarrow>
     (\<exists>pieces. plain = concat pieces \<and> (\<forall>bs \<in> set pieces. bs \<noteq> [] \<and> length bs \<le> 4096) \<and>
        (\<forall>k < length pieces. cd_zstd_read C input k = Some (pieces ! k)) \<and>
        cd_zstd_read C input (length pieces) = Some [])"

text \<open>
  A frame of the decoder: it begins with the magic number, and whatever follows it in the extent, the
  decoder accepts it, delivers its plaintext and consumes exactly its bytes.
\<close>

definition zstd_frame :: "codecs \<Rightarrow> u8 list \<times> u8 list \<Rightarrow> bool" where
  "zstd_frame C fp \<longleftrightarrow> (\<exists>payload. fst fp = le_bytes ZSTD_FRAME_MAGIC @ payload \<and>
     (\<forall>rest. cd_zstd_new C (fst fp @ rest) \<and> cd_zstd_consumed C (fst fp @ rest) = length payload \<and>
        delivers C (fst fp @ rest) (snd fp)))"

text \<open>Padding: too short for a magic number, or not beginning with one.\<close>

definition zstd_padding :: "u8 list \<Rightarrow> bool" where
  "zstd_padding bs \<longleftrightarrow> length bs < 4 \<or> from_le_bytes (take 4 bs) \<noteq> ZSTD_FRAME_MAGIC"

section \<open>The read loop\<close>

lemma zstd_read_loop_pieces:
  assumes "\<forall>bs \<in> set pieces. bs \<noteq> [] \<and> length bs \<le> 4096"
    and "\<forall>i < length pieces. cd_zstd_read C input (k + i) = Some (pieces ! i)"
    and "cd_zstd_read C input (k + length pieces) = Some []"
    and "length dst + length (concat pieces) \<le> MAX_DECOMPRESSED_EXTENT_BYTES"
  shows "zstd_read_loop C input k dst = Ok (dst @ concat pieces)"
  using assms
proof (induction pieces arbitrary: k dst)
  case Nil
  then show ?case by (subst zstd_read_loop.simps) simp
next
  case (Cons bs pieces)
  have first: "cd_zstd_read C input k = Some bs" using Cons.prems(2) by force
  have "zstd_read_loop C input k dst = zstd_read_loop C input (k + 1) (dst @ bs)"
    using Cons.prems(1,4) first by (subst zstd_read_loop.simps) simp
  also have "\<dots> = Ok ((dst @ bs) @ concat pieces)"
  proof (rule Cons.IH)
    show "\<forall>i < length pieces. cd_zstd_read C input (k + 1 + i) = Some (pieces ! i)"
      using Cons.prems(2) by (metis Suc_less_eq add_Suc_right add_Suc_shift length_Cons nth_Cons_Suc plus_1_eq_Suc
          add.commute)
  qed (use Cons.prems in simp_all)
  finally show ?case by simp
qed

lemma zstd_read_loop_delivers:
  assumes "delivers C input plain" and "length dst + length plain \<le> MAX_DECOMPRESSED_EXTENT_BYTES"
  shows "zstd_read_loop C input 0 dst = Ok (dst @ plain)"
  using assms zstd_read_loop_pieces [of _ C input 0 dst] by (auto simp: delivers_def)

lemma zstd_decode_padding: "zstd_padding bs \<Longrightarrow> zstd_decode C bs dst = Ok dst"
  by (subst zstd_decode.simps) (auto simp: zstd_padding_def read_le_defs le_field_def)

lemma zstd_decode_frame:
  assumes "zstd_frame C fp" and "length dst + length (snd fp) \<le> MAX_DECOMPRESSED_EXTENT_BYTES"
  shows "zstd_decode C (fst fp @ rest) dst = zstd_decode C rest (dst @ snd fp)"
proof -
  from assms(1) obtain payload where f: "fst fp = le_bytes ZSTD_FRAME_MAGIC @ payload"
    and d: "cd_zstd_new C (fst fp @ rest)" "cd_zstd_consumed C (fst fp @ rest) = length payload"
      "delivers C (fst fp @ rest) (snd fp)" by (auto simp: zstd_frame_def)
  have "read_le_u32 (fst fp @ rest) 0 = Ok ZSTD_FRAME_MAGIC"
    using read_le_encoded(2) [of "[]" 0 ZSTD_FRAME_MAGIC "payload @ rest"] by (simp add: f)
  moreover have "drop (4 + length payload) (fst fp @ rest) = rest" by (simp add: f)
  moreover have "\<not> length (fst fp @ rest) < 4" by (simp add: f)
  ultimately show ?thesis
    using d zstd_read_loop_delivers [OF d(3) assms(2)] by (subst zstd_decode.simps) simp
qed

lemma zstd_decode_frames:
  assumes "\<forall>fp \<in> set frames. zstd_frame C fp" and "zstd_padding tail"
    and "length dst + length (concat (map snd frames)) \<le> MAX_DECOMPRESSED_EXTENT_BYTES"
  shows "zstd_decode C (concat (map fst frames) @ tail) dst = Ok (dst @ concat (map snd frames))"
  using assms(1,3)
  by (induction frames arbitrary: dst) (simp_all add: zstd_decode_padding [OF assms(2)] zstd_decode_frame)

section \<open>Property\<close>

text \<open>
  C25. The zstd framing round trip: an extent of any number of frames back to back, followed by the padding
  of the last sector, decodes to the concatenation of the frames' plaintexts, in however many pieces the
  decoder delivers them, and the padding is not taken for a damaged frame.
\<close>

theorem zstd_frames_roundtrip:
  assumes "cd_has_zstd C" and "\<forall>fp \<in> set frames. zstd_frame C fp" and "zstd_padding tail"
    and "length (concat (map snd frames)) \<le> MAX_DECOMPRESSED_EXTENT_BYTES"
  shows "decode C COMPRESS_ZSTD (concat (map fst frames) @ tail) [] sectorsize = Ok (concat (map snd frames))"
  using zstd_decode_frames [OF assms(2,3), of "[]"] assms(1,4)
  by (simp add: decode_def decode_zstd_def format_consts)

text \<open>A decoder of stored frames: the magic number, one length byte and that many plain bytes.\<close>

definition framed_codecs :: codecs where
  "framed_codecs = stored_codecs\<lparr>cd_has_zstd := True, cd_zstd_new := (\<lambda>input. 4 < length input),
     cd_zstd_read := (\<lambda>input k. Some (if k = 0 then take (unat (input ! 4)) (drop 5 input) else [])),
     cd_zstd_consumed := (\<lambda>input. 1 + unat (input ! 4))\<rparr>"

lemma framed_frame:
  assumes "plain \<noteq> []" and "length plain < 256"
  shows "zstd_frame framed_codecs (le_bytes ZSTD_FRAME_MAGIC @ word_of_nat (length plain) # plain, plain)"
proof -
  have n: "unat (word_of_nat (length plain) :: u8) = length plain"
    using assms(2) by (intro unat_word_of_nat_small) simp
  have "delivers framed_codecs (le_bytes ZSTD_FRAME_MAGIC @ word_of_nat (length plain) # plain @ rest) plain" for rest
    unfolding delivers_def
    by (rule exI [of _ "[plain]"]) (use assms n in \<open>simp add: framed_codecs_def nth_append\<close>)
  then show ?thesis using n by (simp add: zstd_frame_def framed_codecs_def nth_append)
qed

theorem zstd_frames_roundtrip_witness:
  "decode framed_codecs COMPRESS_ZSTD
     (le_bytes ZSTD_FRAME_MAGIC @ [2, 7, 8] @ le_bytes ZSTD_FRAME_MAGIC @ [1, 9] @ [0, 0, 0, 0, 0]) [] 4096 =
   Ok [7, 8, 9]"
proof -
  let ?f = "\<lambda>plain :: u8 list. (le_bytes ZSTD_FRAME_MAGIC @ word_of_nat (length plain) # plain, plain)"
  have "\<forall>fp \<in> set [?f [7, 8], ?f [9]]. zstd_frame framed_codecs fp"
    using framed_frame [of "[7, 8]"] framed_frame [of "[9]"] by simp
  moreover have "zstd_padding [0, 0, 0, 0, 0]"
    by (simp add: zstd_padding_def from_le_bytes_def ZSTD_FRAME_MAGIC_def)
  ultimately show ?thesis
    using zstd_frames_roundtrip [of framed_codecs "[?f [7, 8], ?f [9]]" "[0, 0, 0, 0, 0]" 4096]
    by (simp add: framed_codecs_def format_consts)
qed

end
