(* ===== verification/Compression_Tests.thy ===== *)
theory Compression_Tests
  imports Lzo_Builder Zstd_Frames Unit_Tests
begin

text \<open>
  The unit tests of \<^verbatim>\<open>src/compression/lzo.rs\<close> and \<^verbatim>\<open>src/compression/zstd.rs\<close>. The decoders are parameters; the
  tests that decode segments need one thing of \<^verbatim>\<open>lzokay\<close>, that it decodes an LZO1X stream of one run of
  literals, which is how the tests write their segments, and refuses it when the run exceeds the buffer.
\<close>

section \<open>Streams of literals\<close>

text \<open>
  The format: a first byte above 17 stands for a run of that many literals less 17; for a longer run, an opcode
  of zero is followed by zero bytes worth 255 each and a last byte. The three bytes at the end end the stream.
\<close>

definition literal_header :: "nat \<Rightarrow> u8 list" where
  "literal_header n =
     (if n \<le> 238 then [word_of_nat (n + 17)]
      else 0 # replicate ((n - 19) div 255) 0 @ [word_of_nat ((n - 19) mod 255 + 1)])"

definition literal_stream :: "u8 list \<Rightarrow> u8 list" where
  "literal_stream plain = literal_header (length plain) @ plain @ [0x11, 0, 0]"

definition decodes_literals :: "codecs \<Rightarrow> bool" where
  "decodes_literals C \<longleftrightarrow> (\<forall>plain scratch. 4 \<le> length plain \<longrightarrow>
     cd_lzokay C (literal_stream plain) scratch =
       (if length plain \<le> length scratch then Some (length plain, plain @ drop (length plain) scratch) else None))"

section \<open>The tests of LZO\<close>

text \<open>\<^verbatim>\<open>Vec::resize\<close> with a fill byte.\<close>

definition vec_resize_fill :: "u8 list \<Rightarrow> nat \<Rightarrow> u8 \<Rightarrow> u8 list outcome" where
  "vec_resize_fill v new_len fill =
     (if new_len > isize_max then Panic else Ok (take new_len v @ replicate (new_len - length v) fill))"

primrec is_err :: "'a outcome \<Rightarrow> bool" where
  "is_err (Ok x) = False"
| "is_err (Err e) = True"
| "is_err Panic = False"

definition header_with_a_zero_low_byte_at_an_unaligned_offset :: "codecs \<Rightarrow> unit outcome" where
  "header_with_a_zero_low_byte_at_an_unaligned_offset C =
     obind (literals 5 0x61) (\<lambda>first.
     obind (literals 251 0x62) (\<lambda>second.
     obind (asserts [length second = 256]) (\<lambda>_.
     obind (lzo_test_extent [first, second]) (\<lambda>src.
     obind (unwrap (lzo_decode C src [] SECTOR)) (\<lambda>dst.
     obind (asserts [length dst = 256]) (\<lambda>_.
     obind (slice dst 0 5) (\<lambda>front.
     obind (asserts [list_all (\<lambda>b. b = 0x61) front]) (\<lambda>_.
     obind (slice dst 5 (length dst)) (\<lambda>back.
     asserts [list_all (\<lambda>b. b = 0x62) back])))))))))"

definition header_moves_to_the_next_sector_when_three_bytes_are_left :: "codecs \<Rightarrow> unit outcome" where
  "header_moves_to_the_next_sector_when_three_bytes_are_left C =
     obind (literals 200 0x78) (\<lambda>seg.
     let segs = replicate 19 seg in
     obind (literals 129 0x79) (\<lambda>y.
     let segs = segs @ [y] in
     obind (literals 10 0x7A) (\<lambda>z.
     let segs = segs @ [z] in
     obind (lzo_test_extent segs) (\<lambda>src.
     obind (slice src 4093 4096) (\<lambda>pad.
     obind (asserts [pad = [0, 0, 0]]) (\<lambda>_.
     obind (unwrap (lzo_decode C src [] SECTOR)) (\<lambda>dst.
     obind (asserts [length dst = 19 * 200 + 129 + 10]) (\<lambda>_.
     if length dst < 10 then Panic
     else
     obind (slice dst (length dst - 10) (length dst)) (\<lambda>back.
     asserts [list_all (\<lambda>b. b = 0x7A) back])))))))))"

definition segment_plaintext_may_fill_a_larger_sector :: "codecs \<Rightarrow> unit outcome" where
  "segment_plaintext_may_fill_a_larger_sector C =
    (let big = 16384; seg = replicate 65 0; seg = seg @ [46] in
     obind (vec_resize_fill seg (length seg + big) 0x71) (\<lambda>seg.
     let seg = seg @ [0x11, 0, 0];
         src = replicate 4 0;
         src = src @ le_bytes (word_of_nat (length seg) :: u32);
         src = src @ seg;
         total = word_of_nat (length src) :: u32 in
     obind (write_slice src 0 4 (le_bytes total)) (\<lambda>src.
     obind (unwrap (lzo_decode C src [] big)) (\<lambda>dst.
     asserts [length dst = big, is_err (lzo_decode C src [] SECTOR)]))))"

definition rejects_short_input :: "codecs \<Rightarrow> unit outcome" where
  "rejects_short_input C =
     asserts [is_err (lzo_decode C [] [] SECTOR), is_err (lzo_decode C [0, 0, 0] [] SECTOR)]"

definition rejects_oversized_total :: "codecs \<Rightarrow> unit outcome" where
  "rejects_oversized_total C = (let buf = [0, 4, 0, 0] in asserts [is_err (lzo_decode C buf [] SECTOR)])"

definition rejects_truncated_sector :: "codecs \<Rightarrow> unit outcome" where
  "rejects_truncated_sector C =
    (let buf = [16, 0, 0, 0]; buf = buf @ le_bytes (1024 :: u32); buf = buf @ replicate 8 0 in
     asserts [is_err (lzo_decode C buf [] SECTOR)])"

section \<open>The tests of zstd\<close>

definition non_zstd_prefix_terminates_cleanly :: "codecs \<Rightarrow> unit outcome" where
  "non_zstd_prefix_terminates_cleanly C =
    (let result = zstd_decode C [0, 0, 0, 0] [] in asserts [is_ok result, result = Ok []])"

definition malformed_zstd_frame_returns_bad_compression :: "codecs \<Rightarrow> unit outcome" where
  "malformed_zstd_frame_returns_bad_compression C =
     obind (write_slice (replicate 64 0) 0 4 (le_bytes (0xFD2FB528 :: u32))) (\<lambda>bogus.
     let result = zstd_decode C bogus [] in
     asserts [result = Err (BadCompression ''comp_zstd'')])"

section \<open>They pass\<close>

lemma literals_stream: "n \<le> 273 \<Longrightarrow> literals n fill = Ok (literal_stream (replicate n fill))"
  by (auto simp: literals_def literal_stream_def literal_header_def isize_max_def)

lemma literal_stream_decodes:
  "decodes_literals C \<Longrightarrow> 4 \<le> length plain \<Longrightarrow> length plain \<le> ss \<Longrightarrow> decodes_to C ss (literal_stream plain, plain)"
  by (auto simp: decodes_to_def decodes_literals_def literal_stream_def)

lemma length_literal_stream:
  "length (literal_stream plain) =
     (if length plain \<le> 238 then length plain + 4 else length plain + 5 + (length plain - 19) div 255)"
  by (simp add: literal_stream_def literal_header_def)

lemma length_lzo_layout_le: "length (lzo_layout ss p segs) \<le> length (concat segs) + 7 * length segs"
proof (induction segs arbitrary: p)
  case (Cons seg segs)
  let ?pad = "if ss - p mod ss < SEGMENT_HEADER then ss - p mod ss else 0"
  have "?pad \<le> 3" by (simp add: SEGMENT_HEADER_def)
  with Cons.IH [of "p + ?pad + SEGMENT_HEADER + length seg"] show ?case by (simp add: Let_def)
qed simp

text \<open>Segments that end in the sector they start in follow each other without padding.\<close>

lemma lzo_layout_fits:
  "0 < ss \<Longrightarrow> p + length (concat segs) + 4 * length segs \<le> ss \<Longrightarrow>
   lzo_layout ss p (segs @ others) =
     concat (map (\<lambda>seg. le_bytes (word_of_nat (length seg) :: u32) @ seg) segs)
       @ lzo_layout ss (p + length (concat segs) + 4 * length segs) others"
proof (induction segs arbitrary: p)
  case (Cons seg segs)
  then have "p < ss" "\<not> ss - p mod ss < SEGMENT_HEADER" by (simp_all add: SEGMENT_HEADER_def)
  with Cons.IH [of "p + SEGMENT_HEADER + length seg"] Cons.prems show ?case
    by (simp add: Let_def SEGMENT_HEADER_def algebra_simps)
qed simp

lemma lzo_test_extent_decodes:
  assumes "decodes_literals C" and "\<forall>plain \<in> set plains. 4 \<le> length plain \<and> length plain \<le> SECTOR"
    and "length (concat (map literal_stream plains)) + 7 * length plains \<le> 0x100000" and "length plains \<le> 0x1000"
  shows "lzo_test_extent (map literal_stream plains) = Ok (lzo_extent SECTOR (map literal_stream plains))"
    and "lzo_decode C (lzo_extent SECTOR (map literal_stream plains)) [] SECTOR = Ok (concat plains)"
proof -
  let ?segs = "map (\<lambda>plain. (literal_stream plain, plain)) plains"
  have segs: "map fst ?segs = map literal_stream plains" "map snd ?segs = plains" by (simp_all add: comp_def)
  have len: "length (lzo_extent SECTOR (map literal_stream plains)) \<le> 0x100004"
    using length_lzo_layout_le [of SECTOR 4 "map literal_stream plains"] assms(3)
    by (simp add: lzo_extent_def Let_def)
  then show "lzo_test_extent (map literal_stream plains) = Ok (lzo_extent SECTOR (map literal_stream plains))"
    by (intro lzo_test_extent_eq) (simp add: isize_max_def)
  have "\<forall>sp \<in> set ?segs. decodes_to C SECTOR sp"
    using assms(1,2) by (auto intro: literal_stream_decodes)
  then show "lzo_decode C (lzo_extent SECTOR (map literal_stream plains)) [] SECTOR = Ok (concat plains)"
    using lzo_decode_extent [of SECTOR ?segs C "[]"] len assms(4) unfolding segs
    by (simp add: SECTOR_def MAX_DECOMPRESSED_EXTENT_BYTES_def)
qed

lemma lzo_refusal_tests_pass:
  "rejects_short_input C = Ok ()" "rejects_oversized_total C = Ok ()" "rejects_truncated_sector C = Ok ()"
proof -
  show "rejects_short_input C = Ok ()" by (simp add: rejects_short_input_def lzo_decode_def)
  have "read_le_u32 [0, 4, 0, 0] 0 = Ok 0x400"
    by (simp add: read_le_defs le_field_def from_le_bytes_def)
  then show "rejects_oversized_total C = Ok ()"
    by (simp add: rejects_oversized_total_def lzo_decode_def as_usize_def usize_max_def)
  let ?buf = "[16, 0, 0, 0] @ le_bytes (1024 :: u32) @ replicate 8 0 :: u8 list"
  have "read_le_u32 ?buf 0 = Ok 16" by (simp add: read_le_defs le_field_def from_le_bytes_def)
  moreover have "read_le_u32 ?buf 4 = Ok 1024"
    using read_le_encoded(2) [of "[16, 0, 0, 0]" 4 1024 "replicate 8 0"] by simp
  ultimately show "rejects_truncated_sector C = Ok ()"
    by (simp add: rejects_truncated_sector_def lzo_decode_def as_usize_def usize_max_def lzo_loop.simps SECTOR_def
        SEGMENT_HEADER_def usize_checked_add_def)
qed

lemma first_lzo_test_passes:
  assumes "decodes_literals C"
  shows "header_with_a_zero_low_byte_at_an_unaligned_offset C = Ok ()"
proof -
  let ?plains = "[replicate 5 0x61, replicate 251 0x62] :: u8 list list"
  have "lzo_test_extent (map literal_stream ?plains) = Ok (lzo_extent SECTOR (map literal_stream ?plains))"
    "lzo_decode C (lzo_extent SECTOR (map literal_stream ?plains)) [] SECTOR = Ok (concat ?plains)"
    using lzo_test_extent_decodes [OF assms, of ?plains] by (simp_all add: SECTOR_def length_literal_stream)
  then show ?thesis
    by (simp add: header_with_a_zero_low_byte_at_an_unaligned_offset_def literals_stream length_literal_stream slice_def
        list_all_iff)
qed

lemma second_lzo_test_passes:
  assumes "decodes_literals C"
  shows "header_moves_to_the_next_sector_when_three_bytes_are_left C = Ok ()"
proof -
  let ?front = "replicate 19 (replicate 200 0x78) @ [replicate 129 0x79] :: u8 list list" and ?z = "replicate 10 0x7A :: u8 list"
  let ?segs = "map literal_stream (?front @ [?z])"
  let ?flat = "concat (map (\<lambda>seg. le_bytes (word_of_nat (length seg) :: u32) @ seg) (map literal_stream ?front))"
  have ext: "lzo_test_extent ?segs = Ok (lzo_extent SECTOR ?segs)"
    and dec: "lzo_decode C (lzo_extent SECTOR ?segs) [] SECTOR = Ok (concat (?front @ [?z]))"
    using lzo_test_extent_decodes [OF assms, of "?front @ [?z]"]
    by (simp_all add: SECTOR_def length_literal_stream length_concat sum_list_replicate)
  have "lzo_layout SECTOR 4 ?segs = ?flat @ lzo_layout SECTOR 4093 [literal_stream ?z]"
    using lzo_layout_fits [of SECTOR 4 "map literal_stream ?front" "[literal_stream ?z]"]
    by (simp add: SECTOR_def length_literal_stream length_concat sum_list_replicate)
  moreover have "lzo_layout SECTOR 4093 [literal_stream ?z] =
      replicate 3 0 @ le_bytes (word_of_nat (length (literal_stream ?z)) :: u32) @ literal_stream ?z"
    by (simp add: SECTOR_def SEGMENT_HEADER_def)
  moreover have "length ?flat = 4089"
    by (simp add: length_literal_stream length_concat sum_list_replicate)
  moreover have "replicate 3 (0 :: u8) = [0, 0, 0]" by (simp add: numeral_3_eq_3)
  ultimately have "slice (lzo_extent SECTOR ?segs) 4093 4096 = Ok [0, 0, 0]"
    by (simp add: lzo_extent_def Let_def slice_def)
  then show ?thesis
    using ext dec
    by (simp add: header_moves_to_the_next_sector_when_three_bytes_are_left_def literals_stream
        slice_def length_concat sum_list_replicate list_all_iff)
qed

lemma third_lzo_test_passes:
  assumes "decodes_literals C"
  shows "segment_plaintext_may_fill_a_larger_sector C = Ok ()"
proof -
  let ?plain = "replicate 16384 0x71 :: u8 list"
  let ?seg = "literal_stream ?plain" and ?tot = "16461 :: u32" and ?n = "16453 :: u32"
  let ?src = "le_bytes ?tot @ le_bytes ?n @ ?seg"
  have "replicate 65 (0 :: u8) = 0 # replicate 64 0" using replicate_Suc [of 64 "0 :: u8"] by (simp del: replicate_Suc)
  then have seg: "?seg = replicate 65 0 @ 46 # ?plain @ [0x11, 0, 0]"
    by (simp add: literal_stream_def literal_header_def)
  have len: "length ?seg = 16453" by (simp add: length_literal_stream)
  have src: "?src = lzo_extent 16384 [?seg]" by (simp add: lzo_extent_def SEGMENT_HEADER_def len)
  have big: "lzo_decode C ?src [] 16384 = Ok ?plain"
    using lzo_decode_extent [of 16384 "[(?seg, ?plain)]" C "[]"] literal_stream_decodes [OF assms, of ?plain 16384]
    by (simp add: src [symmetric] len MAX_DECOMPRESSED_EXTENT_BYTES_def)
  have "cd_lzokay C ?seg (replicate SECTOR 0) = None" using assms by (simp add: decodes_literals_def SECTOR_def)
  moreover have "read_le_u32 ?src 0 = Ok ?tot" "read_le_u32 ?src 4 = Ok ?n"
    using read_le_encoded(2) [of "[]" 0 ?tot "le_bytes ?n @ ?seg"] read_le_encoded(2) [of "le_bytes ?tot" 4 ?n ?seg] by simp_all
  moreover have "slice ?src 8 16461 = Ok ?seg" by (simp add: slice_def len)
  ultimately have small: "lzo_decode C ?src [] SECTOR = Err lzo_bad"
    by (simp add: lzo_decode_def lzo_loop.simps [of C _ _ _ 4] as_usize_def usize_max_def SECTOR_def SEGMENT_HEADER_def len
        usize_checked_add_def MAX_DECOMPRESSED_EXTENT_BYTES_def)
  show ?thesis
    using big small seg len
    by (simp add: segment_plaintext_may_fill_a_larger_sector_def vec_resize_fill_def isize_max_def write_slice_def)
qed

lemma zstd_tests_pass:
  "non_zstd_prefix_terminates_cleanly C = Ok ()"
  "\<not> cd_zstd_new C (le_bytes ZSTD_FRAME_MAGIC @ replicate 60 0) \<Longrightarrow> malformed_zstd_frame_returns_bad_compression C = Ok ()"
proof -
  have "zstd_padding [0, 0, 0, 0]" by (simp add: zstd_padding_def from_le_bytes_def ZSTD_FRAME_MAGIC_def)
  then show "non_zstd_prefix_terminates_cleanly C = Ok ()"
    by (simp add: non_zstd_prefix_terminates_cleanly_def zstd_decode_padding)
  assume "\<not> cd_zstd_new C (le_bytes ZSTD_FRAME_MAGIC @ replicate 60 0)"
  then show "malformed_zstd_frame_returns_bad_compression C = Ok ()"
    using read_le_encoded(2) [of "[]" 0 ZSTD_FRAME_MAGIC "replicate 60 0"]
    by (simp add: malformed_zstd_frame_returns_bad_compression_def write_slice_def zstd_decode.simps ZSTD_FRAME_MAGIC_def)
qed

section \<open>A decoder of literals\<close>

definition literal_run :: "u8 list \<Rightarrow> nat \<times> u8 list" where
  "literal_run src =
    (case src of
       [] \<Rightarrow> (0, [])
     | b # rest \<Rightarrow>
         if b \<noteq> 0 then (unat b - 17, rest)
         else let z = length (takeWhile (\<lambda>x. x = 0) rest) in
           case drop z rest of [] \<Rightarrow> (0, []) | r # plain \<Rightarrow> (18 + 255 * z + unat r, plain))"

definition literal_codecs :: codecs where
  "literal_codecs = stored_codecs\<lparr>cd_lzokay := (\<lambda>src scratch. case literal_run src of (n, rest) \<Rightarrow>
     if drop n rest = [0x11, 0, 0] \<and> n \<le> length scratch then Some (n, take n rest @ drop n scratch) else None)\<rparr>"

lemma literal_run_stream:
  assumes "4 \<le> length plain"
  shows "literal_run (literal_stream plain) = (length plain, plain @ [0x11, 0, 0])"
proof (cases "length plain \<le> 238")
  case True
  with assms have "unat (word_of_nat (length plain + 17) :: u8) = length plain + 17"
    by (intro unat_word_of_nat_small) simp
  moreover from this assms have "(word_of_nat (length plain + 17) :: u8) \<noteq> 0" by (metis add_is_0 unat_0 zero_neq_numeral)
  ultimately show ?thesis using True by (simp add: literal_run_def literal_stream_def literal_header_def)
next
  case False
  let ?z = "(length plain - 19) div 255" and ?r = "(length plain - 19) mod 255 + 1"
  have r: "unat (word_of_nat ?r :: u8) = ?r" by (intro unat_word_of_nat_small) (simp add: less_Suc_eq_le)
  then have "(word_of_nat ?r :: u8) \<noteq> 0" by (metis add_is_0 unat_0 zero_neq_one)
  then have "takeWhile (\<lambda>x. x = 0) (replicate ?z 0 @ word_of_nat ?r # plain @ [0x11, 0, 0]) = replicate ?z (0 :: u8)"
    by (subst takeWhile_append2) simp_all
  moreover have "18 + 255 * ?z + ?r = length plain" using False by presburger
  ultimately show ?thesis using False r by (simp add: literal_run_def literal_stream_def literal_header_def Let_def)
qed

lemma literal_codecs_decode: "decodes_literals literal_codecs"
  by (simp add: decodes_literals_def literal_codecs_def literal_run_stream)

lemma literal_codecs_zstd [simp]: "\<not> cd_zstd_new literal_codecs input"
  by (simp add: literal_codecs_def stored_codecs_def)

end
