(* ===== verification/Test_Suite.thy ===== *)
theory Test_Suite
  imports Superblock_Tests Btree_Tests Compression_Tests
begin

text \<open>
  The unit tests of the crate as a whole: those of the loader and the tree walker pass under any checksum
  function that notices a changed byte, the others under the algorithm the crate selects and any LZO decoder
  that expands runs of literals.
\<close>

text \<open>
  C26. The unit tests of the superblock loader and of the tree walker pass under every checksum function that
  tells apart two inputs that differ in one byte: each damaged superblock is refused for the reason its test
  names, the copies fall back and compete by generation, searches cross leaves and levels, and a disordered
  leaf, a lying separator and a flipped byte are refused.
\<close>

theorem metadata_tests_pass:
  assumes "\<And>i b data. i < length data \<Longrightarrow> b \<noteq> data ! i \<Longrightarrow> crc (data[i := b]) \<noteq> crc data"
  shows "list_all (\<lambda>test. test crc = Ok ())
      [loads_minimal_valid_sb_from_primary, rejects_bad_magic, rejects_bad_csum, rejects_unsupported_csum_type,
       rejects_zoned_incompat, rejects_unknown_incompat_bits, rejects_remap_tree_incompat,
       accepts_known_tolerated_incompat_bits, non_crc32c_superblock_reports_its_csum_type,
       damaged_csum_type_in_primary_falls_back_to_a_valid_copy, picks_highest_generation_among_valid_copies,
       find_exact_in_single_leaf, find_exact_returns_none_for_absent_key, find_first_ge_matches_target_or_above,
       find_first_ge_moves_to_the_next_leaf, find_first_ge_takes_the_separator_from_a_higher_level,
       find_first_ge_refuses_a_separator_that_lies, binary_search_leaf_detects_disordered_adjacent_keys,
       rejects_corrupted_csum]"
  using primary_tests_pass [of crc] rejects_bad_csum_passes [OF assms] two_copy_tests_pass [of crc]
    single_leaf_tests_pass [of crc] two_leaf_test_passes [of crc] three_level_test_passes [of crc]
    separator_test_passes [of crc] refused_tests_pass(1) [of crc] refused_tests_pass(2) [OF assms]
  by simp

theorem metadata_tests_pass_witness:
  "rejects_bad_csum crc_32_iscsi = Ok () \<and> rejects_corrupted_csum crc_32_iscsi = Ok ()"
  using metadata_tests_pass [OF crc_32_iscsi_detects] by simp



end
