(* ===== verification/Inspect.thy ===== *)
theory Inspect
  imports Client
begin

text \<open>
  The command-line example \<^verbatim>\<open>examples/inspect.rs\<close>: a client that opens a device, resolves a path and prints
  what it finds. A printed line is a value of the type \<open>line\<close> with the data it shows (the wording of the
  labels is left out), and a run returns the lines in order and how it ended. What the program takes from
  outside is a parameter: the opened file with the results of its two seeks, and the \<^verbatim>\<open>sha2\<close> package.
\<close>

section \<open>Hexadecimal\<close>

definition HEX :: string where
  "HEX = ''0123456789abcdef''"

primrec to_hex :: "u8 list \<Rightarrow> string" where
  "to_hex [] = []"
| "to_hex (b # bytes) = HEX ! unat (drop_bit 4 b) # HEX ! unat (b AND 0x0F) # to_hex bytes"

definition sha256_hex :: "(u8 list \<Rightarrow> u8 list) \<Rightarrow> u8 list \<Rightarrow> string" where
  "sha256_hex digest data = to_hex (digest data)"

definition hex_head :: "u8 list \<Rightarrow> nat \<Rightarrow> string" where
  "hex_head data n = to_hex (take (min n (length data)) data)"

section \<open>UTF-8\<close>

text \<open>\<^verbatim>\<open>std::str::from_utf8\<close> accepts well-formed sequences only: no overlong form, no surrogate, nothing above U+10FFFF.\<close>

definition continuation :: "u8 \<Rightarrow> bool" where
  "continuation b \<longleftrightarrow> 0x80 \<le> b \<and> b \<le> 0xBF"

fun utf8_valid :: "u8 list \<Rightarrow> bool" where
  "utf8_valid [] = True"
| "utf8_valid (a # bs) =
    (if a \<le> 0x7F then utf8_valid bs
     else if 0xC2 \<le> a \<and> a \<le> 0xDF then
       (case bs of b # rest \<Rightarrow> continuation b \<and> utf8_valid rest | _ \<Rightarrow> False)
     else if 0xE0 \<le> a \<and> a \<le> 0xEF then
       (case bs of b # c # rest \<Rightarrow>
          (if a = 0xE0 then 0xA0 \<le> b \<and> b \<le> 0xBF else if a = 0xED then 0x80 \<le> b \<and> b \<le> 0x9F else continuation b)
          \<and> continuation c \<and> utf8_valid rest
        | _ \<Rightarrow> False)
     else if 0xF0 \<le> a \<and> a \<le> 0xF4 then
       (case bs of b # c # d # rest \<Rightarrow>
          (if a = 0xF0 then 0x90 \<le> b \<and> b \<le> 0xBF else if a = 0xF4 then 0x80 \<le> b \<and> b \<le> 0x8F else continuation b)
          \<and> continuation c \<and> continuation d \<and> utf8_valid rest
        | _ \<Rightarrow> False)
     else False)"

definition bytes_of :: "string \<Rightarrow> u8 list" where
  "bytes_of s = map of_char s"

definition or_non_utf8 :: "u8 list \<Rightarrow> u8 list" where
  "or_non_utf8 bs = (if utf8_valid bs then bs else bytes_of ''(non-UTF8)'')"

section \<open>The program\<close>

datatype line =
    Device "u8 list" | DeviceSize u64 | Subvolume u64
  | Blank | PathLine "u8 list" | InodeLine u64 u64 | ModeLine u32 string | MetadataSize u64 | NbytesOnDisk u64
  | LinksAndOwner u32 u32 u32
  | SymlinkTarget "u8 list" | SymlinkTargetBytes nat
  | EntryCount nat | EntryLine u64 u8 "u8 list" | MoreEntries nat
  | ContentSize nat | Sha256Line string | FirstBytes nat string

text \<open>The errors the program reports, by the call that failed, and the ways a run can end.\<close>

datatype inspect_error =
    Usage "u8 list" | HostError string "u8 list" | PathRejected "u8 list" | CallFailed string "u8 list" error

datatype exit_status = Success | Failure inspect_error | Panicked

type_synonym run_result = "line list \<times> exit_status"

record host_file =
  hf_block :: platform
  hf_seek_end :: "u64 option"
  hf_seek_start :: "u64 option"

definition println :: "line list \<Rightarrow> run_result \<Rightarrow> run_result" where
  "println ls r = (ls @ fst r, snd r)"

definition or_fail :: "'a option \<Rightarrow> inspect_error \<Rightarrow> ('a \<Rightarrow> run_result) \<Rightarrow> run_result" where
  "or_fail x e k = (case x of None \<Rightarrow> ([], Failure e) | Some y \<Rightarrow> k y)"

definition call :: "string \<Rightarrow> u8 list \<Rightarrow> 'a outcome \<Rightarrow> ('a \<Rightarrow> run_result) \<Rightarrow> run_result" where
  "call name arg r k =
    (case r of Ok y \<Rightarrow> k y | Err e \<Rightarrow> ([], Failure (CallFailed name arg e)) | Panic \<Rightarrow> ([], Panicked))"

definition kind_name :: "metadata \<Rightarrow> string" where
  "kind_name md =
    (if is_file md then ''regular file'' else if is_dir md then ''directory''
     else if is_symlink md then ''symlink'' else ''other'')"

definition inspect_path :: "codecs \<Rightarrow> (u8 list \<Rightarrow> u8 list) \<Rightarrow> btrfs \<Rightarrow> u8 list \<Rightarrow> run_result" where
  "inspect_path C digest fs p =
     or_fail (path_new p) (PathRejected p) (\<lambda>bp.
     call ''resolve'' p (btrfs_resolve fs bp) (\<lambda>inode.
     call ''metadata'' p (btrfs_metadata fs inode) (\<lambda>md.
     println
       [Blank, PathLine p, InodeLine (inode_objectid inode) (inode_subvolume inode),
        ModeLine (md_mode md) (kind_name md), MetadataSize (md_size md), NbytesOnDisk (md_nbytes md),
        LinksAndOwner (md_nlink md) (md_uid md) (md_gid md)]
       (if is_symlink md then
          call ''read_link'' p (btrfs_read_link C fs bp) (\<lambda>target.
          println [SymlinkTarget (or_non_utf8 target), SymlinkTargetBytes (length target)] ([], Success))
        else if is_dir md then
          call ''read_dir'' p (btrfs_read_dir fs bp) (\<lambda>entries.
          println (EntryCount (length entries)
            # map (\<lambda>e. EntryLine (dl_inode_number e) (dl_kind_byte e) (or_non_utf8 (dl_name e))) (take 20 entries)
            @ (if length entries > 20 then [MoreEntries (length entries - 20)] else [])) ([], Success))
        else if is_file md then
          call ''read_file'' p (btrfs_read_file C fs bp) (\<lambda>bytes.
          let head_n = min (length bytes) 16 in
          println [ContentSize (length bytes), Sha256Line (sha256_hex digest bytes),
            FirstBytes head_n (hex_head bytes head_n)] ([], Success))
        else ([], Success)))))"

definition inspect_run ::
  "codecs \<Rightarrow> (u8 list \<Rightarrow> u8 list) \<Rightarrow> (u8 list \<Rightarrow> host_file option) \<Rightarrow> u8 list list \<Rightarrow> run_result" where
  "inspect_run C digest host_open args =
    (if length args < 2 \<or> length args > 3
     then ([], Failure (Usage (case args of [] \<Rightarrow> bytes_of ''inspect'' | arg # _ \<Rightarrow> arg)))
     else
     let device = args ! 1; target_path = (if 2 < length args then Some (args ! 2) else None) in
     or_fail (host_open device) (HostError ''open'' device) (\<lambda>f.
     or_fail (hf_seek_end f) (HostError ''seek-end'' device) (\<lambda>size.
     or_fail (hf_seek_start f) (HostError ''seek-start'' device) (\<lambda>_.
     println [Device device, DeviceSize size]
       (call ''Btrfs::open'' [] (btrfs_open (hf_block f) size) (\<lambda>fs.
        println [Subvolume (subvolume fs)]
          (case target_path of None \<Rightarrow> ([], Success) | Some p \<Rightarrow> inspect_path C digest fs p)))))))"

definition exit_code :: "run_result \<Rightarrow> nat option" where
  "exit_code r = (case snd r of Success \<Rightarrow> Some 0 | Failure _ \<Rightarrow> Some 1 | Panicked \<Rightarrow> None)"

section \<open>What it prints\<close>

lemma hex_digits: "b < 16 \<Longrightarrow> b' < 16 \<Longrightarrow> HEX ! b = HEX ! b' \<longleftrightarrow> b = b'"
proof -
  have "distinct HEX" "length HEX = 16" by (simp_all add: HEX_def)
  then show "b < 16 \<Longrightarrow> b' < 16 \<Longrightarrow> HEX ! b = HEX ! b' \<longleftrightarrow> b = b'" by (simp add: nth_eq_iff_index_eq)
qed

lemma hex_nibbles: "unat (drop_bit 4 b) = unat (b :: u8) div 16" "unat (b AND 0x0F) = unat b mod 16"
proof -
  show "unat (drop_bit 4 b) = unat b div 16" by (subst unsigned_drop_bit_eq) (simp add: drop_bit_eq_div take_bit_eq_mod)
  have "b AND 0x0F = take_bit 4 b" by (simp add: take_bit_eq_mask mask_eq_exp_minus_1)
  then show "unat (b AND 0x0F) = unat b mod 16" by (simp add: unsigned_take_bit_eq) (simp add: take_bit_eq_mod)
qed

lemma to_hex_eq_iff: "to_hex xs = to_hex ys \<longleftrightarrow> xs = ys"
proof (induction xs arbitrary: ys)
  case Nil
  show ?case by (cases ys) simp_all
next
  case (Cons x xs)
  have "x = y \<longleftrightarrow> HEX ! unat (drop_bit 4 x) = HEX ! unat (drop_bit 4 y) \<and> HEX ! unat (x AND 0x0F) = HEX ! unat (y AND 0x0F)"
    for y :: u8
  proof -
    have "unat x div 16 < 16" "unat y div 16 < 16" using unat_u8_less [of x] unat_u8_less [of y] by linarith+
    moreover have "x = y \<longleftrightarrow> unat x div 16 = unat y div 16 \<and> unat x mod 16 = unat y mod 16"
      by (metis div_mult_mod_eq word_unat_eq_iff)
    ultimately show ?thesis unfolding hex_nibbles by (simp add: hex_digits)
  qed
  with Cons show ?case by (cases ys) auto
qed

lemma length_to_hex [simp]: "length (to_hex bs) = 2 * length bs"
  by (induction bs) simp_all

lemma call_safe: "r \<noteq> Panic \<Longrightarrow> (\<And>x. r = Ok x \<Longrightarrow> snd (k x) \<noteq> Panicked) \<Longrightarrow> snd (call name arg r k) \<noteq> Panicked"
  by (cases r) (simp_all add: call_def)

lemma or_fail_safe: "(\<And>x. r = Some x \<Longrightarrow> snd (k x) \<noteq> Panicked) \<Longrightarrow> snd (or_fail r e k) \<noteq> Panicked"
  by (cases r) (simp_all add: or_fail_def)

lemma snd_println [simp]: "snd (println ls r) = snd r"
  by (simp add: println_def)

lemma inspect_path_safe:
  assumes "fs_wf fs" and "codecs_ok C"
  shows "snd (inspect_path C digest fs p) \<noteq> Panicked"
  unfolding inspect_path_def
  by (intro or_fail_safe call_safe opened_operations_safe [OF assms])
    (simp add: call_safe opened_operations_safe [OF assms] Let_def)

text \<open>
  The example program never panics, whatever its arguments, the device and the answers of the operating
  system are, as long as the superblock that is chosen declares a system chunk array within its field: a
  run ends with success or with one reported error.
\<close>

lemma inspect_never_panics:
  assumes "codecs_ok C"
    and "\<And>device f size sb. host_open device = Some f \<Longrightarrow> hf_seek_end f = Some size \<Longrightarrow>
      superblock_load (hf_block f) size = Ok sb \<Longrightarrow> unat (sb_sys_chunk_array_size sb) \<le> 2048"
  shows "\<exists>code. exit_code (inspect_run C digest host_open args) = Some code \<and> code \<le> 1"
proof -
  have opened: "snd (call ''Btrfs::open'' [] (btrfs_open (hf_block f) size) (\<lambda>fs.
        println [Subvolume (subvolume fs)]
          (case target of None \<Rightarrow> ([], Success) | Some p \<Rightarrow> inspect_path C digest fs p))) \<noteq> Panicked"
    if "host_open device = Some f" "hf_seek_end f = Some size" for device f size target
    using assms(2) [OF that] inspect_path_safe [OF opened_wf assms(1)]
    by (intro call_safe open_safe) (auto split: option.split)
  have "snd (inspect_run C digest host_open args) \<noteq> Panicked"
  proof (cases "length args < 2 \<or> length args > 3")
    case False
    then show ?thesis
      by (simp only: inspect_run_def Let_def if_False) (intro or_fail_safe; simp only: snd_println opened not_False_eq_True)
  qed (simp add: inspect_run_def)
  then show ?thesis by (cases "snd (inspect_run C digest host_open args)") (simp_all add: exit_code_def)
qed



end
