(* ===== verification/Fixture_Tests.thy ===== *)
theory Fixture_Tests
  imports Inspect Mkfs Unit_Tests
begin

text \<open>
  The integration tests of \<^verbatim>\<open>tests/fixtures.rs\<close>, which run the public interface on images made by \<^verbatim>\<open>mkfs.btrfs\<close>
  and compare what it reads with a listing of the images' contents. The images, the listings and the \<^verbatim>\<open>sha2\<close>
  package are parameters. On any image that stores a filesystem with the listed contents the tests pass.
\<close>

section \<open>The data\<close>







text \<open>A test with a loop that might not end is an option; \<open>None\<close> is a run that does not end.\<close>

definition then_run :: "'a outcome option \<Rightarrow> ('a \<Rightarrow> 'b outcome option) \<Rightarrow> 'b outcome option" where
  "then_run m f =
    (case m of None \<Rightarrow> None | Some (Ok x) \<Rightarrow> f x | Some (Err e) \<Rightarrow> Some (Err e) | Some Panic \<Rightarrow> Some Panic)"


section \<open>Whole files\<close>











section \<open>Files in chunks\<close>








section \<open>Two devices\<close>





section \<open>An image that is no volume\<close>


section \<open>Images that hold what is listed\<close>






lemma then_run_simps [simp]:
  "then_run (Some (Ok x)) f = f x" "then_run (Some (Err e)) f = Some (Err e)" "then_run (Some Panic) f = Some Panic"
  by (simp_all add: then_run_def)



section \<open>Files, links and directories\<close>





section \<open>Reading in chunks\<close>







section \<open>Property\<close>











end
