(* ===== verification/Spec2Isabelle.thy ===== *)
theory Spec2Isabelle
  imports Mkfs Reserved_Constants Fuzz Dir_Names Error_Text Test_Suite Fixture_Tests
begin

text \<open>
  \<^bold>\<open>lambutter\<close> is a read-only btrfs reader written in Rust for boot loaders: given a block reader and the
  size of the device it loads a superblock, builds the map from logical to physical addresses, walks the
  B-trees of the filesystem and reads metadata, directories, symlinks and files. This development models
  the whole library crate (\<^verbatim>\<open>src/src\<close>), the fuzz harnesses (\<^verbatim>\<open>src/fuzz\<close>), the example program
  (\<^verbatim>\<open>src/examples/inspect.rs\<close>), the unit tests with their builders and most of the integration tests
  (\<^verbatim>\<open>src/tests/fixtures.rs\<close>), as functions that read like the code, and proves what they compute.

  \<^bold>\<open>How the parts interact.\<close> \<^verbatim>\<open>Btrfs::mount\<close> (\<^verbatim>\<open>lib.rs\<close>) calls \<^verbatim>\<open>superblock::load\<close>, parses the system chunk
  array into a \<^verbatim>\<open>ChunkMap\<close> and has \<^verbatim>\<open>populate_from_chunk_tree\<close> extend that map with every chunk, reading the
  chunk tree through the map it is extending. \<^verbatim>\<open>open\<close>, \<^verbatim>\<open>open_subvol_id\<close> and \<^verbatim>\<open>open_subvol_path\<close> then choose a
  subvolume in the root tree. All later operations go through \<^verbatim>\<open>find_exact\<close> and \<^verbatim>\<open>find_first_ge\<close> of
  \<^verbatim>\<open>btree.rs\<close>, which read blocks through the chunk map and verify their checksums: path resolution looks
  up one directory item per component, directory listings and file reads scan a range of items leaf by
  leaf, and file data are read through the chunk map and decompressed.

  \<^bold>\<open>Conventions.\<close> A Rust computation has the type \<open>'a outcome\<close> of \<open>Prelude\<close>: \<open>Ok\<close>, \<open>Err\<close> with the crate's own
  error, or \<open>Panic\<close>. Index and slice errors, failed \<^verbatim>\<open>copy_from_slice\<close>, arithmetic overflow of the plain
  operators (as with overflow checks on) and capacity overflow are \<open>Panic\<close>; the checked and saturating
  operators are those of the standard library at 64 bits (\<^verbatim>\<open>usize\<close> is 64 bits wide). Integers are words of
  their width, lengths and indices natural numbers. Loops are recursive functions with termination
  proofs; \<open>None\<close>, early returns and \<^verbatim>\<open>?\<close> are branches. What is not in the sources is a parameter: the block
  reader, the \<^verbatim>\<open>crc\<close> package and the allocator in the record \<open>platform\<close>, the decoders of \<^verbatim>\<open>lzokay\<close>,
  \<^verbatim>\<open>miniz_oxide\<close> and \<^verbatim>\<open>ruzstd\<close> and the Cargo features in the record \<open>codecs\<close>.

  \<^bold>\<open>Theories\<close>, in the order of their imports, with the sources they model:

  \<^item> \<open>Prelude\<close>: outcomes, errors (\<^verbatim>\<open>error.rs\<close>), integer operations, slices and the shared lemmas.
    \<open>Error_Text\<close>: the texts of the errors; different errors have different texts.
  \<^item> \<open>Constants\<close> and \<open>Reserved_Constants\<close> (\<^verbatim>\<open>format/constants.rs\<close>, \<^verbatim>\<open>format/flags.rs\<close>), \<open>Le\<close> (\<^verbatim>\<open>le.rs\<close>), \<open>Repr\<close> (\<^verbatim>\<open>format/repr.rs\<close>): the
    on-disk records, each parser shown equal to the record its fields describe, and encoders.
  \<^item> \<open>Platform\<close> (\<^verbatim>\<open>block_read.rs\<close>): the reader, the contract \<open>block_read\<close> as a locale, interpreted on the byte
    slice adapter. \<open>Checksum\<close> (\<^verbatim>\<open>checksum.rs\<close>): the table-driven name hash is the bitwise CRC.
    \<open>Crc32c\<close>: the algorithm \<^verbatim>\<open>CRC_32_ISCSI\<close> that the crate selects, as an instance of the parameter; it notices every
    change of one byte.
  \<^item> \<open>Chunk_Map\<close>, \<open>Sys_Chunk_Array\<close>, \<open>Chunk_Tree\<close> (\<^verbatim>\<open>chunk_tree.rs\<close>): insertion, resolution against a linear
    reference, the bootstrap parser and its byte layout, and the walk that extends the map.
  \<^item> \<open>Btree\<close>, \<open>Btree_Search\<close>, \<open>Tree_Lookup\<close>, \<open>Block_Image\<close> (\<^verbatim>\<open>btree.rs\<close>): block reading and validation, the
    binary searches, the descent; the tree a device holds (\<open>load_tree\<close>), its well-formedness (\<open>tree_ok\<close>) and its
    ordered list of items (\<open>tree_slots\<close>); both lookups are searches in that list. \<open>Tree_Lookup\<close> states what a
    scan needs of a lookup as a locale, which the scans below use through its interpretation.
  \<^item> \<open>Superblock\<close> (\<^verbatim>\<open>superblock.rs\<close>): validation, and the choice among the copies against a reference.
  \<^item> \<open>Path\<close> (\<^verbatim>\<open>path.rs\<close>), \<open>Inode\<close> (\<^verbatim>\<open>inode.rs\<close>), \<open>Root_Tree\<close> (\<^verbatim>\<open>root_tree.rs\<close>), \<open>Resolve\<close> (\<^verbatim>\<open>resolve.rs\<close>), \<open>Dir\<close>
    (\<^verbatim>\<open>dir.rs\<close>): components, subvolumes, lookup and listing, each described over the item list.
    \<open>Dir_Names\<close>: on a directory whose two representations hold the same entries, listing and lookup agree.
    \<open>Leaf_Volume\<close> writes leaves from items, the source of the concrete volumes.
  \<^item> \<open>Buffers\<close>, \<open>Tree_Builder\<close> (the builders in the tests of \<^verbatim>\<open>superblock.rs\<close>, \<^verbatim>\<open>btree.rs\<close> and \<^verbatim>\<open>chunk_tree.rs\<close>): slice
    assignment with its panics, and the write side of the format; each builder is shown to arrive at the
    layout of \<open>Block_Image\<close>. \<open>Written_Tree\<close>: trees of any shape written with them, read back as the map they
    were written from. \<open>Block_Checks\<close>: what reading refuses of a written leaf. \<open>Lzo_Builder\<close> (tests of
    \<^verbatim>\<open>compression/lzo.rs\<close>): the extent builder is the layout of the LZO round trip.
  \<^item> \<open>Compression\<close>, \<open>Zstd_Frames\<close> (\<^verbatim>\<open>compression/\<close>): the decoders, with the locale \<open>extent_decoder\<close> as their common contract
    (no panic, append only, bounded), interpreted on the LZO, zlib and zstd decoders and on the dispatch.
  \<^item> \<open>Extent_Read\<close>, \<open>Extent_Scan\<close>, \<open>File\<close>, \<open>File_Content\<close>, \<open>File_Errors\<close>, \<open>Read_Bounds\<close> (\<^verbatim>\<open>file.rs\<close>): reads through
    the chunk map, the extent loop shared by \<^verbatim>\<open>read_file\<close> and \<^verbatim>\<open>read_file_at\<close>, the two readers against one
    description of the contents of a file, their errors and the lengths of their results.
  \<^item> \<open>Lib\<close>, \<open>Mount_Image\<close> (\<^verbatim>\<open>lib.rs\<close>): mounting, opening, the public operations and a complete volume image.
  \<^item> \<open>Abstract_Fs\<close>: the abstract specification of the crate. A filesystem is a map from inodes to files, directories
    and links; \<open>fs_refines\<close> says that an opened filesystem stores one, and every public operation is then the
    abstract operation of its name. \<open>Written_Fs\<close>, \<open>Mkfs\<close>: any such filesystem written as items into a tree of any
    shape behind a superblock; opening the volume gives a filesystem that refines it.
  \<^item> \<open>Client\<close> (the chunked reader of \<^verbatim>\<open>tests/fixtures.rs\<close>, also the README's): clients of the public interface.
    \<open>Inspect\<close> (\<^verbatim>\<open>examples/inspect.rs\<close>): the example program, with the lines it prints as values.
  \<^item> \<open>Fuzz\<close> (\<^verbatim>\<open>fuzz/fuzz_targets\<close>, \<^verbatim>\<open>__fuzz_internals\<close>): the harnesses as functions of their input.
  \<^item> \<open>Unit_Tests\<close>, \<open>Superblock_Tests\<close>, \<open>Btree_Tests\<close>, \<open>Compression_Tests\<close>, \<open>Test_Suite\<close> (the \<^verbatim>\<open>tests\<close> modules of the crate):
    every unit test as a program that ends with \<open>Ok\<close> when it passes; the tests of the loader and the walker pass
    under any checksum function that notices a changed byte. \<open>Fixture_Tests\<close> (\<^verbatim>\<open>tests/fixtures.rs\<close>): the integration
    tests over images and listings that are parameters; they pass on all images that store what is listed.

  \<^bold>\<open>What the lemmas show.\<close> Functional behaviour: on a well-formed tree every operation is described over the
  ordered item list (\<open>find_first_ge_refines\<close>, \<open>read_dir_lists_index_items\<close>, \<open>lookup_in_dir_spec\<close>,
  \<open>read_file_content\<close>, \<open>read_file_at_window_content\<close> and others), whatever leaves the items are spread over.
  Invariants: the chunk map stays sorted and disjoint from the first insertion to the opened filesystem,
  which every way of opening establishes. Safety: no operation panics on any device contents, with the
  exceptions the theorems name. Round trips: system chunks, whole trees, LZO and zstd extents
  and whole filesystems (\<open>mkfs_roundtrip\<close>). Refinement: the public interface computes the abstract filesystem
  (\<open>filesystem_refines\<close>).
  Bounds: decompression stays within its cap and reads within the caller's buffer. Consistency between
  operations: reading in chunks ends and gives what reading as a whole gives, listing and lookup give the same
  inodes, and no inode is read both as a file and as a link.

  \<^bold>\<open>Bounds and termination.\<close> The descent of \<^verbatim>\<open>btree.rs\<close> is limited to \<^verbatim>\<open>MAX_TREE_DEPTH\<close> steps by the code itself
  and \<open>load_tree\<close> uses the same number as fuel, so it sees every tree the code can descend. The leaf-by-leaf
  scans end because every restart key is greater than the last (\<open>scan_measure\<close>), on any device contents; the
  read loops consume their buffer, the parsers their input, and the zstd loop the 16 MiB cap. The chunked reader
  of \<open>Client\<close> is a partial function, shown to end on every device. Written trees have at most 16 interior
  levels and less than 4 GiB, the depth limit of the walker and the 32-bit size that \<^verbatim>\<open>synth_tree\<close> stores.

  \<^bold>\<open>Findings.\<close> A superblock that declares more system chunk bytes than its array makes opening panic
  (\<open>fuzz_superblock_reaches_overrun\<close>); one sum in the compressed branch of \<^verbatim>\<open>copy_extent_slice\<close> is unchecked
  (\<open>compressed_offset_overflow_panics\<close>); \<^verbatim>\<open>read_file\<close> refuses sparse files with space preallocated past their
  end, which \<^verbatim>\<open>read_file_at\<close> reads (\<open>read_file_rejects_past_eof\<close>); the conversion of a string without a
  leading slash iterates components although its comment denies it (\<open>relative_string_iterates\<close>).

  \<^bold>\<open>Not modelled.\<close> The texts of derived \<^verbatim>\<open>Debug\<close> output (except the reasons of a bad superblock) and of the labels the
  example program prints; allocation failures of infallible allocations, which abort the process; the bytes a failed
  read leaves in the caller's buffer; readers whose answers change between calls; the third-party decoders and
  the SHA package beyond the behaviour named in \<open>codecs_ok\<close> and \<open>decodes_literals\<close>; the fixture tests F12, F14 and
  F15, whose images (not part of the sources) would have to be described by their trees: subvolumes, data on a
  second device, encryption markers. Volumes of \<open>Mkfs\<close> have one subvolume and inline extents.
\<close>

end
